(* ===== verification/Zht_Prelude.thy ===== *)
theory Zht_Prelude
  imports Main "HOL-Library.Word" "HOL-Library.AList"
begin

text \<open>
  Shared ground of the development: the machine integer types, bytes and characters, the
  results of fallible operations, and the hash map of the Rust standard library
  (\<open>std::collections::HashMap\<close>) with the interface its clients rely on.

  A Rust \<open>String\<close> is a sequence of UTF-8 bytes; it is a \<open>string\<close> here, whose characters
  are bytes. A \<open>Vec<u8>\<close> is a \<open>u8 list\<close>. \<open>as_bytes\<close> goes from the first to the second.
\<close>

named_theorems text_simps \<open>conversions and tokenising of strings\<close>
named_theorems wf_intros \<open>preservation of well-formedness by the operations\<close>

type_synonym u8 = "8 word"
type_synonym u16 = "16 word"
type_synonym u32 = "32 word"
type_synonym u64 = "64 word"

text \<open>Lengths, indices and times (\<open>usize\<close>, \<open>Instant\<close>, \<open>Duration\<close>) are natural numbers.\<close>

section \<open>Bytes and characters\<close>

definition byte_of :: "char \<Rightarrow> u8" where
  "byte_of c = of_char c"

definition char_at :: "u8 \<Rightarrow> char" where
  "char_at b = char_of (unat b)"

lemma unat_byte_of: "unat (byte_of c) = of_char c"
proof -
  have "(of_nat (of_char c) :: u8) = of_char c"
    by (rule of_nat_of_char)
  then have "unat (of_char c :: u8) = unat (of_nat (of_char c) :: u8)"
    by simp
  also have "\<dots> = of_char c mod 2 ^ LENGTH(8)"
    by (simp only: unat_of_nat)
  also have "\<dots> = of_char c"
    by simp
  finally show ?thesis by (simp add: byte_of_def)
qed

lemma char_at_byte_of [simp]: "char_at (byte_of c) = c"
  by (simp add: char_at_def unat_byte_of)

lemma byte_of_char_at [simp]: "byte_of (char_at b) = b"
proof -
  have "unat b < 2 ^ LENGTH(8)"
    by (rule unsigned_less)
  then have "unat (byte_of (char_at b)) = unat b"
    by (simp only: unat_byte_of char_at_def of_char_of) simp
  then show ?thesis by (simp only: word_unat_eq_iff)
qed

lemma byte_of_inject [simp]: "byte_of c = byte_of d \<longleftrightarrow> c = d"
  by (metis char_at_byte_of)

definition as_bytes :: "string \<Rightarrow> u8 list" where
  "as_bytes s = map byte_of s"

definition of_bytes :: "u8 list \<Rightarrow> string" where
  "of_bytes bs = map char_at bs"

lemma as_bytes_simps [simp, text_simps]:
  "as_bytes [] = []"
  "as_bytes (c # s) = byte_of c # as_bytes s"
  "as_bytes (s @ t) = as_bytes s @ as_bytes t"
  by (simp_all add: as_bytes_def)

lemma of_bytes_as_bytes [simp]: "of_bytes (as_bytes s) = s"
  by (simp add: of_bytes_def as_bytes_def o_def)

lemma as_bytes_of_bytes [simp]: "as_bytes (of_bytes bs) = bs"
  by (simp add: of_bytes_def as_bytes_def o_def)

lemma as_bytes_inject [simp]: "as_bytes s = as_bytes t \<longleftrightarrow> s = t"
  by (metis of_bytes_as_bytes)

lemma as_bytes_Nil_iff [simp]: "as_bytes s = [] \<longleftrightarrow> s = []"
  by (simp add: as_bytes_def)

lemma length_as_bytes [simp]: "length (as_bytes s) = length s"
  by (simp add: as_bytes_def)

lemma of_bytes_Nil_iff [simp]: "of_bytes bs = [] \<longleftrightarrow> bs = []"
  by (simp add: of_bytes_def)

lemma take_as_bytes: "take n (as_bytes s) = as_bytes (take n s)"
  by (simp add: as_bytes_def take_map)

section \<open>The first moment something happens\<close>

lemma first_time:
  fixes P :: "nat \<Rightarrow> bool"
  assumes "P i"
  obtains n where "P n" "\<forall>j < n. \<not> P j" "n \<le> i"
  using that [of "LEAST n. P n"] assms by (metis LeastI Least_le not_less_Least)

section \<open>The interface of a hash map\<close>

text \<open>
  What the code relies on of \<open>HashMap\<close>: reading after a write, no other key touched, and
  the number of entries. The order in which a map is iterated is not part of it.
\<close>

locale rust_map =
  fixes wf :: "'m \<Rightarrow> bool"
    and get :: "'m \<Rightarrow> 'k \<Rightarrow> 'v option"
    and empty :: "'m"
    and insert_kv :: "'k \<Rightarrow> 'v \<Rightarrow> 'm \<Rightarrow> 'm"
    and remove :: "'k \<Rightarrow> 'm \<Rightarrow> 'm"
    and len :: "'m \<Rightarrow> nat"
  assumes wf_empty: "wf empty"
    and get_empty: "get empty k = None"
    and wf_insert: "wf m \<Longrightarrow> wf (insert_kv k v m)"
    and get_insert: "get (insert_kv k v m) = (get m)(k \<mapsto> v)"
    and wf_remove: "wf m \<Longrightarrow> wf (remove k m)"
    and get_remove: "wf m \<Longrightarrow> get (remove k m) = (get m)(k := None)"
    and finite_keys: "finite (dom (get m))"
    and len_keys: "wf m \<Longrightarrow> len m = card (dom (get m))"
begin

lemma len_insert:
  assumes "wf m"
  shows "len (insert_kv k v m) = (if get m k = None then Suc (len m) else len m)"
proof (cases "get m k")
  case None
  then have "k \<notin> dom (get m)" by auto
  then show ?thesis
    using assms None finite_keys [of m] by (simp add: len_keys wf_insert get_insert)
next
  case (Some w)
  then have "insert k (dom (get m)) = dom (get m)" by auto
  then show ?thesis
    using assms Some by (simp add: len_keys wf_insert get_insert)
qed

lemma len_remove:
  assumes "wf m"
  shows "len (remove k m) = (if get m k = None then len m else len m - 1)"
proof (cases "get m k")
  case None
  then have "k \<notin> dom (get m)" by auto
  then have "dom (get m) - {k} = dom (get m)" by auto
  then show ?thesis
    using assms None by (simp add: len_keys wf_remove get_remove)
next
  case (Some w)
  then have "k \<in> dom (get m)" by auto
  then show ?thesis
    using assms Some finite_keys [of m] by (simp add: len_keys wf_remove get_remove)
qed

lemma remove_absent: "wf m \<Longrightarrow> get m k = None \<Longrightarrow> get (remove k m) = get m"
  by (auto simp: get_remove fun_eq_iff)

lemma len_empty: "len empty = 0"
proof -
  have "get empty = Map.empty" by (rule ext) (rule get_empty)
  then show ?thesis by (simp add: len_keys wf_empty)
qed

end

section \<open>The hash map as a list of entries\<close>

text \<open>
  The model of a \<open>HashMap\<close> is the list of its entries with distinct keys. The order of the
  list stands for the iteration order, which Rust leaves open: a theorem about iteration is
  therefore stated for every list of entries, and its conclusion about the map's content.
\<close>

type_synonym ('k, 'v) hashmap = "('k \<times> 'v) list"

definition hm_wf :: "('k, 'v) hashmap \<Rightarrow> bool" where
  "hm_wf m \<longleftrightarrow> distinct (map fst m)"

definition hm_get :: "('k, 'v) hashmap \<Rightarrow> 'k \<Rightarrow> 'v option" where
  "hm_get m k = map_of m k"

definition hm_insert :: "'k \<Rightarrow> 'v \<Rightarrow> ('k, 'v) hashmap \<Rightarrow> ('k, 'v) hashmap" where
  "hm_insert k v m = AList.update k v m"

definition hm_remove :: "'k \<Rightarrow> ('k, 'v) hashmap \<Rightarrow> ('k, 'v) hashmap" where
  "hm_remove k m = AList.delete k m"

definition hm_contains :: "('k, 'v) hashmap \<Rightarrow> 'k \<Rightarrow> bool" where
  "hm_contains m k \<longleftrightarrow> hm_get m k \<noteq> None"

definition hm_keys :: "('k, 'v) hashmap \<Rightarrow> 'k list" where
  "hm_keys m = map fst m"

lemma hm_get_map_of: "hm_get m = map_of m"
  by (rule ext) (simp add: hm_get_def)

lemma hm_len_card: "hm_wf m \<Longrightarrow> length m = card (dom (map_of m))"
  by (metis distinct_card dom_map_of_conv_image_fst hm_wf_def length_map list.set_map)

interpretation hm: rust_map hm_wf hm_get "[]" hm_insert hm_remove length
proof unfold_locales
  fix m :: "('a, 'b) hashmap" and k v
  show "hm_wf ([] :: ('a, 'b) hashmap)" by (simp add: hm_wf_def)
  show "hm_get ([] :: ('a, 'b) hashmap) k = None" by (simp add: hm_get_def)
  show "hm_wf m \<Longrightarrow> hm_wf (hm_insert k v m)"
    by (simp add: hm_wf_def hm_insert_def distinct_update)
  show "hm_get (hm_insert k v m) = (hm_get m)(k \<mapsto> v)"
    by (simp add: hm_get_map_of hm_insert_def update_conv')
  show "hm_wf m \<Longrightarrow> hm_wf (hm_remove k m)"
    by (simp add: hm_wf_def hm_remove_def distinct_delete)
  show "hm_wf m \<Longrightarrow> hm_get (hm_remove k m) = (hm_get m)(k := None)"
    by (simp add: hm_get_map_of hm_remove_def delete_conv')
  show "finite (dom (hm_get m))"
    by (simp add: hm_get_map_of finite_dom_map_of)
  show "hm_wf m \<Longrightarrow> length m = card (dom (hm_get m))"
    by (simp add: hm_get_map_of hm_len_card)
qed

lemma get_hm_insert [simp]: "hm_get (hm_insert k v m) = (hm_get m)(k \<mapsto> v)"
  by (rule hm.get_insert)

lemma get_hm_remove [simp]: "hm_get (hm_remove k m) = (hm_get m)(k := None)"
  by (simp add: hm_get_map_of hm_remove_def delete_conv')

lemma get_hm_Nil [simp]: "hm_get [] = Map.empty"
  by (simp add: hm_get_map_of)

lemma hm_wf_Nil [simp, wf_intros]: "hm_wf []"
  by (rule hm.wf_empty)

lemma hm_wf_insert [simp, wf_intros]: "hm_wf m \<Longrightarrow> hm_wf (hm_insert k v m)"
  by (rule hm.wf_insert)

lemma hm_wf_remove [simp, wf_intros]: "hm_wf m \<Longrightarrow> hm_wf (hm_remove k m)"
  by (rule hm.wf_remove)

lemma set_hm_keys [simp]: "set (hm_keys m) = dom (hm_get m)"
  by (simp add: hm_keys_def hm_get_map_of dom_map_of_conv_image_fst)

lemma distinct_hm_keys: "hm_wf m \<Longrightarrow> distinct (hm_keys m)"
  by (simp add: hm_keys_def hm_wf_def)

lemma hm_entry_iff: "hm_wf m \<Longrightarrow> (k, v) \<in> set m \<longleftrightarrow> hm_get m k = Some v"
  by (simp add: hm_wf_def hm_get_map_of)

end
