(* ===== verification/Rust_Text.thy ===== *)
theory Rust_Text
  imports Zht_Prelude
begin

text \<open>
  The parts of Rust's string library that the code uses, on the bytes of a string: UTF-8
  validity and \<open>String::from_utf8_lossy\<close>, \<open>trim\<close>, \<open>split\<close>, \<open>splitn\<close>, \<open>split_whitespace\<close>,
  \<open>lines\<close>, the parsing of decimal integers (\<open>str::parse\<close>) and their formatting.
\<close>

section \<open>UTF-8\<close>

text \<open>
  \<open>utf8_step\<close> reads the first character of a byte string: whether it is well-formed, and how
  many bytes it takes (the character, or the maximal ill-formed prefix, which
  \<open>from_utf8_lossy\<close> replaces by U+FFFD).
\<close>

definition get_byte :: "u8 list \<Rightarrow> nat \<Rightarrow> u8" where
  "get_byte bs i = (if i < length bs then bs ! i else 0)"

definition is_cont :: "u8 \<Rightarrow> bool" where
  "is_cont b \<longleftrightarrow> 128 \<le> b \<and> b \<le> 191"

text \<open>The width of the character a byte opens; 0 for a byte that opens none.\<close>

definition utf8_width :: "u8 \<Rightarrow> nat" where
  "utf8_width b =
     (if b < 128 then 1
      else if 194 \<le> b \<and> b \<le> 223 then 2
      else if 224 \<le> b \<and> b \<le> 239 then 3
      else if 240 \<le> b \<and> b \<le> 244 then 4
      else 0)"

text \<open>The second byte of a character of three or four bytes.\<close>

definition second_ok :: "u8 \<Rightarrow> u8 \<Rightarrow> bool" where
  "second_ok b c \<longleftrightarrow>
     (if b = 224 then 160 \<le> c \<and> c \<le> 191
      else if b = 237 then 128 \<le> c \<and> c \<le> 159
      else if b = 240 then 144 \<le> c \<and> c \<le> 191
      else if b = 244 then 128 \<le> c \<and> c \<le> 143
      else is_cont c)"

fun utf8_step :: "u8 list \<Rightarrow> bool \<times> nat" where
  "utf8_step [] = (True, 0)"
| "utf8_step (b # bs) =
     (if utf8_width b = 1 then (True, 1)
      else if utf8_width b = 2 then
        (if is_cont (get_byte bs 0) then (True, 2) else (False, 1))
      else if utf8_width b = 3 then
        (if \<not> second_ok b (get_byte bs 0) then (False, 1)
         else if \<not> is_cont (get_byte bs 1) then (False, 2) else (True, 3))
      else if utf8_width b = 4 then
        (if \<not> second_ok b (get_byte bs 0) then (False, 1)
         else if \<not> is_cont (get_byte bs 1) then (False, 2)
         else if \<not> is_cont (get_byte bs 2) then (False, 3) else (True, 4))
      else (False, 1))"

lemma utf8_step_pos: "bs \<noteq> [] \<Longrightarrow> utf8_step bs = (ok, n) \<Longrightarrow> 0 < n"
  by (cases bs) (auto split: if_splits)

lemma utf8_step_pos_snd: "bs \<noteq> [] \<Longrightarrow> 0 < snd (utf8_step bs)"
  by (cases "utf8_step bs") (simp add: utf8_step_pos)

lemma utf8_step_shorter: "bs \<noteq> [] \<Longrightarrow> length (drop (snd (utf8_step bs)) bs) < length bs"
  using utf8_step_pos_snd [of bs] by (simp add: diff_less)

function valid_utf8 :: "u8 list \<Rightarrow> bool" where
  "valid_utf8 bs =
     (if bs = [] then True
      else if fst (utf8_step bs) then valid_utf8 (drop (snd (utf8_step bs)) bs)
      else False)"
  by pat_completeness auto
termination
  by (relation "measure length") (auto simp del: length_drop simp: utf8_step_shorter)

definition replacement :: "u8 list" where
  "replacement = [239, 191, 189]"

function lossy :: "u8 list \<Rightarrow> u8 list" where
  "lossy bs =
     (if bs = [] then []
      else (if fst (utf8_step bs) then take (snd (utf8_step bs)) bs else replacement)
           @ lossy (drop (snd (utf8_step bs)) bs))"
  by pat_completeness auto
termination
  by (relation "measure length") (auto simp del: length_drop simp: utf8_step_shorter)

declare valid_utf8.simps [simp del] lossy.simps [simp del]

text \<open>A well-formed character lies within the bytes, so what follows it does not matter.\<close>

lemma is_cont_0 [simp]: "\<not> is_cont 0" "\<not> second_ok b 0"
  by (simp_all add: is_cont_def second_ok_def)

lemma get_byte_bound: "get_byte bs i \<noteq> 0 \<Longrightarrow> i < length bs"
  by (auto simp: get_byte_def split: if_splits)

lemma get_byte_append: "i < length bs \<Longrightarrow> get_byte (bs @ cs) i = get_byte bs i"
  by (simp add: get_byte_def nth_append)

lemma cont_bound:
  "is_cont (get_byte bs i) \<Longrightarrow> i < length bs"
  "second_ok b (get_byte bs i) \<Longrightarrow> i < length bs"
  by (metis get_byte_bound is_cont_0)+

lemma cont_append:
  "is_cont (get_byte bs i) \<Longrightarrow> is_cont (get_byte (bs @ cs) i)"
  "second_ok b (get_byte bs i) \<Longrightarrow> second_ok b (get_byte (bs @ cs) i)"
  using cont_bound get_byte_append by metis+

text \<open>What a well-formed first character looks like.\<close>

lemma utf8_step_True:
  "utf8_step (b # bs) = (True, n) \<longleftrightarrow>
     n = utf8_width b \<and>
     (n = 1 \<or> n = 2 \<and> is_cont (get_byte bs 0) \<or>
      n = 3 \<and> second_ok b (get_byte bs 0) \<and> is_cont (get_byte bs 1) \<or>
      n = 4 \<and> second_ok b (get_byte bs 0) \<and> is_cont (get_byte bs 1) \<and> is_cont (get_byte bs 2))"
  by auto

lemma utf8_step_len: "utf8_step bs = (True, n) \<Longrightarrow> n \<le> length bs"
proof (cases bs)
  case (Cons b cs)
  assume "utf8_step bs = (True, n)"
  then have "n = 1 \<or> n = 2 \<and> 0 < length cs \<or> n = 3 \<and> 1 < length cs \<or> n = 4 \<and> 2 < length cs"
    unfolding Cons utf8_step_True by (blast dest: cont_bound)
  then show ?thesis unfolding Cons by (simp, linarith)
qed simp

lemma utf8_step_append:
  assumes "bs \<noteq> []" "utf8_step bs = (True, n)"
  shows "utf8_step (bs @ cs) = (True, n)"
proof (cases bs)
  case (Cons b ds)
  note step = assms(2) [unfolded Cons utf8_step_True]
  from step have w: "n = utf8_width b" by (rule conjunct1)
  from step consider "n = 1" | "n = 2" | "n = 3" | "n = 4" by blast
  then show ?thesis
  proof cases
    case 1
    then show ?thesis using w by (simp add: Cons)
  next
    case 2
    with step have "is_cont (get_byte ds 0)" by simp
    from cont_append(1) [OF this, of cs] 2 w show ?thesis by (simp add: Cons)
  next
    case 3
    with step have "second_ok b (get_byte ds 0)" "is_cont (get_byte ds 1)" by simp_all
    from cont_append(2) [OF this(1), of cs] cont_append(1) [OF this(2), of cs] 3 w
    show ?thesis by (simp add: Cons)
  next
    case 4
    with step have "second_ok b (get_byte ds 0)" "is_cont (get_byte ds 1)" "is_cont (get_byte ds 2)"
      by simp_all
    from cont_append(2) [OF this(1), of cs] cont_append(1) [OF this(2), of cs]
      cont_append(1) [OF this(3), of cs] 4 w
    show ?thesis by (simp add: Cons)
  qed
qed (use assms in simp)

lemma valid_utf8_Nil [simp]: "valid_utf8 []"
  by (simp add: valid_utf8.simps)

lemma valid_utf8_unfold:
  "bs \<noteq> [] \<Longrightarrow> valid_utf8 bs \<longleftrightarrow>
     (\<exists>n. utf8_step bs = (True, n) \<and> valid_utf8 (drop n bs))"
  by (subst valid_utf8.simps) (cases "utf8_step bs", simp)

lemma valid_utf8_append:
  "valid_utf8 bs \<Longrightarrow> valid_utf8 cs \<Longrightarrow> valid_utf8 (bs @ cs)"
proof (induction bs rule: length_induct)
  case (1 bs)
  show ?case
  proof (cases "bs = []")
    case False
    with 1(2) obtain n where n: "utf8_step bs = (True, n)" "valid_utf8 (drop n bs)"
      unfolding valid_utf8_unfold [OF False] by blast
    have le: "n \<le> length bs" and pos: "0 < n"
      using n(1) False by (auto dest: utf8_step_len utf8_step_pos)
    have "length (drop n bs) < length bs"
      using False pos by simp
    with 1(1,3) n(2) have "valid_utf8 (drop n bs @ cs)" by blast
    moreover have "drop n (bs @ cs) = drop n bs @ cs" using le by simp
    moreover have "bs @ cs \<noteq> []" using False by simp
    ultimately show ?thesis
      using valid_utf8_unfold [of "bs @ cs"] utf8_step_append [OF False n(1)] by metis
  qed (use 1(3) in simp)
qed

lemma valid_utf8_ascii [simp]: "b < 128 \<Longrightarrow> valid_utf8 (b # bs) \<longleftrightarrow> valid_utf8 bs"
  by (subst valid_utf8.simps) (simp add: utf8_width_def)

lemma valid_utf8_replacement: "valid_utf8 replacement"
  by code_simp

lemma lossy_Nil [simp]: "lossy [] = []"
  by (simp add: lossy.simps)

lemma lossy_valid: "valid_utf8 bs \<Longrightarrow> lossy bs = bs"
proof (induction bs rule: length_induct)
  case (1 bs)
  show ?case
  proof (cases "bs = []")
    case False
    with 1(2) obtain n where n: "utf8_step bs = (True, n)" "valid_utf8 (drop n bs)"
      unfolding valid_utf8_unfold [OF False] by blast
    have "length (drop n bs) < length bs"
      using False utf8_step_pos [OF False n(1)] by simp
    with 1(1) n(2) have "lossy (drop n bs) = drop n bs" by blast
    with n(1) False show ?thesis by (simp add: lossy.simps [of bs])
  qed simp
qed

lemma lossy_Nil_iff [simp]: "lossy bs = [] \<longleftrightarrow> bs = []"
  by (subst lossy.simps)
    (auto simp: replacement_def dest: utf8_step_pos_snd)

text \<open>A well-formed first character is well-formed on its own.\<close>

lemma get_byte_take: "i < n \<Longrightarrow> get_byte (take n bs) i = get_byte bs i"
  by (simp add: get_byte_def)

lemma utf8_step_take:
  assumes "bs \<noteq> []" "utf8_step bs = (True, n)"
  shows "utf8_step (take n bs) = (True, n)"
proof (cases bs)
  case (Cons b cs)
  have "0 < n" using assms by (rule utf8_step_pos)
  then obtain k where k: "n = Suc k" by (cases n) auto
  from assms(2) show ?thesis
    unfolding Cons k take_Suc_Cons utf8_step_True
    by (auto simp: get_byte_take eval_nat_numeral)
qed (use assms in simp)

lemma valid_utf8_first:
  assumes "bs \<noteq> []" "utf8_step bs = (True, n)"
  shows "valid_utf8 (take n bs)"
proof -
  have "0 < n" using assms by (rule utf8_step_pos)
  then have "take n bs \<noteq> []" using assms(1) by auto
  then show ?thesis
    by (rule iffD2 [OF valid_utf8_unfold]) (simp add: utf8_step_take [OF assms])
qed

lemma valid_utf8_lossy: "valid_utf8 (lossy bs)"
proof (induction bs rule: lossy.induct)
  case (1 bs)
  then show ?case
    by (cases "utf8_step bs")
      (auto simp: lossy.simps [of bs]
        intro!: valid_utf8_append valid_utf8_replacement valid_utf8_first)
qed

text \<open>The strings of a Rust program hold well-formed UTF-8.\<close>

definition valid_str :: "string \<Rightarrow> bool" where
  "valid_str s \<longleftrightarrow> valid_utf8 (as_bytes s)"

definition from_utf8_lossy :: "u8 list \<Rightarrow> string" where
  "from_utf8_lossy bs = of_bytes (lossy bs)"

lemma from_utf8_lossy_as_bytes [simp]: "valid_str s \<Longrightarrow> from_utf8_lossy (as_bytes s) = s"
  by (simp add: from_utf8_lossy_def valid_str_def lossy_valid)

lemma valid_str_lossy [simp]: "valid_str (from_utf8_lossy bs)"
  by (simp add: valid_str_def from_utf8_lossy_def valid_utf8_lossy)

lemma from_utf8_lossy_Nil_iff [simp]: "from_utf8_lossy bs = [] \<longleftrightarrow> bs = []"
  by (simp add: from_utf8_lossy_def)

lemma valid_str_append: "valid_str s \<Longrightarrow> valid_str t \<Longrightarrow> valid_str (s @ t)"
  by (simp add: valid_str_def valid_utf8_append)

definition is_ascii :: "string \<Rightarrow> bool" where
  "is_ascii s \<longleftrightarrow> (\<forall>c \<in> set s. of_char c < (128 :: nat))"

lemma byte_of_ascii: "byte_of c < 128 \<longleftrightarrow> of_char c < (128 :: nat)"
  by (simp add: word_less_nat_alt unat_byte_of)

lemma valid_str_Nil [simp]: "valid_str []"
  by (simp add: valid_str_def)

lemma valid_str_ascii_Cons [simp]:
  "of_char c < (128 :: nat) \<Longrightarrow> valid_str (c # s) \<longleftrightarrow> valid_str s"
  by (simp add: valid_str_def byte_of_ascii)

lemma ascii_valid_str: "is_ascii s \<Longrightarrow> valid_str s"
  by (induction s) (auto simp: is_ascii_def)

lemma valid_head_boundary: "valid_str v \<Longrightarrow> v \<noteq> [] \<Longrightarrow> \<not> is_cont (byte_of (hd v))"
proof -
  assume "valid_str v" "v \<noteq> []"
  then obtain c r where v: "v = c # r" and "valid_utf8 (byte_of c # as_bytes r)"
    by (cases v) (auto simp: valid_str_def)
  then have "fst (utf8_step (byte_of c # as_bytes r))"
    by (subst (asm) valid_utf8.simps) (auto split: if_splits)
  then have "utf8_width (byte_of c) \<noteq> 0" by (auto split: if_splits)
  then show ?thesis
    by (auto simp: v utf8_width_def is_cont_def word_le_nat_alt word_less_nat_alt split: if_splits)
qed

text \<open>
  A text cut inside a character stays ill-formed, whatever follows, unless what follows goes on
  with the character.
\<close>

lemma second_cont: "second_ok b c \<Longrightarrow> is_cont c"
  by (auto simp: second_ok_def is_cont_def word_le_nat_alt split: if_splits)

lemma step_goes_on:
  assumes "t \<noteq> []" "utf8_step (t @ r) = (True, n)" "length t < n"
  shows "r \<noteq> [] \<and> is_cont (hd r)"
proof -
  obtain b ts where t: "t = b # ts" using assms(1) by (cases t) auto
  have "r \<noteq> []" using utf8_step_len [OF assms(2)] assms(3) by auto
  moreover have "get_byte (ts @ r) (length ts) = hd r"
    using \<open>r \<noteq> []\<close> by (simp add: get_byte_def nth_append hd_conv_nth)
  moreover have "is_cont (get_byte (ts @ r) (length ts))"
  proof -
    have "length ts < n - 1" using assms(3) t by simp
    then consider "length ts = 0" "2 \<le> n" | "length ts = 1" "3 \<le> n" | "length ts = 2" "4 \<le> n" | "5 \<le> n" by linarith
    then show ?thesis
      using assms(2) [unfolded t append_Cons utf8_step_True]
      by cases (auto dest: second_cont)
  qed
  ultimately show ?thesis by simp
qed

lemma step_prefix:
  assumes "utf8_step (t @ u) = (True, n)" "t \<noteq> []" "n \<le> length t"
  shows "utf8_step (t @ r) = (True, n)"
proof -
  have "t @ u \<noteq> []" using assms(2) by simp
  from utf8_step_take [OF this assms(1)] have s: "utf8_step (take n t) = (True, n)" using assms(3) by simp
  have "0 < n" using utf8_step_pos assms(1) \<open>t @ u \<noteq> []\<close> by blast
  then have "take n t \<noteq> []" using assms(2) by simp
  from utf8_step_append [OF this s, of "drop n t @ r"] show ?thesis by (metis append_assoc append_take_drop_id)
qed

lemma cut_char_invalid:
  "\<not> valid_utf8 t \<Longrightarrow> valid_utf8 (t @ u) \<Longrightarrow> r = [] \<or> \<not> is_cont (hd r) \<Longrightarrow> \<not> valid_utf8 (t @ r)"
proof (induction t rule: length_induct)
  case (1 t)
  then have ne: "t \<noteq> []" by auto
  from 1(3) obtain n where n: "utf8_step (t @ u) = (True, n)" "valid_utf8 (drop n (t @ u))"
    using valid_utf8_unfold [of "t @ u"] ne by blast
  show ?case
  proof (cases "n \<le> length t")
    case True
    have pos: "0 < n" using utf8_step_pos [OF _ n(1)] ne by simp
    from step_prefix [OF n(1) ne True, of "[]"] 1(2) have "\<not> valid_utf8 (drop n t)"
      using valid_utf8_unfold [OF ne] by auto
    moreover have "length (drop n t) < length t" using pos ne by simp
    ultimately have "\<not> valid_utf8 (drop n t @ r)" using 1(1,4) n(2) True by auto
    with step_prefix [OF n(1) ne True, of r] show ?thesis
      using valid_utf8_unfold [of "t @ r"] ne True by auto
  next
    case False
    show ?thesis
    proof
      assume "valid_utf8 (t @ r)"
      then obtain k where k: "utf8_step (t @ r) = (True, k)" using valid_utf8_unfold [of "t @ r"] ne by blast
      have "k = n" using n(1) k ne by (cases t) (simp, simp only: append_Cons utf8_step_True)
      with step_goes_on [OF ne k] False 1(4) show False by auto
    qed
  qed
qed

end
