(* ===== verification/Rust_Scan.thy ===== *)
theory Rust_Scan
  imports Rust_Text
begin

text \<open>
  Scanning and formatting of strings as the code uses them: \<open>trim\<close>, \<open>split\<close>,
  \<open>splitn(2, whitespace)\<close>, \<open>rsplitn(2, c)\<close>, \<open>split_whitespace\<close>, \<open>lines\<close>, \<open>str::parse\<close> for
  integers, \<open>Display\<close> of integers and padding. White space is Unicode's, given by the UTF-8
  bytes of its 25 characters; a lead byte only opens a character, so in a well-formed string
  such a byte sequence is that character.
\<close>

section \<open>White space\<close>

definition ws_tokens :: "string list" where
  "ws_tokens =
     [[CHR 0x09], [CHR 0x0A], [CHR 0x0B], [CHR 0x0C], [CHR 0x0D], [CHR 0x20],
      [CHR 0xC2, CHR 0x85], [CHR 0xC2, CHR 0xA0],
      [CHR 0xE1, CHR 0x9A, CHR 0x80],
      [CHR 0xE2, CHR 0x80, CHR 0x80], [CHR 0xE2, CHR 0x80, CHR 0x81],
      [CHR 0xE2, CHR 0x80, CHR 0x82], [CHR 0xE2, CHR 0x80, CHR 0x83],
      [CHR 0xE2, CHR 0x80, CHR 0x84], [CHR 0xE2, CHR 0x80, CHR 0x85],
      [CHR 0xE2, CHR 0x80, CHR 0x86], [CHR 0xE2, CHR 0x80, CHR 0x87],
      [CHR 0xE2, CHR 0x80, CHR 0x88], [CHR 0xE2, CHR 0x80, CHR 0x89],
      [CHR 0xE2, CHR 0x80, CHR 0x8A],
      [CHR 0xE2, CHR 0x80, CHR 0xA8], [CHR 0xE2, CHR 0x80, CHR 0xA9],
      [CHR 0xE2, CHR 0x80, CHR 0xAF], [CHR 0xE2, CHR 0x81, CHR 0x9F],
      [CHR 0xE3, CHR 0x80, CHR 0x80]]"

definition starts_with :: "string \<Rightarrow> string \<Rightarrow> bool" where
  "starts_with s t \<longleftrightarrow> take (length t) s = t"

definition match_tok :: "string list \<Rightarrow> string \<Rightarrow> string option" where
  "match_tok ts s = find (\<lambda>t. t \<noteq> [] \<and> starts_with s t) ts"

lemma match_tok_Some:
  assumes "match_tok ts s = Some t"
  shows "t \<in> set ts" "t \<noteq> []" "s = t @ drop (length t) s"
  using assms
  by (auto simp: match_tok_def find_Some_iff starts_with_def)
    (metis append_take_drop_id)

lemma match_tok_None:
  "match_tok ts s = None \<longleftrightarrow> (\<forall>t \<in> set ts. t \<noteq> [] \<longrightarrow> \<not> starts_with s t)"
  by (auto simp: match_tok_def find_None_iff)

lemma match_tok_shorter: "match_tok ts s = Some t \<Longrightarrow> length s - length t < length s"
  by (metis append_Nil diff_less length_greater_0_conv match_tok_Some(2,3) self_append_conv2
      Nil_is_append_conv)

function strip :: "string list \<Rightarrow> string \<Rightarrow> string" where
  "strip ts s = (case match_tok ts s of None \<Rightarrow> s | Some t \<Rightarrow> strip ts (drop (length t) s))"
  by pat_completeness auto
termination
  by (relation "measure (length \<circ> snd)") (auto dest: match_tok_shorter)

declare strip.simps [simp del]

definition trim_start :: "string \<Rightarrow> string" where
  "trim_start s = strip ws_tokens s"

definition trim_end :: "string \<Rightarrow> string" where
  "trim_end s = rev (strip (map rev ws_tokens) (rev s))"

definition trim :: "string \<Rightarrow> string" where
  "trim s = trim_end (trim_start s)"

lemma strip_id_iff: "strip ts s = s \<longleftrightarrow> match_tok ts s = None"
proof
  have shorter: "length (strip ts s) \<le> length s" for s
    by (induction ts s rule: strip.induct)
      (subst strip.simps, force split: option.splits)
  assume eq: "strip ts s = s"
  show "match_tok ts s = None"
  proof (rule ccontr)
    assume "match_tok ts s \<noteq> None"
    then obtain t where t: "match_tok ts s = Some t" by blast
    then have "strip ts s = strip ts (drop (length t) s)" by (subst strip.simps) simp
    then have "length (strip ts s) \<le> length s - length t"
      using shorter [of "drop (length t) s"] by simp
    with match_tok_shorter [OF t] eq show False by simp
  qed
qed (subst strip.simps, simp)

lemma strip_suffix: "\<exists>u. s = u @ strip ts s"
proof (induction ts s rule: strip.induct)
  case (1 ts s)
  show ?case
  proof (cases "match_tok ts s")
    case None
    then show ?thesis by (subst strip.simps) simp
  next
    case (Some t)
    then have step: "strip ts s = strip ts (drop (length t) s)" by (subst strip.simps) simp
    from 1 [OF Some] obtain u where "drop (length t) s = u @ strip ts s"
      unfolding step by blast
    then have "s = (t @ u) @ strip ts s"
      using match_tok_Some(3) [OF Some] by simp
    then show ?thesis by blast
  qed
qed

lemma strip_stuck: "match_tok ts (strip ts s) = None"
  by (induction ts s rule: strip.induct) (subst strip.simps, simp split: option.split)

text \<open>A character that no longer token has splits a text: each side is stripped by itself.\<close>

lemma match_tok_across:
  assumes "s \<noteq> []" "\<And>t. t \<in> set ts \<Longrightarrow> c \<in> set t \<Longrightarrow> t = [c]"
  shows "match_tok ts (s @ c # r) = match_tok ts s"
  unfolding match_tok_def
proof (rule find_cong)
  fix t
  assume t: "t \<in> set ts"
  have "starts_with (s @ c # r) t \<longleftrightarrow> starts_with s t"
  proof (cases "length t \<le> length s")
    case True
    then show ?thesis by (simp add: starts_with_def)
  next
    case False
    then have "t \<noteq> [c]" using assms(1) by (cases s) auto
    have "\<not> starts_with (s @ c # r) t"
    proof
      assume "starts_with (s @ c # r) t"
      with False have "t ! length s = c" by (metis not_le nth_append_length nth_take starts_with_def)
      with False have "c \<in> set t" by (metis not_le nth_mem)
      with assms(2) t \<open>t \<noteq> [c]\<close> show False by blast
    qed
    moreover have "\<not> starts_with s t" using False by (auto simp: starts_with_def dest: arg_cong [of _ _ length])
    ultimately show ?thesis by simp
  qed
  then show "(t \<noteq> [] \<and> starts_with (s @ c # r) t) = (t \<noteq> [] \<and> starts_with s t)" by simp
qed simp

lemma strip_token:
  assumes "match_tok ts s = None" "s \<noteq> []"
    and "\<And>t. t \<in> set ts \<Longrightarrow> c \<in> set t \<Longrightarrow> t = [c]"
  shows "strip ts (s @ c # r) = s @ c # r"
  using assms(1) match_tok_across [OF assms(2,3)] by (simp add: strip_id_iff)

lemma match_tok_single:
  assumes "[c] \<in> set ts"
  shows "match_tok ts (c # s) \<noteq> None"
proof -
  have "[c] \<noteq> [] \<and> starts_with (c # s) [c]" by (simp add: starts_with_def)
  with assms show ?thesis unfolding match_tok_None by blast
qed

lemma match_tok_head:
  assumes "match_tok ts (c # s) = Some t"
  shows "t \<in> set ts" "hd t = c" "c \<in> set t"
proof -
  from match_tok_Some(2) [OF assms] obtain d u where t: "t = d # u" by (cases t) auto
  have "starts_with (c # s) t"
    using assms by (auto simp: match_tok_def find_Some_iff)
  with t show "hd t = c" "c \<in> set t" by (simp_all add: starts_with_def)
  show "t \<in> set ts" by (rule match_tok_Some(1) [OF assms])
qed

lemma strip_skip:
  assumes "[c] \<in> set ts" "\<And>t. t \<in> set ts \<Longrightarrow> hd t = c \<Longrightarrow> t = [c]"
  shows "strip ts (c # s) = strip ts s"
proof -
  from match_tok_single [OF assms(1)] obtain t where t: "match_tok ts (c # s) = Some t" by blast
  have "t = [c]" using match_tok_head [OF t] assms(2) by blast
  with t have "match_tok ts (c # s) = Some [c]" by simp
  then show ?thesis by (simp add: strip.simps [of ts "c # s"])
qed

lemma strip_none: "match_tok ts s = None \<Longrightarrow> strip ts s = s"
  by (simp add: strip_id_iff)

lemma strip_some: "match_tok ts s = Some t \<Longrightarrow> strip ts s = strip ts (drop (length t) s)"
  by (subst strip.simps) simp

lemma strip_across:
  assumes "[c] \<in> set ts" "\<And>t. t \<in> set ts \<Longrightarrow> c \<in> set t \<Longrightarrow> t = [c]"
    and "\<And>t. t \<in> set ts \<Longrightarrow> hd t = c \<Longrightarrow> t = [c]"
  shows "strip ts (s @ c # r) = (if strip ts s = [] then strip ts r else strip ts s @ c # r)"
  using assms
proof (induction ts s rule: strip.induct)
  case (1 ts s)
  show ?case
  proof (cases "s = []")
    case True
    have "match_tok ts [] = None" by (simp add: match_tok_None starts_with_def)
    then have "strip ts [] = []" by (rule strip_none)
    with True strip_skip [OF 1(2,4), of r] show ?thesis by simp
  next
    case False
    note across = match_tok_across [OF False 1(3), where r = r]
    show ?thesis
    proof (cases "match_tok ts s")
      case None
      with False across show ?thesis by (simp add: strip_none)
    next
      case (Some t)
      have "take (length t) s = t"
        using Some by (auto simp: match_tok_def find_Some_iff starts_with_def)
      then have "length t \<le> length s" by (metis length_take min.cobounded1)
      moreover have "strip ts (s @ c # r) = strip ts (drop (length t) (s @ c # r))"
        using across Some by (intro strip_some) simp
      ultimately have "strip ts (s @ c # r) = strip ts (drop (length t) s @ c # r)" by simp
      also have "\<dots> = (if strip ts (drop (length t) s) = [] then strip ts r else strip ts (drop (length t) s) @ c # r)"
        by (rule 1(1) [OF Some 1(2-4)])
      finally show ?thesis by (simp only: strip_some [OF Some])
    qed
  qed
qed

lemma match_tok_take: "match_tok ts s = None \<Longrightarrow> match_tok ts (take n s) = None"
proof -
  have "starts_with s t" if sw: "starts_with (take n s) t" for t
  proof -
    have "length t \<le> n" using sw by (metis length_take min.cobounded2 min.cobounded1 starts_with_def order.trans)
    with sw show ?thesis by (simp add: starts_with_def min_absorb1)
  qed
  then show "match_tok ts s = None \<Longrightarrow> match_tok ts (take n s) = None"
    by (auto simp: match_tok_None)
qed

lemma tab_tokens_all:
  "\<forall>t \<in> set ws_tokens. (CHR 0x09 \<in> set t \<longrightarrow> t = [CHR 0x09]) \<and> (hd t = CHR 0x09 \<longrightarrow> t = [CHR 0x09])"
  "\<forall>t \<in> set (map rev ws_tokens).
     (CHR 0x09 \<in> set t \<longrightarrow> t = [CHR 0x09]) \<and> (hd t = CHR 0x09 \<longrightarrow> t = [CHR 0x09])"
  by code_simp+

lemma tab_tokens:
  "[CHR 0x09] \<in> set ws_tokens" "t \<in> set ws_tokens \<Longrightarrow> CHR 0x09 \<in> set t \<Longrightarrow> t = [CHR 0x09]"
  "t \<in> set ws_tokens \<Longrightarrow> hd t = CHR 0x09 \<Longrightarrow> t = [CHR 0x09]"
  using tab_tokens_all(1) by (blast | simp add: ws_tokens_def)+

lemma tab_rev_tokens:
  "[CHR 0x09] \<in> set (map rev ws_tokens)"
  "t \<in> set (map rev ws_tokens) \<Longrightarrow> CHR 0x09 \<in> set t \<Longrightarrow> t = [CHR 0x09]"
  "t \<in> set (map rev ws_tokens) \<Longrightarrow> hd t = CHR 0x09 \<Longrightarrow> t = [CHR 0x09]"
  using tab_tokens_all(2) by (blast | simp add: ws_tokens_def)+

lemma strip_Nil [simp]: "strip ts [] = []"
  by (simp add: strip_id_iff match_tok_None starts_with_def)

text \<open>
  Trimming a string that opens with a trimmed non-empty part, and closes with one, before a
  final tab: only the tab goes.
\<close>

lemma trim_start_tab:
  assumes "trim_start s = s" "s \<noteq> []"
  shows "trim_start (s @ CHR 0x09 # r) = s @ CHR 0x09 # r"
  unfolding trim_start_def
  by (rule strip_token [OF _ assms(2) tab_tokens(2)])
    (use assms(1) in \<open>simp_all only: trim_start_def strip_id_iff\<close>)

lemma trim_end_tab:
  assumes "trim_end s = s" "s \<noteq> []"
  shows "trim_end (r @ CHR 0x09 # s @ [CHR 0x09]) = r @ CHR 0x09 # s"
proof -
  have "strip (map rev ws_tokens) (rev s) = rev s"
    using assms(1) by (metis rev_rev_ident trim_end_def)
  then have "match_tok (map rev ws_tokens) (rev s) = None" by (simp only: strip_id_iff)
  then have "strip (map rev ws_tokens) (rev s @ CHR 0x09 # rev r) = rev s @ CHR 0x09 # rev r"
    by (rule strip_token [OF _ _ tab_rev_tokens(2)]) (use assms(2) in simp_all)
  then show ?thesis
    using strip_skip [OF tab_rev_tokens(1,3)] by (simp add: trim_end_def)
qed

lemma trim_end_snoc_tab: "trim_end (s @ [CHR 0x09]) = trim_end s"
  using strip_skip [OF tab_rev_tokens(1,3)] by (simp add: trim_end_def)

lemma trim_Nil [simp]: "trim_start [] = []" "trim_end [] = []" "trim [] = []"
  by (simp_all add: trim_def trim_start_def trim_end_def)

section \<open>Splitting\<close>

text \<open>\<open>s.split(c)\<close>: always at least one part.\<close>

fun split_on :: "char \<Rightarrow> string \<Rightarrow> string list" where
  "split_on c [] = [[]]"
| "split_on c (x # xs) =
     (if x = c then [] # split_on c xs
      else (x # hd (split_on c xs)) # tl (split_on c xs))"

lemma split_on_ne [simp]: "split_on c s \<noteq> []"
  by (cases s) auto

lemma split_on_none: "c \<notin> set s \<Longrightarrow> split_on c s = [s]"
  by (induction s) auto

lemma split_on_sep: "c \<notin> set s \<Longrightarrow> split_on c (s @ c # r) = s # split_on c r"
  by (induction s) auto

lemma takeWhile_sep: "c \<notin> set l \<Longrightarrow> takeWhile (\<lambda>x. x \<noteq> c) (l @ c # r) = l"
  by (induction l) auto

lemma dropWhile_sep: "c \<notin> set l \<Longrightarrow> dropWhile (\<lambda>x. x \<noteq> c) (l @ c # r) = c # r"
  by (induction l) auto

text \<open>\<open>s.lines()\<close> and \<open>BufRead::lines\<close>: without the line terminators.\<close>

definition LF :: char where "LF = CHR 0x0A"
definition TAB :: char where "TAB = CHR 0x09"

definition strip_cr :: "string \<Rightarrow> string" where
  "strip_cr s = (if s \<noteq> [] \<and> last s = CHR 0x0D then butlast s else s)"

function lines_of :: "string \<Rightarrow> string list" where
  "lines_of s =
     (if s = [] then []
      else case dropWhile (\<lambda>c. c \<noteq> LF) s of
             [] \<Rightarrow> [s]
           | _ # rest \<Rightarrow> strip_cr (takeWhile (\<lambda>c. c \<noteq> LF) s) # lines_of rest)"
  by pat_completeness auto
termination
proof (relation "measure length", simp)
  fix s :: string and c rest
  assume "dropWhile (\<lambda>c. c \<noteq> LF) s = c # rest"
  then have "length (c # rest) \<le> length s" by (metis length_dropWhile_le)
  then show "(rest, s) \<in> measure length" by simp
qed

declare lines_of.simps [simp del]

lemma lines_of_Nil [simp]: "lines_of [] = []"
  by (simp add: lines_of.simps)

lemma lines_of_line:
  assumes "LF \<notin> set l"
  shows "lines_of (l @ LF # r) = strip_cr l # lines_of r"
proof -
  show ?thesis
    using assms by (simp add: lines_of.simps [of "l @ LF # r"] dropWhile_sep takeWhile_sep)
qed

lemma trimmed_last:
  assumes "trim_end s = s" "s \<noteq> []"
  shows "last s \<noteq> CHR 0x0D"
proof
  assume "last s = CHR 0x0D"
  with assms(2) have "rev s = CHR 0x0D # rev (butlast s)"
    by (metis append_butlast_last_id rev.simps(2) rev_rev_ident rev_swap)
  moreover have "[CHR 0x0D] \<in> set (map rev ws_tokens)" by code_simp
  ultimately have "match_tok (map rev ws_tokens) (rev s) \<noteq> None" by (metis match_tok_single)
  moreover have "strip (map rev ws_tokens) (rev s) = rev s"
    using assms(1) by (metis rev_rev_ident trim_end_def)
  ultimately show False by (simp only: strip_id_iff)
qed

text \<open>Up to the first white space character, and the rest from there.\<close>

fun until_ws :: "string \<Rightarrow> string \<times> string" where
  "until_ws [] = ([], [])"
| "until_ws (c # s) =
     (if match_tok ws_tokens (c # s) \<noteq> None then ([], c # s)
      else (c # fst (until_ws s), snd (until_ws s)))"

lemma length_until_ws: "length (snd (until_ws s)) \<le> length s"
  by (induction s rule: until_ws.induct) auto

lemma length_strip: "length (strip ts s) \<le> length s"
  by (induction ts s rule: strip.induct) (subst strip.simps, force split: option.splits)

text \<open>\<open>s.splitn(2, char::is_whitespace)\<close>: the first part, and the second if there is one.\<close>

definition splitn2_ws :: "string \<Rightarrow> string \<times> string option" where
  "splitn2_ws s =
     (fst (until_ws s),
      map_option (\<lambda>t. drop (length t) (snd (until_ws s))) (match_tok ws_tokens (snd (until_ws s))))"

text \<open>\<open>s.split_whitespace()\<close>.\<close>

function split_whitespace :: "string \<Rightarrow> string list" where
  "split_whitespace s =
     (if trim_start s = [] then []
      else fst (until_ws (trim_start s)) # split_whitespace (snd (until_ws (trim_start s))))"
  by pat_completeness auto
termination
proof (relation "measure length", simp)
  fix s
  assume ne: "trim_start s \<noteq> []"
  then obtain c r where cr: "trim_start s = c # r" by (cases "trim_start s") auto
  have "match_tok ws_tokens (c # r) = None"
    using strip_stuck [of ws_tokens s] cr by (simp add: trim_start_def)
  then have "length (snd (until_ws (trim_start s))) < length (trim_start s)"
    using length_until_ws [of r] by (simp add: cr)
  also have "\<dots> \<le> length s" by (simp add: trim_start_def length_strip)
  finally show "(snd (until_ws (trim_start s)), s) \<in> measure length" by simp
qed

declare split_whitespace.simps [simp del]

text \<open>\<open>s.rsplitn(2, c)\<close> when it gives two parts: what precedes the last \<open>c\<close>, what follows.\<close>

definition rsplit2 :: "char \<Rightarrow> string \<Rightarrow> (string \<times> string) option" where
  "rsplit2 c s =
     (case dropWhile (\<lambda>x. x \<noteq> c) (rev s) of
        [] \<Rightarrow> None
      | _ # before \<Rightarrow> Some (rev before, rev (takeWhile (\<lambda>x. x \<noteq> c) (rev s))))"

lemma rsplit2_sep: "c \<notin> set t \<Longrightarrow> rsplit2 c (s @ c # t) = Some (s, t)"
  by (simp add: rsplit2_def dropWhile_sep takeWhile_sep)

fun contains_str :: "string \<Rightarrow> string \<Rightarrow> bool" where
  "contains_str [] p = (p = [])"
| "contains_str (c # s) p = (starts_with (c # s) p \<or> contains_str s p)"

text \<open>The equations that evaluate the scanners on a given string.\<close>

lemmas scan_eval =
  trim_def trim_start_def trim_end_def strip.simps match_tok_def ws_tokens_def starts_with_def

end
