(* ===== verification/Rust_Num.thy ===== *)
theory Rust_Num
  imports Rust_Scan
begin

text \<open>
  Decimal integers in text: \<open>str::parse\<close> with its errors in the order the standard library
  finds them, \<open>Display\<close>, the paddings \<open>{:>w}\<close>, \<open>{:<w}\<close> and \<open>{:0w$x}\<close>, and big-endian
  bytes of a \<open>u32\<close>.
\<close>

section \<open>Parsing\<close>

datatype parse_error = EmptyInput | InvalidDigit | PosOverflow | NegOverflow

text \<open>The \<open>Display\<close> of \<open>ParseIntError\<close>.\<close>

fun show_parse_error :: "parse_error \<Rightarrow> string" where
  "show_parse_error EmptyInput = ''cannot parse integer from empty string''"
| "show_parse_error InvalidDigit = ''invalid digit found in string''"
| "show_parse_error PosOverflow = ''number too large to fit in target type''"
| "show_parse_error NegOverflow = ''number too small to fit in target type''"

definition is_digit :: "char \<Rightarrow> bool" where
  "is_digit c \<longleftrightarrow> 48 \<le> (of_char c :: nat) \<and> (of_char c :: nat) \<le> 57"

definition digit_val :: "char \<Rightarrow> nat" where
  "digit_val c = of_char c - 48"

definition digit_char :: "nat \<Rightarrow> char" where
  "digit_char d = char_of (48 + d)"

text \<open>The checked loop: each digit multiplies and adds; the first failing step decides.\<close>

fun parse_digits :: "nat \<Rightarrow> nat \<Rightarrow> string \<Rightarrow> parse_error + nat" where
  "parse_digits maxv acc [] = Inr acc"
| "parse_digits maxv acc (c # cs) =
     (if \<not> is_digit c then Inl InvalidDigit
      else if maxv < 10 * acc + digit_val c then Inl PosOverflow
      else parse_digits maxv (10 * acc + digit_val c) cs)"

definition parse_uint :: "nat \<Rightarrow> string \<Rightarrow> parse_error + nat" where
  "parse_uint maxv s =
     (case s of
        [] \<Rightarrow> Inl EmptyInput
      | c # r \<Rightarrow>
          if r = [] \<and> (c = CHR ''+'' \<or> c = CHR ''-'') then Inl InvalidDigit
          else parse_digits maxv 0 (if c = CHR ''+'' then r else s))"

definition parse_i32 :: "string \<Rightarrow> parse_error + int" where
  "parse_i32 s =
     (case s of
        c # r \<Rightarrow>
          if c = CHR ''-'' \<and> r \<noteq> [] then
            (case parse_digits (2 ^ 31) 0 r of
               Inl PosOverflow \<Rightarrow> Inl NegOverflow
             | Inl e \<Rightarrow> Inl e
             | Inr n \<Rightarrow> Inr (- int n))
          else map_sum id int (parse_uint (2 ^ 31 - 1) s)
      | [] \<Rightarrow> Inl EmptyInput)"

definition u16_max :: nat where "u16_max = 2 ^ 16 - 1"
definition u32_max :: nat where "u32_max = 2 ^ 32 - 1"
definition u64_max :: nat where "u64_max = 2 ^ 64 - 1"

lemma parse_digits_bound: "parse_digits maxv acc s = Inr n \<Longrightarrow> acc \<le> maxv \<Longrightarrow> n \<le> maxv"
  by (induction maxv acc s rule: parse_digits.induct) (auto split: if_splits)

lemma parse_uint_bound: "parse_uint maxv s = Inr n \<Longrightarrow> n \<le> maxv"
  by (auto simp: parse_uint_def split: list.splits if_splits dest!: parse_digits_bound)

section \<open>Formatting\<close>

fun show_nat :: "nat \<Rightarrow> string" where
  "show_nat n = (if n < 10 then [digit_char n] else show_nat (n div 10) @ [digit_char (n mod 10)])"

declare show_nat.simps [simp del]

definition pad_left :: "nat \<Rightarrow> string \<Rightarrow> string" where
  "pad_left w s = replicate (w - length s) CHR '' '' @ s"

definition pad_right :: "nat \<Rightarrow> string \<Rightarrow> string" where
  "pad_right w s = s @ replicate (w - length s) CHR '' ''"

definition hex_char :: "nat \<Rightarrow> char" where
  "hex_char d = (if d < 10 then char_of (48 + d) else char_of (87 + d))"

fun show_hex :: "nat \<Rightarrow> string" where
  "show_hex n = (if n < 16 then [hex_char n] else show_hex (n div 16) @ [hex_char (n mod 16)])"

declare show_hex.simps [simp del]

definition pad_zero :: "nat \<Rightarrow> string \<Rightarrow> string" where
  "pad_zero w s = replicate (w - length s) CHR ''0'' @ s"

lemma digit_char_code: "d < 10 \<Longrightarrow> (of_char (digit_char d) :: nat) = 48 + d"
  by (simp add: digit_char_def)

lemma digit_char_simps [simp]:
  "d < 10 \<Longrightarrow> is_digit (digit_char d)"
  "d < 10 \<Longrightarrow> digit_val (digit_char d) = d"
  by (simp_all add: is_digit_def digit_val_def digit_char_code)

lemma parse_digits_append:
  "parse_digits maxv acc s = Inr m \<Longrightarrow> parse_digits maxv acc (s @ t) = parse_digits maxv m t"
  by (induction maxv acc s rule: parse_digits.induct) (auto split: if_splits)

lemma parse_digits_show: "n \<le> maxv \<Longrightarrow> parse_digits maxv 0 (show_nat n) = Inr n"
proof (induction n rule: show_nat.induct)
  case (1 n)
  show ?case
  proof (cases "n < 10")
    case False
    have "n div 10 \<le> maxv" using "1.prems" by (meson div_le_dividend le_trans)
    with 1 False have "parse_digits maxv 0 (show_nat (n div 10)) = Inr (n div 10)" by blast
    then show ?thesis
      using False "1.prems"
      by (simp add: show_nat.simps [of n] parse_digits_append)
  qed (use "1.prems" in \<open>simp add: show_nat.simps [of n]\<close>)
qed

lemma show_nat_ne [simp]: "show_nat n \<noteq> []"
  by (subst show_nat.simps) simp

lemma show_nat_digits: "list_all is_digit (show_nat n)"
proof (induction n rule: show_nat.induct)
  case (1 n)
  then show ?case by (subst show_nat.simps) simp
qed

lemma is_digit_not:
  "\<not> is_digit CHR ''+''" "\<not> is_digit CHR ''-''" "\<not> is_digit CHR '':''" "\<not> is_digit CHR '' ''"
  by (simp_all add: is_digit_def)

lemma show_nat_notin: "\<not> is_digit c \<Longrightarrow> c \<notin> set (show_nat n)"
  using show_nat_digits [of n] by (auto simp: list_all_iff)

lemma parse_show_nat: "n \<le> maxv \<Longrightarrow> parse_uint maxv (show_nat n) = Inr n"
proof -
  assume n: "n \<le> maxv"
  obtain c r where cr: "show_nat n = c # r" by (cases "show_nat n") auto
  then have "is_digit c" using show_nat_digits [of n] by simp
  then have "c \<noteq> CHR ''+''" "c \<noteq> CHR ''-''" using is_digit_not by blast+
  with parse_digits_show [OF n] show ?thesis by (simp add: parse_uint_def cr)
qed

text \<open>How many digits a number has.\<close>

lemma length_show_nat: "n < 10 ^ k \<Longrightarrow> 0 < k \<Longrightarrow> length (show_nat n) \<le> k"
proof (induction k arbitrary: n)
  case (Suc k)
  show ?case
  proof (cases "n < 10")
    case False
    then have "0 < k" using Suc.prems(1) by (cases k) auto
    moreover have "n div 10 < 10 ^ k" using Suc.prems(1) by (simp add: less_mult_imp_div_less mult.commute)
    ultimately have "length (show_nat (n div 10)) \<le> k" by (rule Suc.IH [rotated])
    with False show ?thesis by (subst show_nat.simps) simp
  qed (subst show_nat.simps, simp)
qed simp

lemma length_show_u64: "n \<le> u64_max \<Longrightarrow> length (show_nat n) \<le> 20"
  by (rule length_show_nat) (simp_all add: u64_max_def)

text \<open>Digits are ASCII, and none of them is white space.\<close>

lemma is_digit_ascii: "is_digit c \<Longrightarrow> of_char c < (128 :: nat)"
  by (simp add: is_digit_def)

lemma show_nat_ascii: "is_ascii (show_nat n)"
  using show_nat_digits [of n] by (auto simp: is_ascii_def list_all_iff is_digit_ascii)

lemma ws_tokens_no_digit:
  "t \<in> set ws_tokens \<Longrightarrow> \<not> is_digit (hd t) \<and> \<not> is_digit (last t) \<and> t \<noteq> []"
proof -
  have "\<forall>t \<in> set ws_tokens. \<not> is_digit (hd t) \<and> \<not> is_digit (last t) \<and> t \<noteq> []"
    by code_simp
  then show "t \<in> set ws_tokens \<Longrightarrow> ?thesis" by blast
qed

lemma strip_nonws:
  assumes "\<And>t. t \<in> set ts \<Longrightarrow> t \<noteq> [] \<and> hd t \<noteq> c"
  shows "strip ts (c # s) = c # s"
proof -
  have "\<not> starts_with (c # s) t" if "t \<in> set ts" for t
    using assms [OF that] by (cases t) (auto simp: starts_with_def)
  then show ?thesis by (simp add: strip_id_iff match_tok_None)
qed

lemma strip_spaces: "strip ws_tokens (replicate n CHR '' '' @ s) = strip ws_tokens s"
proof (induction n)
  case (Suc n)
  have "\<forall>t \<in> set ws_tokens. hd t = CHR '' '' \<longrightarrow> t = [CHR '' '']" by code_simp
  then have "strip ws_tokens (CHR '' '' # replicate n CHR '' '' @ s)
      = strip ws_tokens (replicate n CHR '' '' @ s)"
    by (intro strip_skip) (auto simp: ws_tokens_def)
  with Suc show ?case by simp
qed simp

lemma strip_rev_spaces:
  "strip (map rev ws_tokens) (replicate n CHR '' '' @ s) = strip (map rev ws_tokens) s"
proof (induction n)
  case (Suc n)
  have "\<forall>t \<in> set (map rev ws_tokens). hd t = CHR '' '' \<longrightarrow> t = [CHR '' '']" by code_simp
  then have "strip (map rev ws_tokens) (CHR '' '' # replicate n CHR '' '' @ s)
      = strip (map rev ws_tokens) (replicate n CHR '' '' @ s)"
    by (intro strip_skip) (auto simp: ws_tokens_def)
  with Suc show ?case by simp
qed simp

text \<open>Trimming undoes the padding of a number.\<close>

lemma digits_trimmed:
  assumes "list_all is_digit s" "s \<noteq> []"
  shows "strip ws_tokens s = s" "strip (map rev ws_tokens) (rev s) = rev s"
proof -
  obtain c r where s: "s = c # r" using assms(2) by (cases s) auto
  have "t \<noteq> [] \<and> hd t \<noteq> c" if "t \<in> set ws_tokens" for t
    using ws_tokens_no_digit [OF that] assms(1) s by auto
  then show "strip ws_tokens s = s" unfolding s by (rule strip_nonws)
  obtain d q where r: "rev s = d # q" using assms(2) by (cases "rev s") auto
  then have d: "is_digit d" using assms(1) by (metis list_all_iff list.set_intros(1) set_rev)
  have "t \<noteq> [] \<and> hd t \<noteq> d" if "t \<in> set (map rev ws_tokens)" for t
  proof -
    from that obtain u where u: "u \<in> set ws_tokens" "t = rev u" by auto
    from ws_tokens_no_digit [OF u(1)] d u(2) show ?thesis by (auto simp: hd_rev)
  qed
  then show "strip (map rev ws_tokens) (rev s) = rev s" unfolding r by (rule strip_nonws)
qed

lemma trim_pad_left: "trim (pad_left w (show_nat n)) = show_nat n"
  using digits_trimmed [OF show_nat_digits show_nat_ne, of n]
  by (simp add: trim_def trim_start_def trim_end_def pad_left_def strip_spaces)

lemma trim_pad_right: "trim (pad_right w (show_nat n)) = show_nat n"
proof -
  obtain c r where cr: "show_nat n = c # r" by (cases "show_nat n") auto
  have "is_digit c" using show_nat_digits [of n] by (simp add: cr)
  then have "t \<noteq> [] \<and> hd t \<noteq> c" if "t \<in> set ws_tokens" for t
    using ws_tokens_no_digit [OF that] by auto
  then have "strip ws_tokens (pad_right w (show_nat n)) = pad_right w (show_nat n)"
    unfolding pad_right_def cr append_Cons by (rule strip_nonws)
  with digits_trimmed(2) [OF show_nat_digits show_nat_ne, of n] show ?thesis
    by (simp add: trim_def trim_start_def trim_end_def pad_right_def strip_rev_spaces)
qed

lemma pad_ascii: "is_ascii s \<Longrightarrow> is_ascii (pad_left w s)" "is_ascii s \<Longrightarrow> is_ascii (pad_right w s)"
  by (auto simp: is_ascii_def pad_left_def pad_right_def)

section \<open>Big-endian bytes\<close>

text \<open>\<open>u32::to_be_bytes\<close> and \<open>u32::from_be_bytes\<close>, on the number the word stands for.\<close>

definition to_be_bytes :: "u32 \<Rightarrow> u8 list" where
  "to_be_bytes w =
     [ucast (drop_bit 24 w), ucast (drop_bit 16 w), ucast (drop_bit 8 w), ucast w]"

definition from_be_bytes :: "u8 \<Rightarrow> u8 \<Rightarrow> u8 \<Rightarrow> u8 \<Rightarrow> u32" where
  "from_be_bytes a b c d =
     push_bit 24 (ucast a) + push_bit 16 (ucast b) + push_bit 8 (ucast c) + ucast d"

lemma length_to_be_bytes [simp]: "length (to_be_bytes w) = 4"
  by (simp add: to_be_bytes_def)

lemma unat_u8: "unat (b :: u8) < 256"
  using unsigned_less [of b] by simp

lemma unat_u32: "unat (w :: u32) < 2 ^ 32"
  using unsigned_less [of w] by simp

lemma unat_from_be_bytes:
  "unat (from_be_bytes a b c d) = ((unat a * 256 + unat b) * 256 + unat c) * 256 + unat d"
proof -
  have "from_be_bytes a b c d
      = of_nat (((unat a * 256 + unat b) * 256 + unat c) * 256 + unat d)"
    by (simp add: from_be_bytes_def push_bit_eq_mult algebra_simps)
  moreover have "((unat a * 256 + unat b) * 256 + unat c) * 256 + unat d < 2 ^ LENGTH(32)"
    using unat_u8 [of a] unat_u8 [of b] unat_u8 [of c] unat_u8 [of d] by simp
  ultimately show ?thesis by (simp only: unat_of_nat mod_less)
qed

lemma unat_byte_of_word:
  "unat (ucast (drop_bit k w :: u32) :: u8) = unat w div 2 ^ k mod 256"
  by (simp add: unsigned_ucast_eq unat_drop_bit_eq take_bit_eq_mod)
    (simp add: drop_bit_eq_div)

lemma base256_digits:
  assumes "n < 2 ^ 32"
  shows "((n div 2 ^ 24 mod 256 * 256 + n div 2 ^ 16 mod 256) * 256 + n div 2 ^ 8 mod 256) * 256
     + n mod 256 = (n :: nat)"
proof -
  have "n = n div 256 * 256 + n mod 256" by simp
  moreover have "n div 256 = n div 65536 * 256 + n div 256 mod 256"
    using div_mult2_eq [of n 256 256] div_mult_mod_eq [of "n div 256" 256] by simp
  moreover have "n div 65536 = n div 16777216 * 256 + n div 65536 mod 256"
    using div_mult2_eq [of n 65536 256] div_mult_mod_eq [of "n div 65536" 256] by simp
  moreover have "n div 16777216 mod 256 = n div 16777216" using assms by simp
  ultimately show ?thesis by simp
qed

lemma be_bytes_round:
  "from_be_bytes (ucast (drop_bit 24 w)) (ucast (drop_bit 16 w)) (ucast (drop_bit 8 w)) (ucast w) = w"
proof -
  have d: "unat (ucast w :: u8) = unat w mod 256"
    using unat_byte_of_word [of 0 w] by simp
  have "unat (from_be_bytes (ucast (drop_bit 24 w)) (ucast (drop_bit 16 w)) (ucast (drop_bit 8 w)) (ucast w))
      = unat w"
    using base256_digits [OF unat_u32 [of w]] by (simp only: unat_from_be_bytes unat_byte_of_word d)
  then show ?thesis by (simp only: word_unat_eq_iff)
qed

end
