(* ===== verification/Zht_Common.thy ===== *)
theory Zht_Common
  imports Rust_Num
begin

text \<open>
  Crate \<open>zht-common\<close>: the operation and return codes (\<open>constants.rs\<close>), the error type
  (\<open>error.rs\<close>), \<open>HostEntity\<close> (\<open>host_entity.rs\<close>), \<open>HashUtil\<close> (\<open>hash_util.rs\<close>), \<open>IdHelper\<close>
  (\<open>id_helper.rs\<close>) and \<open>ConfEntry\<close> (\<open>conf_entry.rs\<close>). Random strings come from the seed the
  code reads off the clock, which is an argument here.
\<close>

section \<open>Constants\<close>

definition OPC_LOOKUP :: string where "OPC_LOOKUP = ''001''"
definition OPC_REMOVE :: string where "OPC_REMOVE = ''002''"
definition OPC_INSERT :: string where "OPC_INSERT = ''003''"
definition OPC_APPEND :: string where "OPC_APPEND = ''004''"
definition OPC_CMPSWP :: string where "OPC_CMPSWP = ''005''"
definition OPC_STCHGCB :: string where "OPC_STCHGCB = ''006''"

lemmas opcode_defs =
  OPC_LOOKUP_def OPC_REMOVE_def OPC_INSERT_def OPC_APPEND_def OPC_CMPSWP_def OPC_STCHGCB_def

lemma opcodes_distinct [simp]:
  "OPC_INSERT \<noteq> OPC_LOOKUP" "OPC_REMOVE \<noteq> OPC_LOOKUP" "OPC_REMOVE \<noteq> OPC_INSERT"
  "OPC_APPEND \<noteq> OPC_LOOKUP" "OPC_APPEND \<noteq> OPC_INSERT" "OPC_APPEND \<noteq> OPC_REMOVE"
  "OPC_CMPSWP \<noteq> OPC_LOOKUP" "OPC_CMPSWP \<noteq> OPC_INSERT" "OPC_CMPSWP \<noteq> OPC_REMOVE"
  "OPC_CMPSWP \<noteq> OPC_APPEND" "OPC_LOOKUP \<noteq> OPC_STCHGCB" "OPC_INSERT \<noteq> OPC_STCHGCB"
  "OPC_REMOVE \<noteq> OPC_STCHGCB" "OPC_APPEND \<noteq> OPC_STCHGCB" "OPC_CMPSWP \<noteq> OPC_STCHGCB"
  by (simp_all add: opcode_defs)

definition REC_SUCC :: string where "REC_SUCC = ''000''"
definition REC_EMPTYKEY :: string where "REC_EMPTYKEY = ''-01''"
definition REC_CLTFAIL :: string where "REC_CLTFAIL = ''-02''"
definition REC_SRVFAIL :: string where "REC_SRVFAIL = ''-03''"
definition REC_SCCBPOLLTRY :: string where "REC_SCCBPOLLTRY = ''-04''"
definition REC_NONEXISTKEY :: string where "REC_NONEXISTKEY = ''-92''"
definition REC_UOPC :: string where "REC_UOPC = ''-98''"

lemmas status_defs =
  REC_SUCC_def REC_EMPTYKEY_def REC_CLTFAIL_def REC_SRVFAIL_def REC_SCCBPOLLTRY_def
  REC_NONEXISTKEY_def REC_UOPC_def

definition PROTO_VAL_TCP :: string where "PROTO_VAL_TCP = ''TCP''"
definition PROTO_VAL_UDP :: string where "PROTO_VAL_UDP = ''UDP''"
definition PROTO_VAL_MPI :: string where "PROTO_VAL_MPI = ''MPI''"

definition MSG_DEFAULT_SIZE :: nat where "MSG_DEFAULT_SIZE = 1024"
definition SCCB_POLL_DEFAULT_INTERVAL :: nat where "SCCB_POLL_DEFAULT_INTERVAL = 100"

definition CONF_PROTOCOL :: string where "CONF_PROTOCOL = ''PROTOCOL''"
definition CONF_PORT :: string where "CONF_PORT = ''PORT''"
definition CONF_MSG_MAXSIZE :: string where "CONF_MSG_MAXSIZE = ''MSG_MAXSIZE''"
definition CONF_SCCB_POLL_INTERVAL :: string where "CONF_SCCB_POLL_INTERVAL = ''SCCB_POLL_INTERVAL''"
definition CONF_INSTANT_SWAP :: string where "CONF_INSTANT_SWAP = ''INSTANT_SWAP''"
definition CONF_MAX_ZHT :: string where "CONF_MAX_ZHT = ''MAX_ZHT''"
definition CONF_NUM_REPLICAS :: string where "CONF_NUM_REPLICAS = ''NUM_REPLICAS''"
definition CONF_REPLICATION_TYPE :: string where "CONF_REPLICATION_TYPE = ''REPLICATION_TYPE''"
definition CONF_ZHT_CAPACITY :: string where "CONF_ZHT_CAPACITY = ''ZHT_CAPACITY''"
definition CONF_HTDATA_PATH :: string where "CONF_HTDATA_PATH = ''HTDATA_PATH''"
definition CONF_MIGSLP_TIME :: string where "CONF_MIGSLP_TIME = ''MIGSLP_TIME''"

section \<open>Errors\<close>

datatype zht_error =
    ConfigNotFound string
  | ConfigParseError string string
  | MissingConfigParam string
  | InvalidConfigValue string string
  | ConnectionFailed string u16 string
  | SendFailed string
  | RecvFailed string
  | UnsupportedProtocol string
  | EmptyKey
  | KeyNotFound string
  | CasMismatch string string
  | LeaseExpired nat
  | NoDestinationNode string
  | StorageError string
  | PersistenceError string string
  | ProtobufEncodeError string
  | ProtobufDecodeError string
  | Timeout nat
  | UnrecognizedOpCode string
  | Internal string

type_synonym 'a zht_result = "zht_error + 'a"

text \<open>The messages of the errors (\<open>Display\<close>, as \<open>thiserror\<close> derives it from the attributes).\<close>

definition quoted :: "string \<Rightarrow> string" where
  "quoted s = [CHR 0x27] @ s @ [CHR 0x27]"

fun show_zht_error :: "zht_error \<Rightarrow> string" where
  "show_zht_error (ConfigNotFound path) = ''configuration file not found: '' @ path"
| "show_zht_error (ConfigParseError path reason) =
     ''failed to parse configuration file: '' @ path @ '': '' @ reason"
| "show_zht_error (MissingConfigParam param) =
     ''missing required configuration parameter: '' @ param"
| "show_zht_error (InvalidConfigValue param reason) =
     ''invalid configuration value for '' @ quoted param @ '': '' @ reason"
| "show_zht_error (ConnectionFailed h p reason) =
     ''connection failed to '' @ h @ '':'' @ show_nat (unat p) @ '': '' @ reason"
| "show_zht_error (SendFailed msg) = ''send failed: '' @ msg"
| "show_zht_error (RecvFailed msg) = ''receive failed: '' @ msg"
| "show_zht_error (UnsupportedProtocol p) = ''unsupported protocol: '' @ p"
| "show_zht_error EmptyKey = ''empty key in operation''"
| "show_zht_error (KeyNotFound key) = ''key not found: '' @ key"
| "show_zht_error (CasMismatch expected actual) =
     ''compare-and-swap mismatch: expected '' @ quoted expected @ '', got '' @ quoted actual"
| "show_zht_error (LeaseExpired lease_ms) =
     ''state change callback lease expired after '' @ show_nat lease_ms @ ''ms''"
| "show_zht_error (NoDestinationNode key) = ''no destination node for key: '' @ key"
| "show_zht_error (StorageError msg) = ''storage error: '' @ msg"
| "show_zht_error (PersistenceError path reason) =
     ''failed to persist data to file: '' @ path @ '': '' @ reason"
| "show_zht_error (ProtobufEncodeError msg) = ''protobuf serialization failed: '' @ msg"
| "show_zht_error (ProtobufDecodeError msg) = ''protobuf deserialization failed: '' @ msg"
| "show_zht_error (Timeout timeout_ms) =
     ''operation timed out after '' @ show_nat timeout_ms @ ''ms''"
| "show_zht_error (UnrecognizedOpCode code) = ''unrecognized operation code: '' @ code"
| "show_zht_error (Internal msg) = msg"

section \<open>HostEntity\<close>

record host_entity =
  he_host :: string
  he_port :: u16

definition HostEntity_new :: "string \<Rightarrow> u16 \<Rightarrow> host_entity" where
  "HostEntity_new h p = \<lparr>he_host = h, he_port = p\<rparr>"

definition gen_base :: "string \<Rightarrow> u16 \<Rightarrow> string" where
  "gen_base h p = h @ '':'' @ show_nat (unat p)"

definition address :: "host_entity \<Rightarrow> string" where
  "address h = he_host h @ '':'' @ show_nat (unat (he_port h))"

text \<open>\<open>Display\<close> prints the same text.\<close>

definition show_host_entity :: "host_entity \<Rightarrow> string" where
  "show_host_entity h = he_host h @ '':'' @ show_nat (unat (he_port h))"

lemma show_host_entity [simp]: "show_host_entity h = address h"
  by (simp add: show_host_entity_def address_def)

definition from_address :: "string \<Rightarrow> host_entity option" where
  "from_address addr =
     (case rsplit2 CHR '':'' addr of
        None \<Rightarrow> None
      | Some (h, p) \<Rightarrow>
          (case parse_uint u16_max p of
             Inl _ \<Rightarrow> None
           | Inr n \<Rightarrow> Some \<lparr>he_host = h, he_port = of_nat n\<rparr>))"

lemma unat_u16: "unat (p :: u16) \<le> u16_max"
proof -
  have "unat p < 2 ^ LENGTH(16)" by (rule unsigned_less)
  then show ?thesis by (simp add: u16_max_def)
qed

lemma from_address_address: "from_address (address h) = Some h"
proof -
  have "CHR '':'' \<notin> set (show_nat (unat (he_port h)))"
    by (rule show_nat_notin) (rule is_digit_not)
  then have "rsplit2 CHR '':'' (address h) = Some (he_host h, show_nat (unat (he_port h)))"
    by (simp add: address_def rsplit2_sep)
  then show ?thesis
    by (simp add: from_address_def parse_show_nat unat_u16)
qed

text \<open>The address names the node: the connection pools key their entries by it.\<close>

lemma address_inject [simp]: "address h = address h' \<longleftrightarrow> h = h'"
  by (metis from_address_address option.inject)

section \<open>HashUtil\<close>

fun gen_hash_loop :: "u64 \<Rightarrow> u8 list \<Rightarrow> u64" where
  "gen_hash_loop hash [] = hash"
| "gen_hash_loop hash (byte # bs) =
     (if byte = 0 then hash
      else gen_hash_loop (ucast byte + push_bit 6 hash + push_bit 16 hash - hash) bs)"

definition gen_hash :: "u8 list \<Rightarrow> u64" where
  "gen_hash bs = gen_hash_loop 0 bs"

definition gen_hash_str :: "string \<Rightarrow> u64" where
  "gen_hash_str s = gen_hash (as_bytes s)"

definition alphanum :: string where
  "alphanum = ''0123456789ABCDEFGHIJKLMNOPQRSTUVWXYZabcdefghijklmnopqrstuvwxyz''"

definition xorshift :: "u64 \<Rightarrow> u64" where
  "xorshift s =
     (let s1 = xor s (push_bit 13 s);
          s2 = xor s1 (drop_bit 7 s1)
      in xor s2 (push_bit 17 s2))"

fun random_chars :: "nat \<Rightarrow> u64 \<Rightarrow> string" where
  "random_chars 0 s = []"
| "random_chars (Suc n) s =
     alphanum ! (unat (xorshift s) mod length alphanum) # random_chars n (xorshift s)"

definition random_string :: "u64 \<Rightarrow> nat \<Rightarrow> string" where
  "random_string seed len = random_chars len seed"

definition gen_id :: "u64 \<Rightarrow> u64" where
  "gen_id seed = gen_hash (as_bytes (random_string seed 62))"

definition gen_id_string :: "u64 \<Rightarrow> nat \<Rightarrow> string" where
  "gen_id_string seed len = pad_zero len (show_hex (unat (gen_id seed)))"

text \<open>The node a key goes to: \<open>hash(key) % n\<close>.\<close>

definition route_index :: "string \<Rightarrow> nat \<Rightarrow> nat" where
  "route_index key n = unat (gen_hash_str key) mod n"

lemma route_index_less: "0 < n \<Longrightarrow> route_index key n < n"
  by (simp add: route_index_def)

text \<open>The shifts multiply by 65599: the hash is a polynomial in the bytes, modulo 2^64.\<close>

fun poly_hash :: "u64 \<Rightarrow> u8 list \<Rightarrow> u64" where
  "poly_hash h [] = h"
| "poly_hash h (b # bs) = poly_hash (65599 * h + ucast b) bs"

lemma shift_step: "ucast b + push_bit 6 h + push_bit 16 h - h = 65599 * h + (ucast b :: u64)"
  by (simp add: push_bit_eq_mult algebra_simps)

lemma gen_hash_loop_poly:
  "gen_hash_loop h bs = poly_hash h (takeWhile (\<lambda>b. b \<noteq> 0) bs)"
  by (induction h bs rule: gen_hash_loop.induct) (simp_all add: shift_step del: push_bit_of_Suc_0)

lemma length_random_chars: "length (random_chars n s) = n"
  by (induction n arbitrary: s) auto

lemma random_chars_alphanum: "set (random_chars n s) \<subseteq> set alphanum"
proof (induction n arbitrary: s)
  case (Suc n)
  have "unat (xorshift s) mod length alphanum < length alphanum"
    by (simp add: alphanum_def)
  then have "alphanum ! (unat (xorshift s) mod length alphanum) \<in> set alphanum"
    by (rule nth_mem)
  with Suc show ?case by simp
qed simp

lemma length_show_hex: "n < 16 ^ k \<Longrightarrow> 0 < k \<Longrightarrow> length (show_hex n) \<le> k"
proof (induction k arbitrary: n)
  case (Suc k)
  show ?case
  proof (cases "n < 16")
    case False
    then have "0 < k" using Suc.prems(1) by (cases k) auto
    moreover have "n div 16 < 16 ^ k"
      using Suc.prems(1) by (simp add: less_mult_imp_div_less mult.commute)
    ultimately have "length (show_hex (n div 16)) \<le> k" by (rule Suc.IH [rotated])
    with False show ?thesis by (subst show_hex.simps) simp
  qed (subst show_hex.simps, simp)
qed simp

section \<open>ConfEntry\<close>

record conf_entry =
  ce_name :: string
  ce_value :: string

definition ConfEntry_new :: "string \<Rightarrow> string \<Rightarrow> conf_entry" where
  "ConfEntry_new name v = \<lparr>ce_name = name, ce_value = v\<rparr>"

definition from_line :: "string \<Rightarrow> conf_entry option" where
  "from_line line =
     (let trimmed = trim line in
      if trimmed = [] \<or> starts_with trimmed ''#'' then None
      else
        let parts = splitn2_ws trimmed;
            name = trim (fst parts);
            value = trim (case snd parts of None \<Rightarrow> [] | Some v \<Rightarrow> v)
        in if name = [] then None else Some \<lparr>ce_name = name, ce_value = value\<rparr>)"

definition conf_to_string :: "conf_entry \<Rightarrow> string" where
  "conf_to_string e = (if ce_value e = [] then ce_name e else ce_name e @ '' '' @ ce_value e)"

text \<open>\<open>Display\<close> prints the same text.\<close>

definition show_conf_entry :: "conf_entry \<Rightarrow> string" where
  "show_conf_entry e = (if ce_value e = [] then ce_name e else ce_name e @ '' '' @ ce_value e)"

lemma show_conf_entry [simp]: "show_conf_entry e = conf_to_string e"
  by (simp add: show_conf_entry_def conf_to_string_def)

text \<open>\<open>parse_value\<close> and \<open>value_or\<close>, for the parser \<open>p\<close> of the requested type.\<close>

definition parse_value :: "(string \<Rightarrow> parse_error + 'a) \<Rightarrow> conf_entry \<Rightarrow> 'a option" where
  "parse_value p e = (case p (ce_value e) of Inl _ \<Rightarrow> None | Inr v \<Rightarrow> Some v)"

definition value_or :: "(string \<Rightarrow> parse_error + 'a) \<Rightarrow> conf_entry \<Rightarrow> 'a \<Rightarrow> 'a" where
  "value_or p e d = (case parse_value p e of None \<Rightarrow> d | Some v \<Rightarrow> v)"

text \<open>The entries a line can carry: no white space in the name, none around the value.\<close>

definition wf_entry :: "conf_entry \<Rightarrow> bool" where
  "wf_entry e \<longleftrightarrow>
     ce_name e \<noteq> [] \<and> hd (ce_name e) \<noteq> CHR ''#'' \<and>
     until_ws (ce_name e) = (ce_name e, []) \<and> trim (ce_name e) = ce_name e \<and>
     trim (ce_value e) = ce_value e"

lemma space_tokens:
  "[CHR '' ''] \<in> set ws_tokens"
  "t \<in> set ws_tokens \<Longrightarrow> CHR '' '' \<in> set t \<Longrightarrow> t = [CHR '' '']"
  "t \<in> set (map rev ws_tokens) \<Longrightarrow> CHR '' '' \<in> set t \<Longrightarrow> t = [CHR '' '']"
proof -
  have "\<forall>t \<in> set ws_tokens. CHR '' '' \<in> set t \<longrightarrow> t = [CHR '' '']"
    "\<forall>t \<in> set (map rev ws_tokens). CHR '' '' \<in> set t \<longrightarrow> t = [CHR '' '']"
    by code_simp+
  then show "t \<in> set ws_tokens \<Longrightarrow> CHR '' '' \<in> set t \<Longrightarrow> t = [CHR '' '']"
    "t \<in> set (map rev ws_tokens) \<Longrightarrow> CHR '' '' \<in> set t \<Longrightarrow> t = [CHR '' '']" by blast+
  show "[CHR '' ''] \<in> set ws_tokens" by (simp add: ws_tokens_def)
qed

text \<open>A word: no character of it opens a white-space character.\<close>

lemma until_ws_word: "list_all (\<lambda>c. c \<notin> set (map hd ws_tokens)) s \<Longrightarrow> until_ws s = (s, [])"
proof (induction s)
  case (Cons c s)
  have "strip ws_tokens (c # s) = c # s"
  proof (rule strip_nonws)
    show "t \<noteq> [] \<and> hd t \<noteq> c" if "t \<in> set ws_tokens" for t
      using that Cons.prems ws_tokens_no_digit [OF that] by auto
  qed
  with Cons show ?case by (simp only: strip_id_iff) simp
qed simp

lemma trim_fix:
  assumes "trim s = s"
  shows "match_tok ws_tokens s = None" "match_tok (map rev ws_tokens) (rev s) = None" "trim_end s = s"
proof -
  obtain u where u: "s = u @ trim_start s"
    using strip_suffix [of s ws_tokens] by (auto simp: trim_start_def)
  have "length s \<le> length (trim_start s)"
    using length_strip [of "map rev ws_tokens" "rev (trim_start s)"] assms
    by (metis length_rev trim_def trim_end_def)
  with u have eq: "trim_start s = s" by (metis length_append add_le_same_cancel2 append_Nil le_zero_eq length_0_conv)
  then show "match_tok ws_tokens s = None" by (simp add: trim_start_def strip_id_iff)
  show te: "trim_end s = s" using assms eq by (simp add: trim_def)
  then have "strip (map rev ws_tokens) (rev s) = rev s" by (metis rev_rev_ident trim_end_def)
  then show "match_tok (map rev ws_tokens) (rev s) = None" by (simp only: strip_id_iff)
qed

lemma trim_fixI:
  assumes "match_tok ws_tokens s = None" "match_tok (map rev ws_tokens) (rev s) = None"
  shows "trim s = s"
proof -
  have "strip ws_tokens s = s" "strip (map rev ws_tokens) (rev s) = rev s"
    using assms by (simp_all only: strip_id_iff)
  then show ?thesis by (simp add: trim_def trim_start_def trim_end_def)
qed

lemma until_ws_space:
  assumes "until_ws s = (s, [])"
  shows "until_ws (s @ CHR '' '' # r) = (s, CHR '' '' # r)"
  using assms
proof (induction s)
  case Nil
  from match_tok_single [OF space_tokens(1)] show ?case by simp
next
  case (Cons c s)
  then have none: "match_tok ws_tokens (c # s) = None" and s: "until_ws s = (s, [])"
    by (auto simp: prod_eq_iff split: if_splits)
  have "strip ws_tokens ((c # s) @ CHR '' '' # r) = (c # s) @ CHR '' '' # r"
    by (rule strip_token [OF none _ space_tokens(2)]) simp
  then have "match_tok ws_tokens (c # s @ CHR '' '' # r) = None"
    by (simp only: strip_id_iff append_Cons)
  with Cons.IH [OF s] show ?case by simp
qed

text \<open>Rendering an entry and parsing the line gives the entry back.\<close>

lemma conf_to_string_trimmed:
  assumes "wf_entry e"
  shows "trim (conf_to_string e) = conf_to_string e"
proof (cases "ce_value e = []")
  case False
  from assms have n: "trim (ce_name e) = ce_name e" "ce_name e \<noteq> []"
    and v: "trim (ce_value e) = ce_value e"
    by (simp_all add: wf_entry_def)
  have "strip ws_tokens (ce_name e @ CHR '' '' # ce_value e) = ce_name e @ CHR '' '' # ce_value e"
    by (rule strip_token [OF trim_fix(1) [OF n(1)] n(2) space_tokens(2)])
  moreover have "strip (map rev ws_tokens) (rev (ce_value e) @ CHR '' '' # rev (ce_name e))
      = rev (ce_value e) @ CHR '' '' # rev (ce_name e)"
    by (rule strip_token [OF trim_fix(2) [OF v] _ space_tokens(3)]) (simp add: False)
  ultimately show ?thesis
    using False by (intro trim_fixI) (simp_all add: conf_to_string_def strip_id_iff)
qed (use assms in \<open>simp add: wf_entry_def conf_to_string_def\<close>)

lemma from_line_to_string:
  assumes "wf_entry e"
  shows "from_line (conf_to_string e) = Some e"
proof -
  from assms have n: "trim (ce_name e) = ce_name e" "ce_name e \<noteq> []" "hd (ce_name e) \<noteq> CHR ''#''"
      "until_ws (ce_name e) = (ce_name e, [])" and v: "trim (ce_value e) = ce_value e"
    by (simp_all add: wf_entry_def)
  have ne: "conf_to_string e \<noteq> []" "\<not> starts_with (conf_to_string e) ''#''"
    using n(2,3) by (cases "ce_name e"; simp add: conf_to_string_def starts_with_def)+
  show ?thesis
  proof (cases "ce_value e = []")
    case True
    then have "splitn2_ws (conf_to_string e) = (ce_name e, None)"
      using n(4) by (simp add: conf_to_string_def splitn2_ws_def match_tok_None starts_with_def)
    with True n v ne conf_to_string_trimmed [OF assms] show ?thesis
      by (cases e) (simp add: from_line_def Let_def)
  next
    case False
    have sp: "match_tok ws_tokens (CHR '' '' # ce_value e) = Some [CHR '' '']"
    proof -
      from match_tok_single [OF space_tokens(1)]
      obtain t where t: "match_tok ws_tokens (CHR '' '' # ce_value e) = Some t" by blast
      then have "t = [CHR '' '']" using match_tok_head [OF t] space_tokens(2) by blast
      with t show ?thesis by simp
    qed
    have "splitn2_ws (conf_to_string e) = (ce_name e, Some (ce_value e))"
      using until_ws_space [OF n(4), of "ce_value e"] sp False
      by (simp add: conf_to_string_def splitn2_ws_def)
    with False n v ne conf_to_string_trimmed [OF assms] show ?thesis
      by (cases e) (simp add: from_line_def Let_def)
  qed
qed

section \<open>Properties\<close>

text \<open>
  C31. The routing hash is the polynomial hash with multiplier 65599, modulo \<open>2 ^ 64\<close>, of the
  bytes before the first zero byte: \<open>hash_string\<close>'s shifts and wrapping additions lose nothing
  else, and a zero byte hides the rest of the string.
\<close>

theorem hash_is_polynomial:
  fixes bs :: "u8 list"
  defines "cs \<equiv> takeWhile (\<lambda>b. b \<noteq> 0) bs"
  shows "unat (gen_hash bs) =
    (\<Sum>i = 0..<length cs. unat (cs ! i) * 65599 ^ (length cs - Suc i)) mod 2 ^ 64"
proof -
  have poly: "poly_hash h cs =
      65599 ^ length cs * h + of_nat (\<Sum>i = 0..<length cs. unat (cs ! i) * 65599 ^ (length cs - Suc i))"
    for h cs
  proof (induction h cs rule: poly_hash.induct)
    case (2 h b bs)
    have "(\<Sum>i = 0..<length (b # bs). unat ((b # bs) ! i) * 65599 ^ (length (b # bs) - Suc i)) =
        unat b * 65599 ^ length bs
        + (\<Sum>i = 0..<length bs. unat (bs ! i) * 65599 ^ (length bs - Suc i))"
      by (simp add: sum.atLeast0_lessThan_Suc_shift del: sum.op_ivl_Suc)
    with 2 show ?case by (simp add: algebra_simps unsigned_ucast_eq)
  qed simp
  have "gen_hash bs =
      of_nat (\<Sum>i = 0..<length cs. unat (cs ! i) * 65599 ^ (length cs - Suc i))"
    by (simp add: gen_hash_def gen_hash_loop_poly poly cs_def)
  then show ?thesis by (simp only: unat_of_nat) simp
qed

text \<open>
  \<open>from_address\<close> reads back what \<open>address\<close> prints, for any host text, colons included, and any
  port; so the pools, which key their entries by the address, keep two nodes apart.
\<close>

lemma address_round_trip:
  "from_address (address h) = Some h \<and> (address h = address h' \<longleftrightarrow> h = h')"
  by (simp add: from_address_address)

end
