(* ===== verification/Zht_Config.thy ===== *)
theory Zht_Config
  imports Zht_Common
begin

text \<open>
  Crate \<open>zht-config\<close>: the parsing of \<open>zht.conf\<close> and \<open>neighbor.conf\<close>, the typed accessors
  with their defaults, and the zero-hop routing of a key to a node. The file system is an
  argument: for each path, whether the file exists, and what \<open>read_to_string\<close> returns.
\<close>

type_synonym file_env = "string \<Rightarrow> (string + string) option"

section \<open>ZhtConfig\<close>

record zht_config =
  zc_parameters :: "(string, string) hashmap"
  zc_path :: string

definition add_line :: "(string, string) hashmap \<Rightarrow> string \<Rightarrow> (string, string) hashmap" where
  "add_line m line =
     (case from_line line of
        None \<Rightarrow> m
      | Some entry \<Rightarrow> hm_insert (ce_name entry) (ce_value entry) m)"

definition ZhtConfig_load :: "file_env \<Rightarrow> string \<Rightarrow> zht_config zht_result" where
  "ZhtConfig_load fs path =
     (case fs path of
        None \<Rightarrow> Inl (ConfigNotFound path)
      | Some (Inl reason) \<Rightarrow> Inl (ConfigParseError path reason)
      | Some (Inr content) \<Rightarrow>
          Inr \<lparr>zc_parameters = foldl add_line [] (lines_of content), zc_path = path\<rparr>)"

definition zc_get :: "zht_config \<Rightarrow> string \<Rightarrow> string option" where
  "zc_get c key = hm_get (zc_parameters c) key"

definition get_or :: "zht_config \<Rightarrow> string \<Rightarrow> string \<Rightarrow> string" where
  "get_or c key d = (case zc_get c key of None \<Rightarrow> d | Some v \<Rightarrow> v)"

definition get_parsed :: "(string \<Rightarrow> parse_error + 'a) \<Rightarrow> zht_config \<Rightarrow> string \<Rightarrow> 'a \<Rightarrow> 'a" where
  "get_parsed p c key d =
     (case zc_get c key of
        None \<Rightarrow> d
      | Some v \<Rightarrow> (case p v of Inl _ \<Rightarrow> d | Inr x \<Rightarrow> x))"

definition protocol :: "zht_config \<Rightarrow> string" where
  "protocol c = (case hm_get (zc_parameters c) CONF_PROTOCOL of None \<Rightarrow> ''TCP'' | Some s \<Rightarrow> s)"

definition port :: "zht_config \<Rightarrow> u16" where
  "port c = of_nat (get_parsed (parse_uint u16_max) c CONF_PORT 50000)"

definition msg_maxsize :: "zht_config \<Rightarrow> nat" where
  "msg_maxsize c = get_parsed (parse_uint u64_max) c CONF_MSG_MAXSIZE MSG_DEFAULT_SIZE"

definition sccb_poll_interval :: "zht_config \<Rightarrow> nat" where
  "sccb_poll_interval c =
     get_parsed (parse_uint u64_max) c CONF_SCCB_POLL_INTERVAL SCCB_POLL_DEFAULT_INTERVAL"

definition instant_swap :: "zht_config \<Rightarrow> bool" where
  "instant_swap c \<longleftrightarrow> get_parsed parse_i32 c CONF_INSTANT_SWAP 0 = 1"

definition max_zht :: "zht_config \<Rightarrow> nat" where
  "max_zht c = get_parsed (parse_uint u32_max) c CONF_MAX_ZHT 512"

definition num_replicas :: "zht_config \<Rightarrow> nat" where
  "num_replicas c = get_parsed (parse_uint u32_max) c CONF_NUM_REPLICAS 0"

definition replication_type :: "zht_config \<Rightarrow> nat" where
  "replication_type c = get_parsed (parse_uint u32_max) c CONF_REPLICATION_TYPE 0"

definition zht_capacity :: "zht_config \<Rightarrow> nat" where
  "zht_capacity c = get_parsed (parse_uint u32_max) c CONF_ZHT_CAPACITY 4"

definition htdata_path :: "zht_config \<Rightarrow> string" where
  "htdata_path c = get_or c CONF_HTDATA_PATH ''data/''"

definition migslp_time :: "zht_config \<Rightarrow> nat" where
  "migslp_time c = get_parsed (parse_uint u64_max) c CONF_MIGSLP_TIME 1000000"

section \<open>NeighborConfig\<close>

record neighbor_config =
  nc_neighbors :: "host_entity list"
  nc_path :: string

text \<open>The loop over the numbered lines; the first bad line ends it with its error.\<close>

fun load_neighbors :: "string \<Rightarrow> nat \<Rightarrow> string list \<Rightarrow> host_entity list zht_result" where
  "load_neighbors path line_num [] = Inr []"
| "load_neighbors path line_num (line # rest) =
     (let trimmed = trim line in
      if trimmed = [] \<or> starts_with trimmed ''#'' then load_neighbors path (Suc line_num) rest
      else
        case split_whitespace trimmed of
          [] \<Rightarrow> load_neighbors path (Suc line_num) rest
        | [h] \<Rightarrow>
            Inl (InvalidConfigValue ''PORT''
              (''missing port in '' @ path @ '' line '' @ show_nat (line_num + 1)))
        | h # p # _ \<Rightarrow>
            (case parse_uint u16_max p of
               Inl _ \<Rightarrow>
                 Inl (InvalidConfigValue ''PORT''
                   (''invalid port '' @ [CHR 0x27] @ p @ [CHR 0x27] @ '' in '' @ path
                    @ '' line '' @ show_nat (line_num + 1)))
             | Inr n \<Rightarrow>
                 (case load_neighbors path (Suc line_num) rest of
                    Inl e \<Rightarrow> Inl e
                  | Inr hs \<Rightarrow> Inr (HostEntity_new h (of_nat n) # hs))))"

definition NeighborConfig_load :: "file_env \<Rightarrow> string \<Rightarrow> neighbor_config zht_result" where
  "NeighborConfig_load fs path =
     (case fs path of
        None \<Rightarrow> Inl (ConfigNotFound path)
      | Some (Inl reason) \<Rightarrow> Inl (ConfigParseError path reason)
      | Some (Inr content) \<Rightarrow>
          (case load_neighbors path 0 (lines_of content) of
             Inl e \<Rightarrow> Inl e
           | Inr hs \<Rightarrow> Inr \<lparr>nc_neighbors = hs, nc_path = path\<rparr>))"

definition nc_node_count :: "neighbor_config \<Rightarrow> nat" where
  "nc_node_count n = length (nc_neighbors n)"

definition nc_get :: "neighbor_config \<Rightarrow> nat \<Rightarrow> host_entity option" where
  "nc_get n i = (if i < length (nc_neighbors n) then Some (nc_neighbors n ! i) else None)"

fun position :: "('a \<Rightarrow> bool) \<Rightarrow> 'a list \<Rightarrow> nat option" where
  "position P [] = None"
| "position P (x # xs) = (if P x then Some 0 else map_option Suc (position P xs))"

definition find_index :: "neighbor_config \<Rightarrow> string \<Rightarrow> u16 \<Rightarrow> nat option" where
  "find_index n h p = position (\<lambda>e. he_host e = h \<and> he_port e = p) (nc_neighbors n)"

lemma position_Some:
  "position P xs = Some i \<Longrightarrow> i < length xs \<and> P (xs ! i) \<and> (\<forall>j < i. \<not> P (xs ! j))"
  by (induction xs arbitrary: i) (auto split: if_splits simp: less_Suc_eq_0_disj)

lemma position_None: "position P xs = None \<longleftrightarrow> (\<forall>x \<in> set xs. \<not> P x)"
  by (induction xs) auto

section \<open>AppConfig and routing\<close>

record app_config =
  ac_zht :: zht_config
  ac_neighbors :: neighbor_config

definition AppConfig_load :: "file_env \<Rightarrow> string \<Rightarrow> string \<Rightarrow> app_config zht_result" where
  "AppConfig_load fs zht_conf neighbor_conf =
     (case ZhtConfig_load fs zht_conf of
        Inl e \<Rightarrow> Inl e
      | Inr z \<Rightarrow>
          (case NeighborConfig_load fs neighbor_conf of
             Inl e \<Rightarrow> Inl e
           | Inr n \<Rightarrow> Inr \<lparr>ac_zht = z, ac_neighbors = n\<rparr>))"

definition node_count :: "app_config \<Rightarrow> nat" where
  "node_count c = nc_node_count (ac_neighbors c)"

definition resolve_node :: "app_config \<Rightarrow> string \<Rightarrow> host_entity zht_result" where
  "resolve_node c key =
     (if node_count c = 0 then Inl (NoDestinationNode key)
      else
        case nc_get (ac_neighbors c) (route_index key (node_count c)) of
          None \<Rightarrow> Inl (NoDestinationNode key)
        | Some node \<Rightarrow> Inr node)"

lemma resolve_node_Inr:
  assumes "nc_neighbors (ac_neighbors c) \<noteq> []"
  shows "resolve_node c key
    = Inr (nc_neighbors (ac_neighbors c)
        ! route_index key (length (nc_neighbors (ac_neighbors c))))"
  using assms by (simp add: resolve_node_def node_count_def nc_node_count_def nc_get_def route_index_less)

section \<open>Loading what was written\<close>

text \<open>A line without line breaks, trimmed at its end, reads back as itself.\<close>

lemma trimmed_no_cr: "trim s = s \<Longrightarrow> strip_cr s = s"
  using trim_fix(3) [of s] trimmed_last [of s] by (auto simp: strip_cr_def)

definition render_entries :: "conf_entry list \<Rightarrow> string" where
  "render_entries es = concat (map (\<lambda>e. conf_to_string e @ [LF]) es)"

definition line_entry :: "conf_entry \<Rightarrow> bool" where
  "line_entry e \<longleftrightarrow> wf_entry e \<and> LF \<notin> set (ce_name e) \<and> LF \<notin> set (ce_value e)"

lemma line_entry_LF: "line_entry e \<Longrightarrow> LF \<notin> set (conf_to_string e)"
  by (auto simp: line_entry_def conf_to_string_def LF_def)

lemma lines_of_rendered:
  "list_all line_entry es \<Longrightarrow> lines_of (render_entries es) = map conf_to_string es"
proof (induction es)
  case (Cons e es)
  then have e: "line_entry e" by simp
  then have "strip_cr (conf_to_string e) = conf_to_string e"
    by (intro trimmed_no_cr conf_to_string_trimmed) (simp add: line_entry_def)
  with Cons lines_of_line [OF line_entry_LF [OF e]] show ?case
    by (simp add: render_entries_def)
qed (simp add: render_entries_def)

lemma add_lines_rendered:
  "list_all line_entry es \<Longrightarrow>
   foldl add_line m (map conf_to_string es)
     = foldl (\<lambda>m e. hm_insert (ce_name e) (ce_value e) m) m es"
  by (induction es arbitrary: m) (simp_all add: add_line_def from_line_to_string line_entry_def)

lemma get_inserts:
  "hm_get (foldl (\<lambda>m e. hm_insert (f e) (g e) m) m es) = (hm_get m ++ map_of (rev (map (\<lambda>e. (f e, g e)) es)))"
  by (induction es arbitrary: m) (auto simp: map_add_def fun_eq_iff split: option.split)

text \<open>Neighbours: one \<open>host port\<close> line each.\<close>

definition ws_free :: "string \<Rightarrow> bool" where
  "ws_free s \<longleftrightarrow> s \<noteq> [] \<and> until_ws s = (s, []) \<and> trim s = s"

definition neighbor_line :: "host_entity \<Rightarrow> string" where
  "neighbor_line h = he_host h @ '' '' @ show_nat (unat (he_port h))"

definition good_host :: "host_entity \<Rightarrow> bool" where
  "good_host h \<longleftrightarrow> ws_free (he_host h) \<and> hd (he_host h) \<noteq> CHR ''#'' \<and> LF \<notin> set (he_host h)"

lemma until_ws_digits:
  assumes "list_all is_digit s"
  shows "until_ws s = (s, [])"
proof (rule until_ws_word [OF list.pred_mono_strong [OF assms]])
  have "\<forall>t \<in> set ws_tokens. \<not> is_digit (hd t)" by (blast dest: ws_tokens_no_digit)
  then show "c \<notin> set (map hd ws_tokens)" if "is_digit c" for c
    using that unfolding set_map by blast
qed

lemma trim_digits: "list_all is_digit s \<Longrightarrow> s \<noteq> [] \<Longrightarrow> trim s = s"
  by (rule trim_fixI) (metis digits_trimmed strip_id_iff)+

lemma split_two_words:
  assumes "ws_free h" "list_all is_digit d" "d \<noteq> []"
  shows "split_whitespace (h @ '' '' @ d) = [h, d]"
proof -
  from assms(1) have h: "h \<noteq> []" "until_ws h = (h, [])" "match_tok ws_tokens h = None"
    using trim_fix(1) by (auto simp: ws_free_def)
  have td: "trim_start d = d" "until_ws d = (d, [])"
    using digits_trimmed(1) assms(2,3) by (simp_all add: trim_start_def until_ws_digits)
  have ts: "trim_start (h @ CHR '' '' # d) = h @ CHR '' '' # d"
    unfolding trim_start_def by (rule strip_token [OF h(3,1) space_tokens(2)])
  have sp: "trim_start (CHR '' '' # d) = d"
    using strip_spaces [of 1 d] td by (simp add: trim_start_def)
  have "split_whitespace (CHR '' '' # d) = d # split_whitespace []"
    by (subst split_whitespace.simps) (simp add: sp td assms(3))
  then have "split_whitespace (CHR '' '' # d) = [d]"
    by (simp add: split_whitespace.simps [of "[]"])
  then show ?thesis
    by (subst split_whitespace.simps) (simp add: ts until_ws_space [OF h(2)])
qed

lemma neighbor_line_trimmed:
  assumes "good_host h"
  shows "trim (neighbor_line h) = neighbor_line h"
proof -
  let ?d = "show_nat (unat (he_port h))"
  from assms have h: "trim (he_host h) = he_host h" "he_host h \<noteq> []"
    by (simp_all add: good_host_def ws_free_def)
  have d: "trim ?d = ?d" by (rule trim_digits [OF show_nat_digits show_nat_ne])
  have "strip ws_tokens (he_host h @ CHR '' '' # ?d) = he_host h @ CHR '' '' # ?d"
    by (rule strip_token [OF trim_fix(1) [OF h(1)] h(2) space_tokens(2)])
  moreover have "strip (map rev ws_tokens) (rev ?d @ CHR '' '' # rev (he_host h))
      = rev ?d @ CHR '' '' # rev (he_host h)"
    by (rule strip_token [OF trim_fix(2) [OF d] _ space_tokens(3)]) simp
  ultimately show ?thesis
    by (intro trim_fixI) (simp_all add: neighbor_line_def strip_id_iff)
qed

lemma load_rendered_neighbors:
  "list_all good_host hs \<Longrightarrow> load_neighbors path n (map neighbor_line hs) = Inr hs"
proof (induction hs arbitrary: n)
  case (Cons h hs)
  then have h: "ws_free (he_host h)" "hd (he_host h) \<noteq> CHR ''#''" "he_host h \<noteq> []" "good_host h"
    by (simp_all add: good_host_def ws_free_def)
  have nh: "neighbor_line h \<noteq> []" "\<not> starts_with (neighbor_line h) ''#''"
    using h(2,3) by (cases "he_host h"; simp add: neighbor_line_def starts_with_def)+
  have "split_whitespace (neighbor_line h) = [he_host h, show_nat (unat (he_port h))]"
    unfolding neighbor_line_def by (rule split_two_words [OF h(1) show_nat_digits show_nat_ne])
  with Cons h nh show ?case
    by (simp add: Let_def neighbor_line_trimmed parse_show_nat unat_u16 HostEntity_new_def)
qed simp

definition render_neighbors :: "host_entity list \<Rightarrow> string" where
  "render_neighbors hs = concat (map (\<lambda>h. neighbor_line h @ [LF]) hs)"

lemma lines_of_neighbors:
  "list_all good_host hs \<Longrightarrow> lines_of (render_neighbors hs) = map neighbor_line hs"
proof (induction hs)
  case (Cons h hs)
  then have h: "good_host h" by simp
  then have "LF \<notin> set (neighbor_line h)"
    using show_nat_notin [of LF "unat (he_port h)"]
    by (auto simp: good_host_def neighbor_line_def LF_def is_digit_def)
  from lines_of_line [OF this] Cons trimmed_no_cr [OF neighbor_line_trimmed [OF h]] show ?case
    by (simp add: render_neighbors_def)
qed (simp add: render_neighbors_def)

section \<open>Properties\<close>

text \<open>
  C32. A deployment's two files are read back as they were written: \<open>AppConfig_load\<close> on a
  settings file of well-formed lines and a neighbour file of well-formed hosts succeeds, a
  setting has the last value written for its name, and the neighbours keep their order. With
  at least one neighbour, \<open>resolve_node\<close> sends every key to the neighbour its hash selects;
  with none, it fails and names the key.
\<close>

theorem config_files_round_trip:
  assumes "fs zpath = Some (Inr (render_entries es))" "list_all line_entry es"
    and "fs npath = Some (Inr (render_neighbors hs))" "list_all good_host hs"
  shows "\<exists>c. AppConfig_load fs zpath npath = Inr c \<and>
    zc_get (ac_zht c) = map_of (rev (map (\<lambda>e. (ce_name e, ce_value e)) es)) \<and>
    (\<forall>key. resolve_node c key =
       (if hs = [] then Inl (NoDestinationNode key)
        else Inr (hs ! (unat (gen_hash_str key) mod length hs))))"
proof (intro exI conjI allI)
  let ?z = "\<lparr>zc_parameters = foldl (\<lambda>m e. hm_insert (ce_name e) (ce_value e) m) [] es, zc_path = zpath\<rparr>"
  let ?c = "\<lparr>ac_zht = ?z, ac_neighbors = \<lparr>nc_neighbors = hs, nc_path = npath\<rparr>\<rparr>"
  show "AppConfig_load fs zpath npath = Inr ?c"
    using assms by (simp add: AppConfig_load_def ZhtConfig_load_def NeighborConfig_load_def
        lines_of_rendered add_lines_rendered lines_of_neighbors load_rendered_neighbors)
  show "zc_get (ac_zht ?c) = map_of (rev (map (\<lambda>e. (ce_name e, ce_value e)) es))"
    by (simp add: fun_eq_iff zc_get_def get_inserts)
  show "resolve_node ?c key = (if hs = [] then Inl (NoDestinationNode key)
      else Inr (hs ! (unat (gen_hash_str key) mod length hs)))" for key
    by (cases "hs = []")
      (simp_all add: resolve_node_Inr route_index_def, simp add: resolve_node_def node_count_def nc_node_count_def)
qed

theorem config_files_round_trip_witness:
  fixes es :: "conf_entry list" and hs :: "host_entity list"
  defines "es \<equiv> [\<lparr>ce_name = ''PORT'', ce_value = ''40000''\<rparr>, \<lparr>ce_name = ''PORT'', ce_value = ''50001''\<rparr>]"
    and "hs \<equiv> [\<lparr>he_host = ''::1'', he_port = 50000\<rparr>, \<lparr>he_host = ''node-b'', he_port = 50001\<rparr>]"
  shows "\<exists>c. AppConfig_load
      (\<lambda>p. if p = ''zht.conf'' then Some (Inr (render_entries es)) else Some (Inr (render_neighbors hs)))
      ''zht.conf'' ''neighbor.conf'' = Inr c \<and>
    zc_get (ac_zht c) = map_of (rev (map (\<lambda>e. (ce_name e, ce_value e)) es)) \<and>
    (\<forall>key. resolve_node c key =
       (if hs = [] then Inl (NoDestinationNode key)
        else Inr (hs ! (unat (gen_hash_str key) mod length hs))))"
proof (rule config_files_round_trip)
  have "line_entry \<lparr>ce_name = ''PORT'', ce_value = ''40000''\<rparr>"
    "line_entry \<lparr>ce_name = ''PORT'', ce_value = ''50001''\<rparr>"
    unfolding line_entry_def wf_entry_def conf_entry.select_convs
    by (intro conjI until_ws_word; simp add: scan_eval LF_def)+
  then show "list_all line_entry es" by (simp add: es_def)
  have "good_host \<lparr>he_host = ''::1'', he_port = 50000\<rparr>" "good_host \<lparr>he_host = ''node-b'', he_port = 50001\<rparr>"
    unfolding good_host_def ws_free_def host_entity.select_convs
    by (intro conjI until_ws_word; simp add: scan_eval LF_def)+
  then show "list_all good_host hs" by (simp add: hs_def)
qed simp_all

end
