(* ===== verification/Op_Machine.thy ===== *)
theory Op_Machine
  imports Zht_Prelude
begin

text \<open>
  Components as machines: a state, operations that return a result and the next state, and
  runs over a list of operations. Two contracts are stated once and interpreted by every
  component that has them: an invariant all operations keep, and the refinement of an
  abstract machine, with equal results.
\<close>

fun run_ops :: "('o \<Rightarrow> 's \<Rightarrow> 'r \<times> 's) \<Rightarrow> 'o list \<Rightarrow> 's \<Rightarrow> 'r list \<times> 's" where
  "run_ops step [] s = ([], s)"
| "run_ops step (x # xs) s =
     (fst (step x s) # fst (run_ops step xs (snd (step x s))),
      snd (run_ops step xs (snd (step x s))))"

lemma run_ops_append:
  "run_ops step (xs @ ys) s =
     (fst (run_ops step xs s) @ fst (run_ops step ys (snd (run_ops step xs s))),
      snd (run_ops step ys (snd (run_ops step xs s))))"
  by (induction xs arbitrary: s) auto

lemma length_run_ops: "length (fst (run_ops step xs s)) = length xs"
  by (induction xs arbitrary: s) auto

locale op_machine =
  fixes step :: "'o \<Rightarrow> 's \<Rightarrow> 'r \<times> 's"
    and inv :: "'s \<Rightarrow> bool"
  assumes step_inv: "inv s \<Longrightarrow> inv (snd (step x s))"
begin

lemma run_inv: "inv s \<Longrightarrow> inv (snd (run_ops step xs s))"
  by (induction xs arbitrary: s) (simp_all add: step_inv)

end

locale refinement = op_machine step inv
  for step :: "'o \<Rightarrow> 's \<Rightarrow> 'r \<times> 's" and inv :: "'s \<Rightarrow> bool" +
  fixes astep :: "'o \<Rightarrow> 'a \<Rightarrow> 'r \<times> 'a"
    and abs :: "'s \<Rightarrow> 'a"
  assumes commutes: "inv s \<Longrightarrow> astep x (abs s) = map_prod id abs (step x s)"
begin

lemma run_commutes: "inv s \<Longrightarrow> run_ops astep xs (abs s) = map_prod id abs (run_ops step xs s)"
  by (induction xs arbitrary: s) (simp_all add: commutes step_inv)

lemma run_results: "inv s \<Longrightarrow> fst (run_ops step xs s) = fst (run_ops astep xs (abs s))"
  by (simp add: run_commutes)

end

end
