(* ===== verification/Novoht.thy ===== *)
theory Novoht
  imports Op_Machine Zht_Common
begin

text \<open>
  Crate \<open>zht-storage\<close> (\<open>zht-storage/src/lib.rs\<close>): NoVoHT, the hash table with its append-only
  file. The state holds the map and the content of the file at \<open>db_path\<close>; what the file system
  answers to a write is an argument of each operation that writes. The write lock makes each
  operation one step.
\<close>

section \<open>State and file access\<close>

record novoht =
  nv_map :: "(string, string) hashmap"
  nv_db_path :: string
  nv_persistent :: bool
  nv_file :: "string option"

text \<open>
  What the operating system answers when the code opens, writes and flushes: success, an error
  on opening, an error after the first \<open>n\<close> bytes were written, or an error of the final flush.
\<close>

datatype io = Io_Ok | Io_Open_Err string | Io_Write_Err nat string | Io_Flush_Err nat string

definition file_content :: "novoht \<Rightarrow> string" where
  "file_content nv = (case nv_file nv of None \<Rightarrow> [] | Some c \<Rightarrow> c)"

definition entry_line :: "string \<Rightarrow> string \<Rightarrow> string" where
  "entry_line key value = key @ [TAB] @ value @ [TAB, LF]"

definition removal_line :: "string \<Rightarrow> string" where
  "removal_line key = ''~'' @ key @ [TAB, LF]"

text \<open>\<open>write_entry\<close> and \<open>write_removal\<close> append one line; they differ in it and in their messages.\<close>

definition write_entry :: "io \<Rightarrow> string \<Rightarrow> string \<Rightarrow> novoht \<Rightarrow> unit zht_result \<times> novoht" where
  "write_entry io key value nv =
     (if \<not> nv_persistent nv then (Inr (), nv)
      else case io of
        Io_Open_Err e \<Rightarrow>
          (Inl (PersistenceError (nv_db_path nv) (''failed to open file for append: '' @ e)), nv)
      | Io_Write_Err n e \<Rightarrow>
          (Inl (PersistenceError (nv_db_path nv) (''write failed: '' @ e)),
           nv\<lparr>nv_file := Some (file_content nv @ take n (entry_line key value))\<rparr>)
      | Io_Flush_Err n e \<Rightarrow>
          (Inl (PersistenceError (nv_db_path nv) (''flush failed: '' @ e)),
           nv\<lparr>nv_file := Some (file_content nv @ entry_line key value)\<rparr>)
      | Io_Ok \<Rightarrow> (Inr (), nv\<lparr>nv_file := Some (file_content nv @ entry_line key value)\<rparr>))"

definition write_removal :: "io \<Rightarrow> string \<Rightarrow> novoht \<Rightarrow> unit zht_result \<times> novoht" where
  "write_removal io key nv =
     (if \<not> nv_persistent nv then (Inr (), nv)
      else case io of
        Io_Open_Err e \<Rightarrow>
          (Inl (PersistenceError (nv_db_path nv)
            (''failed to open file for removal append: '' @ e)), nv)
      | Io_Write_Err n e \<Rightarrow>
          (Inl (PersistenceError (nv_db_path nv) (''write removal failed: '' @ e)),
           nv\<lparr>nv_file := Some (file_content nv @ take n (removal_line key))\<rparr>)
      | Io_Flush_Err n e \<Rightarrow>
          (Inl (PersistenceError (nv_db_path nv) (''flush removal failed: '' @ e)),
           nv\<lparr>nv_file := Some (file_content nv @ removal_line key)\<rparr>)
      | Io_Ok \<Rightarrow> (Inr (), nv\<lparr>nv_file := Some (file_content nv @ removal_line key)\<rparr>))"

text \<open>\<open>flush\<close> truncates the file and writes every entry, in the order of the map.\<close>

definition render_map :: "(string, string) hashmap \<Rightarrow> string" where
  "render_map m = concat (map (\<lambda>(k, v). entry_line k v) m)"

definition nv_flush :: "io \<Rightarrow> novoht \<Rightarrow> unit zht_result \<times> novoht" where
  "nv_flush io nv =
     (if \<not> nv_persistent nv then (Inr (), nv)
      else case io of
        Io_Open_Err e \<Rightarrow>
          (Inl (PersistenceError (nv_db_path nv) (''failed to open file for flush: '' @ e)), nv)
      | Io_Write_Err n e \<Rightarrow>
          (Inl (PersistenceError (nv_db_path nv) (''write failed during flush: '' @ e)),
           nv\<lparr>nv_file := Some (take n (render_map (nv_map nv)))\<rparr>)
      | Io_Flush_Err n e \<Rightarrow>
          (Inl (PersistenceError (nv_db_path nv) (''flush failed: '' @ e)),
           nv\<lparr>nv_file := Some (take n (render_map (nv_map nv)))\<rparr>)
      | Io_Ok \<Rightarrow> (Inr (), nv\<lparr>nv_file := Some (render_map (nv_map nv))\<rparr>))"

section \<open>Loading\<close>

fun join_colon :: "string list \<Rightarrow> string" where
  "join_colon [] = []"
| "join_colon [s] = s"
| "join_colon (s # ss) = s @ '':'' @ join_colon ss"

text \<open>The body of the loop of \<open>read_file_from_reader\<close>, for one line.\<close>

definition apply_line :: "(string, string) hashmap \<Rightarrow> string \<Rightarrow> (string, string) hashmap" where
  "apply_line m raw =
     (let line = trim raw in
      if line = [] then m
      else
        let parts = split_on TAB line; raw_key = hd parts in
        if starts_with raw_key ''~'' then hm_remove (drop 1 raw_key) m
        else if length parts < 2 then m
        else
          let value = parts ! 1 in
          if 2 < length parts then
            let extra = filter (\<lambda>s. s \<noteq> []) (drop 2 parts) in
            if extra \<noteq> [] then hm_insert raw_key (value @ '':'' @ join_colon extra) m
            else hm_insert raw_key value m
          else hm_insert raw_key value m)"

text \<open>
  Reading stops at the first line that cannot be read: an I/O error after \<open>n\<close> lines
  (\<open>fail_at = Some n\<close>), or a line that is not UTF-8.
\<close>

definition readable_lines :: "nat option \<Rightarrow> string \<Rightarrow> string list" where
  "readable_lines fail_at content =
     takeWhile valid_str
       (case fail_at of None \<Rightarrow> lines_of content | Some n \<Rightarrow> take n (lines_of content))"

definition read_file :: "nat option \<Rightarrow> string \<Rightarrow> (string, string) hashmap \<Rightarrow> (string, string) hashmap" where
  "read_file fail_at content m = foldl apply_line m (readable_lines fail_at content)"

section \<open>Operations\<close>

definition NoVoHT_new :: novoht where
  "NoVoHT_new = \<lparr>nv_map = [], nv_db_path = [], nv_persistent = False, nv_file = None\<rparr>"

text \<open>
  \<open>with_persistence\<close>, given the file found at the path, an error on opening it, the reading
  error and the answer to the final flush. It also returns what is left in the file.
\<close>

definition with_persistence ::
  "string \<Rightarrow> string option \<Rightarrow> string option \<Rightarrow> nat option \<Rightarrow> io \<Rightarrow> novoht zht_result \<times> string option"
where
  "with_persistence path file open_err fail_at io =
     (case open_err of
        Some e \<Rightarrow> (Inl (PersistenceError path (''failed to open database file: '' @ e)), file)
      | None \<Rightarrow>
          let content = (case file of None \<Rightarrow> [] | Some c \<Rightarrow> c);
              nv = \<lparr>nv_map = read_file fail_at content [], nv_db_path = path,
                    nv_persistent = True, nv_file = Some content\<rparr>;
              r = nv_flush io nv
          in (case fst r of Inl e \<Rightarrow> Inl e | Inr _ \<Rightarrow> Inr (snd r), nv_file (snd r)))"

definition nv_put :: "io \<Rightarrow> string \<Rightarrow> string \<Rightarrow> novoht \<Rightarrow> unit zht_result \<times> novoht" where
  "nv_put io key value nv =
     (if key = [] then (Inl EmptyKey, nv)
      else
        let nv1 = nv\<lparr>nv_map := hm_insert key value (nv_map nv)\<rparr>
        in (Inr (), if nv_persistent nv1 then snd (write_entry io key value nv1) else nv1))"

definition nv_get :: "string \<Rightarrow> novoht \<Rightarrow> string zht_result" where
  "nv_get key nv = (case hm_get (nv_map nv) key of None \<Rightarrow> Inl (KeyNotFound key) | Some v \<Rightarrow> Inr v)"

definition nv_contains :: "string \<Rightarrow> novoht \<Rightarrow> bool" where
  "nv_contains key nv \<longleftrightarrow> hm_contains (nv_map nv) key"

definition nv_remove :: "io \<Rightarrow> string \<Rightarrow> novoht \<Rightarrow> unit zht_result \<times> novoht" where
  "nv_remove io key nv =
     (if \<not> hm_contains (nv_map nv) key then (Inl (KeyNotFound key), nv)
      else
        let nv1 = nv\<lparr>nv_map := hm_remove key (nv_map nv)\<rparr>
        in (Inr (), if nv_persistent nv1 then snd (write_removal io key nv1) else nv1))"

definition nv_append :: "io \<Rightarrow> string \<Rightarrow> string \<Rightarrow> novoht \<Rightarrow> unit zht_result \<times> novoht" where
  "nv_append io key value nv =
     (if key = [] then (Inl EmptyKey, nv)
      else
        let new_value =
              (case hm_get (nv_map nv) key of
                 Some existing \<Rightarrow> existing @ '':'' @ value
               | None \<Rightarrow> value);
            nv1 = nv\<lparr>nv_map := hm_insert key new_value (nv_map nv)\<rparr>
        in (Inr (), if nv_persistent nv1 then snd (write_entry io key new_value nv1) else nv1))"

definition nv_compare_swap ::
  "io \<Rightarrow> string \<Rightarrow> string \<Rightarrow> string \<Rightarrow> novoht \<Rightarrow> string zht_result \<times> novoht" where
  "nv_compare_swap io key expected new_value nv =
     (let (actual, m) =
            (case hm_get (nv_map nv) key of
               Some current \<Rightarrow>
                 if current = expected then (new_value, hm_insert key new_value (nv_map nv))
                 else (current, nv_map nv)
             | None \<Rightarrow> (new_value, hm_insert key new_value (nv_map nv)));
          nv1 = nv\<lparr>nv_map := m\<rparr>
      in (Inr actual, if nv_persistent nv1 then snd (write_entry io key actual nv1) else nv1))"

definition nv_len :: "novoht \<Rightarrow> nat" where
  "nv_len nv = length (nv_map nv)"

definition nv_is_empty :: "novoht \<Rightarrow> bool" where
  "nv_is_empty nv \<longleftrightarrow> nv_map nv = []"

definition nv_keys :: "novoht \<Rightarrow> string list" where
  "nv_keys nv = hm_keys (nv_map nv)"

definition nv_entries :: "novoht \<Rightarrow> (string \<times> string) list" where
  "nv_entries nv = nv_map nv"

section \<open>Writing leaves the map alone\<close>

lemma write_entry_frame [simp]:
  "nv_map (snd (write_entry io k v nv)) = nv_map nv"
  "nv_db_path (snd (write_entry io k v nv)) = nv_db_path nv"
  "nv_persistent (snd (write_entry io k v nv)) = nv_persistent nv"
  by (simp_all add: write_entry_def split: io.split)

lemma write_removal_frame [simp]:
  "nv_map (snd (write_removal io k nv)) = nv_map nv"
  "nv_db_path (snd (write_removal io k nv)) = nv_db_path nv"
  "nv_persistent (snd (write_removal io k nv)) = nv_persistent nv"
  by (simp_all add: write_removal_def split: io.split)

lemma nv_flush_frame [simp]:
  "nv_map (snd (nv_flush io nv)) = nv_map nv"
  "nv_db_path (snd (nv_flush io nv)) = nv_db_path nv"
  "nv_persistent (snd (nv_flush io nv)) = nv_persistent nv"
  by (simp_all add: nv_flush_def split: io.split)

lemma nv_put_map [simp]:
  "nv_map (snd (nv_put io k v nv)) = (if k = [] then nv_map nv else hm_insert k v (nv_map nv))"
  by (simp add: nv_put_def Let_def)

lemma nv_remove_map [simp]:
  "nv_map (snd (nv_remove io k nv)) =
     (if hm_contains (nv_map nv) k then hm_remove k (nv_map nv) else nv_map nv)"
  by (simp add: nv_remove_def Let_def)

definition appended :: "string option \<Rightarrow> string \<Rightarrow> string" where
  "appended old v = (case old of Some e \<Rightarrow> e @ '':'' @ v | None \<Rightarrow> v)"

lemma nv_append_map [simp]:
  "nv_map (snd (nv_append io k v nv)) =
     (if k = [] then nv_map nv else hm_insert k (appended (hm_get (nv_map nv) k) v) (nv_map nv))"
  by (simp add: nv_append_def appended_def Let_def split: option.split)

text \<open>The value a compare-and-swap leaves, and the map it leaves.\<close>

definition swapped :: "string option \<Rightarrow> string \<Rightarrow> string \<Rightarrow> string" where
  "swapped old expected new =
     (case old of Some cur \<Rightarrow> if cur = expected then new else cur | None \<Rightarrow> new)"

lemma nv_compare_swap_result [simp]:
  "fst (nv_compare_swap io k e n nv) = Inr (swapped (hm_get (nv_map nv) k) e n)"
  by (simp add: nv_compare_swap_def swapped_def Let_def split: option.split)

lemma nv_compare_swap_get [simp]:
  "hm_get (nv_map (snd (nv_compare_swap io k e n nv)))
     = (hm_get (nv_map nv))(k \<mapsto> swapped (hm_get (nv_map nv) k) e n)"
  by (auto simp: nv_compare_swap_def swapped_def Let_def split: option.split)

lemma nv_wf [wf_intros]:
  assumes "hm_wf (nv_map nv)"
  shows "hm_wf (nv_map (snd (nv_put io k v nv)))"
    and "hm_wf (nv_map (snd (nv_remove io k nv)))"
    and "hm_wf (nv_map (snd (nv_append io k v nv)))"
    and "hm_wf (nv_map (snd (nv_compare_swap io k e n nv)))"
    and "hm_wf (nv_map (snd (nv_flush io nv)))"
  using assms by (auto simp: nv_compare_swap_def Let_def split: option.split)

section \<open>Refinement: a map, whatever the file system does\<close>

datatype nv_op =
    NPut io string string | NGet string | NContains string | NRemove io string
  | NAppend io string string | NCas io string string string | NLen | NIsEmpty | NFlush io

datatype nv_out =
    OUnit "unit zht_result" | OStr "string zht_result" | OBool bool | ONat nat

fun nv_step :: "nv_op \<Rightarrow> novoht \<Rightarrow> nv_out \<times> novoht" where
  "nv_step (NPut io k v) nv = map_prod OUnit id (nv_put io k v nv)"
| "nv_step (NGet k) nv = (OStr (nv_get k nv), nv)"
| "nv_step (NContains k) nv = (OBool (nv_contains k nv), nv)"
| "nv_step (NRemove io k) nv = map_prod OUnit id (nv_remove io k nv)"
| "nv_step (NAppend io k v) nv = map_prod OUnit id (nv_append io k v nv)"
| "nv_step (NCas io k e n) nv = map_prod OStr id (nv_compare_swap io k e n nv)"
| "nv_step NLen nv = (ONat (nv_len nv), nv)"
| "nv_step NIsEmpty nv = (OBool (nv_is_empty nv), nv)"
| "nv_step (NFlush io) nv = map_prod OUnit id (nv_flush io nv)"

text \<open>The specification: a map, and where it is kept. Only \<open>flush\<close> reports a file error.\<close>

type_synonym kv_spec = "(string \<rightharpoonup> string) \<times> bool \<times> string"

definition flush_answer :: "io \<Rightarrow> string \<Rightarrow> unit zht_result" where
  "flush_answer io path =
     (case io of
        Io_Ok \<Rightarrow> Inr ()
      | Io_Open_Err e \<Rightarrow> Inl (PersistenceError path (''failed to open file for flush: '' @ e))
      | Io_Write_Err _ e \<Rightarrow> Inl (PersistenceError path (''write failed during flush: '' @ e))
      | Io_Flush_Err _ e \<Rightarrow> Inl (PersistenceError path (''flush failed: '' @ e)))"

fun kv_step :: "nv_op \<Rightarrow> kv_spec \<Rightarrow> nv_out \<times> kv_spec" where
  "kv_step (NPut io k v) (m, p) =
     (if k = [] then (OUnit (Inl EmptyKey), (m, p)) else (OUnit (Inr ()), (m(k \<mapsto> v), p)))"
| "kv_step (NGet k) (m, p) =
     (OStr (case m k of None \<Rightarrow> Inl (KeyNotFound k) | Some v \<Rightarrow> Inr v), (m, p))"
| "kv_step (NContains k) (m, p) = (OBool (m k \<noteq> None), (m, p))"
| "kv_step (NRemove io k) (m, p) =
     (if m k = None then (OUnit (Inl (KeyNotFound k)), (m, p))
      else (OUnit (Inr ()), (m(k := None), p)))"
| "kv_step (NAppend io k v) (m, p) =
     (if k = [] then (OUnit (Inl EmptyKey), (m, p))
      else (OUnit (Inr ()), (m(k \<mapsto> appended (m k) v), p)))"
| "kv_step (NCas io k e n) (m, p) =
     (OStr (Inr (swapped (m k) e n)), (m(k \<mapsto> swapped (m k) e n), p))"
| "kv_step NLen (m, p) = (ONat (card (dom m)), (m, p))"
| "kv_step NIsEmpty (m, p) = (OBool (m = Map.empty), (m, p))"
| "kv_step (NFlush io) (m, (per, path)) =
     (OUnit (if per then flush_answer io path else Inr ()), (m, (per, path)))"

definition nv_abs :: "novoht \<Rightarrow> kv_spec" where
  "nv_abs nv = (hm_get (nv_map nv), nv_persistent nv, nv_db_path nv)"

definition nv_inv :: "novoht \<Rightarrow> bool" where
  "nv_inv nv \<longleftrightarrow> hm_wf (nv_map nv)"

lemma nv_frames:
  "nv_persistent (snd (nv_put io k v nv)) = nv_persistent nv"
  "nv_persistent (snd (nv_remove io k nv)) = nv_persistent nv"
  "nv_persistent (snd (nv_append io k v nv)) = nv_persistent nv"
  "nv_persistent (snd (nv_compare_swap io k e n nv)) = nv_persistent nv"
  "nv_db_path (snd (nv_put io k v nv)) = nv_db_path nv"
  "nv_db_path (snd (nv_remove io k nv)) = nv_db_path nv"
  "nv_db_path (snd (nv_append io k v nv)) = nv_db_path nv"
  "nv_db_path (snd (nv_compare_swap io k e n nv)) = nv_db_path nv"
  by (simp_all add: nv_put_def nv_remove_def nv_append_def nv_compare_swap_def Let_def
      split: option.split)

lemma nv_answers:
  "fst (nv_put io k v nv) = (if k = [] then Inl EmptyKey else Inr ())"
  "fst (nv_remove io k nv) = (if hm_contains (nv_map nv) k then Inr () else Inl (KeyNotFound k))"
  "fst (nv_append io k v nv) = (if k = [] then Inl EmptyKey else Inr ())"
  "fst (nv_flush io nv) = (if nv_persistent nv then flush_answer io (nv_db_path nv) else Inr ())"
  by (simp_all add: nv_put_def nv_remove_def nv_append_def nv_flush_def flush_answer_def Let_def
      split: io.split)

lemma hm_empty_iff: "m = [] \<longleftrightarrow> hm_get m = Map.empty"
  by (simp add: hm_get_map_of)

lemma map_prod_pair: "map_prod f g p = (f (fst p), g (snd p))"
  by (cases p) simp

interpretation nv: refinement nv_step nv_inv kv_step nv_abs
proof unfold_locales
  fix nv :: novoht and x
  assume inv: "nv_inv nv"
  then show "nv_inv (snd (nv_step x nv))"
    by (cases x) (simp_all add: nv_inv_def nv_wf del: nv_put_map nv_remove_map nv_append_map)
  from inv show "kv_step x (nv_abs nv) = map_prod id nv_abs (nv_step x nv)"
    by (cases x)
      (auto simp: nv_abs_def map_prod_pair nv_answers nv_frames nv_get_def nv_contains_def
        hm_contains_def nv_len_def nv_is_empty_def hm.len_keys nv_inv_def
        hm_empty_iff fun_eq_iff split: option.split)
qed

end
