(* ===== verification/Wire.thy ===== *)
theory Wire
  imports Zht_Common
begin

text \<open>
  Section A of \<open>zht-transport/src/lib.rs\<close>: the message \<open>ZPack\<close> (\<open>proto/zpack.proto\<close>), its
  length-prefixed frames, and reading and writing them on a stream. The protobuf codec is
  generated code over a library: it is a parameter, \<open>enc\<close> for \<open>encode_to_vec\<close> and \<open>dec\<close> for
  \<open>ZPack::decode\<close>, whose error is the text of the library's error. What a theorem relies on is
  that the messages it speaks of decode to themselves.
\<close>

section \<open>ZPack\<close>

record zpack =
  zp_opcode :: "u8 list"
  zp_key :: "u8 list"
  zp_val :: "u8 list"
  zp_newval :: "u8 list"
  zp_lease :: "u8 list"
  zp_valnull :: bool
  zp_newvalnull :: bool
  zp_replicanum :: "32 word"

definition ZPack_default :: zpack where
  "ZPack_default =
     \<lparr>zp_opcode = [], zp_key = [], zp_val = [], zp_newval = [], zp_lease = [],
      zp_valnull = False, zp_newvalnull = False, zp_replicanum = 0\<rparr>"

type_synonym encoder = "zpack \<Rightarrow> u8 list"
type_synonym decoder = "u8 list \<Rightarrow> string + zpack"

section \<open>Frames\<close>

definition encode_message :: "encoder \<Rightarrow> zpack \<Rightarrow> u8 list" where
  "encode_message enc z =
     (let msg_bytes = enc z;
          len = of_nat (length msg_bytes) :: u32
      in to_be_bytes len @ msg_bytes)"

definition frame_len :: "u8 list \<Rightarrow> nat" where
  "frame_len buf = unat (from_be_bytes (buf ! 0) (buf ! 1) (buf ! 2) (buf ! 3))"

definition too_short_msg :: string where
  "too_short_msg = ''Message too short: need at least 4 bytes for length prefix''"

definition incomplete_msg :: "nat \<Rightarrow> nat \<Rightarrow> string" where
  "incomplete_msg expected got =
     ''Incomplete message: expected '' @ show_nat expected @ '' bytes, got '' @ show_nat got"

definition decode_message :: "decoder \<Rightarrow> u8 list \<Rightarrow> (zpack \<times> u8 list) zht_result" where
  "decode_message dec buf =
     (if length buf < 4 then Inl (RecvFailed too_short_msg)
      else
        let len = frame_len buf in
        if length buf < 4 + len then Inl (RecvFailed (incomplete_msg (4 + len) (length buf)))
        else case dec (take len (drop 4 buf)) of
               Inl e \<Rightarrow> Inl (ProtobufDecodeError e)
             | Inr z \<Rightarrow> Inr (z, drop (4 + len) buf))"

lemma length_encode_message: "length (encode_message enc z) = 4 + length (enc z)"
  by (simp add: encode_message_def Let_def)

lemma to_be_bytes_append: "take 4 (to_be_bytes w @ r) = to_be_bytes w" "drop 4 (to_be_bytes w @ r) = r"
  using length_to_be_bytes [of w] by simp_all

lemma frame_len_prefix: "frame_len (to_be_bytes w @ r) = unat w"
  by (simp add: frame_len_def to_be_bytes_def be_bytes_round)

lemma unat_frame_word: "n < 2 ^ 32 \<Longrightarrow> unat (of_nat n :: u32) = n"
  by (simp add: unat_of_nat)

lemma frame_len_encode:
  "length (enc z) < 2 ^ 32 \<Longrightarrow> frame_len (encode_message enc z @ r) = length (enc z)"
  unfolding encode_message_def Let_def append_assoc frame_len_prefix by (rule unat_frame_word)

lemma decode_encode_bytes:
  assumes "length (enc z) < 2 ^ 32"
  shows "decode_message dec (encode_message enc z @ r) =
     (case dec (enc z) of Inl e \<Rightarrow> Inl (ProtobufDecodeError e) | Inr y \<Rightarrow> Inr (y, r))"
proof -
  have split: "decode_message dec (h @ p @ r) =
     (case dec p of Inl e \<Rightarrow> Inl (ProtobufDecodeError e) | Inr y \<Rightarrow> Inr (y, r))"
    if "length h = 4" "frame_len (h @ p @ r) = length p" for h p
    using that by (simp add: decode_message_def Let_def split: sum.split)
  have e: "encode_message enc z @ r = to_be_bytes (of_nat (length (enc z))) @ enc z @ r"
    by (simp add: encode_message_def Let_def)
  show ?thesis
    using frame_len_encode [of enc z r] assms unfolding e by (intro split) simp_all
qed

lemma decode_encode:
  assumes "length (enc z) < 2 ^ 32" "dec (enc z) = Inr z"
  shows "decode_message dec (encode_message enc z @ r) = Inr (z, r)"
  by (simp add: decode_encode_bytes [where enc = enc and z = z, OF assms(1)] assms(2))

text \<open>A proper prefix of a frame is never taken for a message.\<close>

lemma decode_prefix:
  assumes "length (enc z) < 2 ^ 32" "n < length (encode_message enc z)"
  shows "decode_message dec (take n (encode_message enc z)) =
     Inl (RecvFailed (if n < 4 then too_short_msg else incomplete_msg (4 + length (enc z)) n))"
proof (cases "n < 4")
  case False
  let ?w = "of_nat (length (enc z)) :: u32"
  have "take n (encode_message enc z) = to_be_bytes ?w @ take (n - 4) (enc z)"
    using False by (simp add: encode_message_def Let_def)
  then have "frame_len (take n (encode_message enc z)) = length (enc z)"
    by (simp only: frame_len_prefix unat_frame_word [OF assms(1)])
  with False assms show ?thesis
    by (simp add: decode_message_def length_encode_message Let_def)
qed (use assms in \<open>simp add: decode_message_def\<close>)

text \<open>What a decoded buffer was: a prefix of exactly the announced length.\<close>

lemma decode_message_Inr:
  assumes "decode_message dec buf = Inr (z, r)"
  shows "4 \<le> length buf" "4 + frame_len buf \<le> length buf"
    and "dec (take (frame_len buf) (drop 4 buf)) = Inr z" "r = drop (4 + frame_len buf) buf"
  using assms by (auto simp: decode_message_def Let_def split: if_splits sum.splits)

lemma decode_message_rest: "decode_message dec buf = Inr (z, r) \<Longrightarrow> length r + 4 \<le> length buf"
  using decode_message_Inr [of dec buf z r] by simp

text \<open>The length is taken modulo \<open>2 ^ 32\<close>: a longer payload is announced as its remainder.\<close>

lemma frame_len_wraps:
  "frame_len (encode_message enc z @ r) = length (enc z) mod 2 ^ 32"
  unfolding encode_message_def Let_def append_assoc frame_len_prefix by (simp add: unat_of_nat)

section \<open>Streams\<close>

text \<open>
  The bytes that will arrive on a stream, and the text of the error a read reports once they
  are used up (end of file, reset, ...).
\<close>

record rstream =
  rs_bytes :: "u8 list"
  rs_end :: string

definition read_exact :: "nat \<Rightarrow> rstream \<Rightarrow> (string + u8 list) \<times> rstream" where
  "read_exact n s =
     (if n \<le> length (rs_bytes s)
      then (Inr (take n (rs_bytes s)), s\<lparr>rs_bytes := drop n (rs_bytes s)\<rparr>)
      else (Inl (rs_end s), s\<lparr>rs_bytes := []\<rparr>))"

definition recv_message :: "decoder \<Rightarrow> rstream \<Rightarrow> zpack zht_result \<times> rstream" where
  "recv_message dec s =
     (case read_exact 4 s of
        (Inl e, s1) \<Rightarrow> (Inl (RecvFailed e), s1)
      | (Inr len_buf, s1) \<Rightarrow>
          (case read_exact (frame_len len_buf) s1 of
             (Inl e, s2) \<Rightarrow> (Inl (RecvFailed e), s2)
           | (Inr msg_buf, s2) \<Rightarrow>
               (case dec msg_buf of
                  Inl e \<Rightarrow> (Inl (ProtobufDecodeError e), s2)
                | Inr z \<Rightarrow> (Inr z, s2))))"

text \<open>What the system answers to \<open>write_all\<close> and \<open>flush\<close>, and the bytes written so far.\<close>

datatype wio = Wio_Ok | Wio_Write_Err nat string | Wio_Flush_Err string

definition send_message :: "encoder \<Rightarrow> wio \<Rightarrow> zpack \<Rightarrow> u8 list \<Rightarrow> unit zht_result \<times> u8 list" where
  "send_message enc w z out =
     (let data = encode_message enc z in
      case w of
        Wio_Ok \<Rightarrow> (Inr (), out @ data)
      | Wio_Write_Err n e \<Rightarrow> (Inl (SendFailed e), out @ take n data)
      | Wio_Flush_Err e \<Rightarrow> (Inl (SendFailed e), out @ data))"

lemma frame_len_take: "4 \<le> length b \<Longrightarrow> frame_len (take 4 b) = frame_len b"
  by (simp add: frame_len_def)

text \<open>Reading from a stream is decoding the buffer of what arrives.\<close>

lemma recv_decode:
  "recv_message dec s =
     (case decode_message dec (rs_bytes s) of
        Inr (z, r) \<Rightarrow> (Inr z, s\<lparr>rs_bytes := r\<rparr>)
      | Inl (ProtobufDecodeError e) \<Rightarrow>
          (Inl (ProtobufDecodeError e), s\<lparr>rs_bytes := drop (4 + frame_len (rs_bytes s)) (rs_bytes s)\<rparr>)
      | Inl _ \<Rightarrow> (Inl (RecvFailed (rs_end s)), s\<lparr>rs_bytes := []\<rparr>))"
proof (cases "length (rs_bytes s) < 4")
  case False
  let ?b = "rs_bytes s" and ?len = "frame_len (rs_bytes s)"
  have "recv_message dec s =
     (case read_exact ?len (s\<lparr>rs_bytes := drop 4 ?b\<rparr>) of
        (Inl e, s2) \<Rightarrow> (Inl (RecvFailed e), s2)
      | (Inr msg_buf, s2) \<Rightarrow>
          (case dec msg_buf of
             Inl e \<Rightarrow> (Inl (ProtobufDecodeError e), s2) | Inr z \<Rightarrow> (Inr z, s2)))"
    using False by (simp add: recv_message_def read_exact_def [of 4] frame_len_take)
  with False show ?thesis
    by (cases "length ?b < 4 + ?len"; cases "dec (take ?len (drop 4 ?b))")
      (auto simp: read_exact_def decode_message_def Let_def add.commute)
qed (simp add: recv_message_def read_exact_def decode_message_def)

lemma recv_sent:
  assumes "length (enc z) < 2 ^ 32" "dec (enc z) = Inr z" "rs_bytes s = encode_message enc z @ r"
  shows "recv_message dec s = (Inr z, s\<lparr>rs_bytes := r\<rparr>)"
  by (simp add: recv_decode assms(3) decode_encode [of enc z dec r, OF assms(1,2)])

text \<open>
  The first byte of an encoded message is a field's tag, 8 at least, and read as a length it
  announces \<open>2 ^ 27\<close> bytes or more.
\<close>

lemma tag_not_frame:
  assumes "8 \<le> unat (hd bytes)" "4 \<le> length bytes" "length bytes < 2 ^ 27"
  shows "isl (decode_message dec bytes)"
proof -
  have "Suc (Suc (Suc (Suc 0))) \<le> length bytes" using assms(2) by simp
  then obtain a b c d r where b: "bytes = a # b # c # d # r"
    unfolding Suc_le_length_iff by blast
  have "2 ^ 27 \<le> unat (from_be_bytes a b c d)"
    using assms(1) by (simp add: unat_from_be_bytes b)
  then show ?thesis using assms(3) by (simp add: decode_message_def Let_def frame_len_def b)
qed

section \<open>A stream of messages\<close>

text \<open>
  Reading messages until the first failure, which is what both ends of a connection do. Each
  message takes at least its prefix, so the recursion ends.
\<close>

function recv_all :: "decoder \<Rightarrow> rstream \<Rightarrow> zpack list \<times> zht_error" where
  "recv_all dec s =
     (case decode_message dec (rs_bytes s) of
        Inr (z, r) \<Rightarrow>
          (z # fst (recv_all dec (s\<lparr>rs_bytes := r\<rparr>)), snd (recv_all dec (s\<lparr>rs_bytes := r\<rparr>)))
      | Inl (ProtobufDecodeError e) \<Rightarrow> ([], ProtobufDecodeError e)
      | Inl _ \<Rightarrow> ([], RecvFailed (rs_end s)))"
  by pat_completeness auto
termination
  by (relation "measure (\<lambda>(dec, s). length (rs_bytes s))")
    (auto dest!: decode_message_rest)

declare recv_all.simps [simp del]

definition clean_codec :: "encoder \<Rightarrow> decoder \<Rightarrow> zpack \<Rightarrow> bool" where
  "clean_codec enc dec z \<longleftrightarrow> length (enc z) < 2 ^ 32 \<and> dec (enc z) = Inr z"

lemma recv_all_sent:
  assumes "list_all (clean_codec enc dec) zs"
    and "rs_bytes s = concat (map (encode_message enc) zs) @ r"
  shows "recv_all dec s =
     (zs @ fst (recv_all dec (s\<lparr>rs_bytes := r\<rparr>)), snd (recv_all dec (s\<lparr>rs_bytes := r\<rparr>)))"
  using assms
proof (induction zs arbitrary: s)
  case (Cons z zs)
  let ?b = "concat (map (encode_message enc) zs) @ r"
  have "decode_message dec (rs_bytes s) = Inr (z, ?b)"
    using Cons.prems decode_encode [of enc z dec ?b] by (simp add: clean_codec_def)
  moreover have "recv_all dec (s\<lparr>rs_bytes := ?b\<rparr>) =
     (zs @ fst (recv_all dec (s\<lparr>rs_bytes := r\<rparr>)), snd (recv_all dec (s\<lparr>rs_bytes := r\<rparr>)))"
    using Cons.IH [of "s\<lparr>rs_bytes := ?b\<rparr>"] Cons.prems(1) by simp
  ultimately show ?case by (subst recv_all.simps) simp
qed (simp, metis rstream.surjective rstream.update_convs(1))

section \<open>A sample codec\<close>

text \<open>
  A codec that decodes every message it encodes, on which the hypotheses about \<open>enc\<close> and \<open>dec\<close>
  can be discharged: each byte string is preceded by its length in unary.
\<close>

definition sample_field :: "u8 list \<Rightarrow> u8 list" where
  "sample_field b = replicate (length b) 1 @ 0 # b"

definition sample_take :: "u8 list \<Rightarrow> u8 list \<times> u8 list" where
  "sample_take bs =
     (let n = length (takeWhile (\<lambda>b. b = 1) bs); r = drop (Suc n) bs in (take n r, drop n r))"

definition sample_enc :: encoder where
  "sample_enc z =
     sample_field (zp_opcode z) @ sample_field (zp_key z) @ sample_field (zp_val z)
     @ sample_field (zp_newval z) @ sample_field (zp_lease z)
     @ of_bool (zp_valnull z) # of_bool (zp_newvalnull z) # to_be_bytes (zp_replicanum z)"

definition sample_dec :: decoder where
  "sample_dec bs =
     (let (opcode, bs1) = sample_take bs; (key, bs2) = sample_take bs1;
          (val, bs3) = sample_take bs2; (newval, bs4) = sample_take bs3;
          (lease, bs5) = sample_take bs4
      in if length bs5 < 6 then Inl ''buffer underflow''
         else Inr \<lparr>zp_opcode = opcode, zp_key = key, zp_val = val, zp_newval = newval,
           zp_lease = lease, zp_valnull = (bs5 ! 0 \<noteq> 0), zp_newvalnull = (bs5 ! 1 \<noteq> 0),
           zp_replicanum = from_be_bytes (bs5 ! 2) (bs5 ! 3) (bs5 ! 4) (bs5 ! 5)\<rparr>)"

lemma sample_take_field: "sample_take (sample_field b @ r) = (b, r)"
proof -
  have "takeWhile (\<lambda>x. x = 1) (replicate n 1 @ 0 # s) = replicate n (1 :: u8)" for n s
    by (induction n) simp_all
  then show ?thesis by (simp add: sample_take_def sample_field_def Let_def)
qed

lemma sample_dec_enc: "sample_dec (sample_enc z) = Inr z"
  by (simp add: sample_enc_def sample_dec_def sample_take_field to_be_bytes_def be_bytes_round)

lemma length_sample_enc:
  "length (sample_enc z) = 2 * (length (zp_opcode z) + length (zp_key z) + length (zp_val z)
     + length (zp_newval z) + length (zp_lease z)) + 11"
  by (simp add: sample_enc_def sample_field_def)

lemma sample_clean [simp]:
  "clean_codec sample_enc sample_dec z \<longleftrightarrow>
     2 * (length (zp_opcode z) + length (zp_key z) + length (zp_val z) + length (zp_newval z)
       + length (zp_lease z)) + 11 < 2 ^ 32"
  by (simp only: clean_codec_def sample_dec_enc length_sample_enc) simp

section \<open>Properties\<close>

text \<open>
  C16. A framed message is read back as it was written, and the bytes behind its frame are
  left: \<open>decode_message\<close> inverts \<open>encode_message\<close> for every message
  that the codec encodes in fewer than \<open>2 ^ 32\<close> bytes and decodes to itself; a
  longer one does not fit the length prefix.
\<close>

theorem frame_round_trip:
  assumes "clean_codec enc dec z"
  shows "decode_message dec (encode_message enc z @ rest) = Inr (z, rest)"
  using assms decode_encode [of enc z dec rest] by (simp add: clean_codec_def)

theorem frame_round_trip_witness:
  "decode_message sample_dec (encode_message sample_enc ZPack_default @ [7]) = Inr (ZPack_default, [7])"
  by (rule frame_round_trip) (simp add: ZPack_default_def)

text \<open>
  The length prefix has 32 bits, and nothing checks that the payload fits: a payload is
  read as its first bytes, as many as its length modulo \<open>2 ^ 32\<close>, and what is left of it is taken
  for what follows the frame.
\<close>

lemma frame_length_wraps:
  "decode_message dec (encode_message enc z @ r) =
     (let n = length (enc z) mod 2 ^ 32 in
      case dec (take n (enc z @ r)) of
        Inl e \<Rightarrow> Inl (ProtobufDecodeError e)
      | Inr y \<Rightarrow> Inr (y, drop n (enc z @ r)))"
proof -
  let ?n = "length (enc z) mod 2 ^ 32"
  have "?n \<le> length (enc z)" by (rule mod_less_eq_dividend)
  then have "\<not> length (encode_message enc z @ r) < 4 + ?n"
    by (simp add: length_encode_message del: mod_less_eq_dividend)
  moreover have "drop (4 + k) (encode_message enc z @ r) = drop k (enc z @ r)" for k
    by (simp add: encode_message_def Let_def)
  then have "drop 4 (encode_message enc z @ r) = enc z @ r"
    and "drop (4 + ?n) (encode_message enc z @ r) = drop ?n (enc z @ r)"
    by (metis add_0_right drop0, blast)
  moreover have "\<not> length (encode_message enc z @ r) < 4" by (simp add: length_encode_message)
  ultimately show ?thesis
    by (simp only: decode_message_def frame_len_wraps Let_def if_False)
qed

text \<open>
  A stream of frames that ends inside a frame gives its messages, in order, and then the
  error of the broken read; the started frame gives nothing.
\<close>

lemma stream_of_frames:
  assumes "list_all (clean_codec enc dec) zs"
    and "length (enc z) < 2 ^ 32" "n < length (encode_message enc z)"
  shows "recv_all dec
      \<lparr>rs_bytes = concat (map (encode_message enc) zs) @ take n (encode_message enc z), rs_end = e\<rparr>
    = (zs, RecvFailed e)"
proof -
  let ?last = "\<lparr>rs_bytes = take n (encode_message enc z), rs_end = e\<rparr>"
  have "recv_all dec ?last = ([], RecvFailed e)"
    using decode_prefix [OF assms(2,3), of dec] by (subst recv_all.simps) simp
  then show ?thesis
    using recv_all_sent [OF assms(1), of "\<lparr>rs_bytes = concat (map (encode_message enc) zs)
        @ take n (encode_message enc z), rs_end = e\<rparr>"] by simp
qed

end
