(* ===== verification/Worker.thy ===== *)
theory Worker
  imports Novoht Wire
begin

text \<open>
  Section C of \<open>zht-transport/src/lib.rs\<close>: \<open>HTWorker\<close>, which serves one request against the
  NoVoHT store and counts what it did; and the same processor without counters in
  \<open>zht-transport/src/worker.rs\<close>. Counters are 64-bit and wrap.

  One call of \<open>process\<close> gets what its surroundings answer: the file system's answer to the one
  write it may make, the store as each poll of a state-change callback finds it (other
  connections go on changing it while the callback sleeps), and the readings of the clock, in
  milliseconds: reading 0 sets the deadline, reading \<open>i + 1\<close> follows poll \<open>i\<close>.
\<close>

section \<open>State\<close>

record worker_metrics =
  wm_total_operations :: u64
  wm_total_errors :: u64
  wm_insert_count :: u64
  wm_insert_errors :: u64
  wm_lookup_count :: u64
  wm_lookup_errors :: u64
  wm_remove_count :: u64
  wm_remove_errors :: u64
  wm_append_count :: u64
  wm_append_errors :: u64
  wm_compare_swap_count :: u64
  wm_compare_swap_errors :: u64
  wm_state_change_callback_count :: u64
  wm_state_change_callback_errors :: u64
  wm_unrecognized_count :: u64

definition worker_metrics_default :: worker_metrics where
  "worker_metrics_default =
     \<lparr>wm_total_operations = 0, wm_total_errors = 0, wm_insert_count = 0, wm_insert_errors = 0,
      wm_lookup_count = 0, wm_lookup_errors = 0, wm_remove_count = 0, wm_remove_errors = 0,
      wm_append_count = 0, wm_append_errors = 0, wm_compare_swap_count = 0,
      wm_compare_swap_errors = 0, wm_state_change_callback_count = 0,
      wm_state_change_callback_errors = 0, wm_unrecognized_count = 0\<rparr>"

record htworker =
  hw_store :: novoht
  hw_metrics :: worker_metrics

definition HTWorker_new :: "novoht \<Rightarrow> htworker" where
  "HTWorker_new store = \<lparr>hw_store = store, hw_metrics = worker_metrics_default\<rparr>"

record serve_env =
  se_io :: io
  se_views :: "nat \<Rightarrow> novoht"
  se_clock :: "nat \<Rightarrow> nat"

text \<open>\<open>m.<counter> += 1\<close>, with the counter named by its update function.\<close>

definition inc :: "((u64 \<Rightarrow> u64) \<Rightarrow> worker_metrics \<Rightarrow> worker_metrics) \<Rightarrow> htworker \<Rightarrow> htworker" where
  "inc counter w = w\<lparr>hw_metrics := counter (\<lambda>n. n + 1) (hw_metrics w)\<rparr>"

section \<open>The poll loop of a state-change callback\<close>

text \<open>Returns the status and the number of the poll that decided; None stands for no return.\<close>

partial_function (option) sccb_poll ::
  "(nat \<Rightarrow> novoht) \<Rightarrow> (nat \<Rightarrow> nat) \<Rightarrow> string \<Rightarrow> string \<Rightarrow> nat \<Rightarrow> nat \<Rightarrow> (u8 list \<times> nat) option"
where
  "sccb_poll views clock key expected deadline i =
     (if nv_get key (views i) = Inr expected then Some (as_bytes REC_SUCC, i)
      else if deadline \<le> clock (Suc i) then Some (as_bytes REC_SCCBPOLLTRY, i)
      else sccb_poll views clock key expected deadline (Suc i))"

definition lease_of :: "zpack \<Rightarrow> nat" where
  "lease_of req =
     (case parse_uint u64_max (from_utf8_lossy (zp_lease req)) of
        Inl _ \<Rightarrow> SCCB_POLL_DEFAULT_INTERVAL
      | Inr n \<Rightarrow> n)"

section \<open>The operations\<close>

definition start_response :: "zpack \<Rightarrow> zpack" where
  "start_response req = ZPack_default\<lparr>zp_opcode := zp_opcode req, zp_key := zp_key req\<rparr>"

definition empty_key_errors :: "string \<Rightarrow> htworker \<Rightarrow> htworker" where
  "empty_key_errors opcode w =
     (if opcode = OPC_LOOKUP then inc wm_lookup_errors_update w
      else if opcode = OPC_INSERT then inc wm_insert_errors_update w
      else if opcode = OPC_REMOVE then inc wm_remove_errors_update w
      else if opcode = OPC_APPEND then inc wm_append_errors_update w
      else if opcode = OPC_CMPSWP then inc wm_compare_swap_errors_update w
      else if opcode = OPC_STCHGCB then inc wm_state_change_callback_errors_update w
      else w)"

definition process_lookup :: "string \<Rightarrow> zpack \<Rightarrow> htworker \<Rightarrow> zpack \<times> htworker" where
  "process_lookup key response w0 =
     (let w = inc wm_lookup_count_update w0 in
      case nv_get key (hw_store w) of
        Inr val \<Rightarrow>
          (response\<lparr>zp_val := as_bytes val, zp_valnull := False,
             zp_lease := as_bytes (REC_SUCC @ val)\<rparr>, w)
      | Inl _ \<Rightarrow>
          (response\<lparr>zp_valnull := True, zp_lease := as_bytes REC_NONEXISTKEY\<rparr>,
           inc wm_total_errors_update (inc wm_lookup_errors_update w)))"

definition process_insert :: "io \<Rightarrow> zpack \<Rightarrow> string \<Rightarrow> zpack \<Rightarrow> htworker \<Rightarrow> zpack \<times> htworker" where
  "process_insert io request key response w0 =
     (let w = inc wm_insert_count_update w0;
          val = from_utf8_lossy (zp_val request);
          r = nv_put io key val (hw_store w);
          w1 = w\<lparr>hw_store := snd r\<rparr>
      in case fst r of
           Inr _ \<Rightarrow> (response\<lparr>zp_lease := as_bytes REC_SUCC\<rparr>, w1)
         | Inl _ \<Rightarrow>
             (response\<lparr>zp_lease := as_bytes REC_SRVFAIL\<rparr>,
              inc wm_total_errors_update (inc wm_insert_errors_update w1)))"

definition process_remove :: "io \<Rightarrow> string \<Rightarrow> zpack \<Rightarrow> htworker \<Rightarrow> zpack \<times> htworker" where
  "process_remove io key response w0 =
     (let w = inc wm_remove_count_update w0;
          r = nv_remove io key (hw_store w);
          w1 = w\<lparr>hw_store := snd r\<rparr>
      in case fst r of
           Inr _ \<Rightarrow> (response\<lparr>zp_lease := as_bytes REC_SUCC\<rparr>, w1)
         | Inl _ \<Rightarrow>
             (response\<lparr>zp_lease := as_bytes REC_NONEXISTKEY\<rparr>,
              inc wm_total_errors_update (inc wm_remove_errors_update w1)))"

definition process_append :: "io \<Rightarrow> zpack \<Rightarrow> string \<Rightarrow> zpack \<Rightarrow> htworker \<Rightarrow> zpack \<times> htworker" where
  "process_append io request key response w0 =
     (let w = inc wm_append_count_update w0;
          val = from_utf8_lossy (zp_val request);
          r = nv_append io key val (hw_store w);
          w1 = w\<lparr>hw_store := snd r\<rparr>
      in case fst r of
           Inr _ \<Rightarrow> (response\<lparr>zp_lease := as_bytes REC_SUCC\<rparr>, w1)
         | Inl _ \<Rightarrow>
             (response\<lparr>zp_lease := as_bytes REC_SRVFAIL\<rparr>,
              inc wm_total_errors_update (inc wm_append_errors_update w1)))"

definition process_cmpswp :: "io \<Rightarrow> zpack \<Rightarrow> string \<Rightarrow> zpack \<Rightarrow> htworker \<Rightarrow> zpack \<times> htworker" where
  "process_cmpswp io request key response w0 =
     (let w = inc wm_compare_swap_count_update w0;
          expected = from_utf8_lossy (zp_val request);
          new_val = from_utf8_lossy (zp_newval request);
          r = nv_compare_swap io key expected new_val (hw_store w);
          w1 = w\<lparr>hw_store := snd r\<rparr>;
          failed = inc wm_total_errors_update (inc wm_compare_swap_errors_update w1)
      in case fst r of
           Inr actual \<Rightarrow>
             if actual = new_val then (response\<lparr>zp_lease := as_bytes REC_SUCC\<rparr>, w1)
             else
               (response\<lparr>zp_val := as_bytes actual, zp_valnull := False,
                  zp_lease := as_bytes REC_CLTFAIL\<rparr>, failed)
         | Inl _ \<Rightarrow> (response\<lparr>zp_lease := as_bytes REC_NONEXISTKEY\<rparr>, failed))"

definition process_stchgcb ::
  "serve_env \<Rightarrow> zpack \<Rightarrow> string \<Rightarrow> zpack \<Rightarrow> htworker \<Rightarrow> (zpack \<times> htworker) option"
where
  "process_stchgcb env request key response w0 =
     (let w = inc wm_state_change_callback_count_update w0;
          expected = from_utf8_lossy (zp_val request);
          deadline = se_clock env 0 + lease_of request
      in case sccb_poll (se_views env) (se_clock env) key expected deadline 0 of
           None \<Rightarrow> None
         | Some (status, n) \<Rightarrow>
             let w1 = w\<lparr>hw_store := se_views env n\<rparr>; response1 = response\<lparr>zp_lease := status\<rparr>
             in Some (response1,
                  if zp_lease response1 = as_bytes REC_SCCBPOLLTRY
                  then inc wm_total_errors_update (inc wm_state_change_callback_errors_update w1)
                  else w1))"

definition process_unrecognized :: "zpack \<Rightarrow> htworker \<Rightarrow> zpack \<times> htworker" where
  "process_unrecognized response w =
     (response\<lparr>zp_lease := as_bytes REC_UOPC\<rparr>,
      inc wm_total_errors_update (inc wm_unrecognized_count_update w))"

definition process :: "serve_env \<Rightarrow> zpack \<Rightarrow> htworker \<Rightarrow> (zpack \<times> htworker) option" where
  "process env request w0 =
     (let opcode = from_utf8_lossy (zp_opcode request);
          key = from_utf8_lossy (zp_key request);
          response = start_response request;
          w = inc wm_total_operations_update w0
      in if key = [] then
           Some (response\<lparr>zp_lease := as_bytes REC_EMPTYKEY\<rparr>,
                 empty_key_errors opcode (inc wm_total_errors_update w))
         else if opcode = OPC_LOOKUP then Some (process_lookup key response w)
         else if opcode = OPC_INSERT then Some (process_insert (se_io env) request key response w)
         else if opcode = OPC_REMOVE then Some (process_remove (se_io env) key response w)
         else if opcode = OPC_APPEND then Some (process_append (se_io env) request key response w)
         else if opcode = OPC_CMPSWP then Some (process_cmpswp (se_io env) request key response w)
         else if opcode = OPC_STCHGCB then process_stchgcb env request key response w
         else Some (process_unrecognized response w))"

text \<open>\<open>process\<close> of \<open>worker.rs\<close>, on the bare store.\<close>

definition process_plain :: "serve_env \<Rightarrow> zpack \<Rightarrow> novoht \<Rightarrow> (zpack \<times> novoht) option" where
  "process_plain env request st =
     (let opcode = from_utf8_lossy (zp_opcode request);
          key = from_utf8_lossy (zp_key request);
          response = start_response request;
          answer = (\<lambda>status. response\<lparr>zp_lease := as_bytes status\<rparr>)
      in if key = [] then Some (answer REC_EMPTYKEY, st)
         else if opcode = OPC_LOOKUP then
           (case nv_get key st of
              Inr val \<Rightarrow>
                Some (response\<lparr>zp_val := as_bytes val, zp_valnull := False,
                        zp_lease := as_bytes (REC_SUCC @ val)\<rparr>, st)
            | Inl _ \<Rightarrow>
                Some (response\<lparr>zp_valnull := True, zp_lease := as_bytes REC_NONEXISTKEY\<rparr>, st))
         else if opcode = OPC_INSERT then
           (let r = nv_put (se_io env) key (from_utf8_lossy (zp_val request)) st in
            case fst r of
              Inr _ \<Rightarrow> Some (answer REC_SUCC, snd r)
            | Inl _ \<Rightarrow> Some (answer REC_SRVFAIL, snd r))
         else if opcode = OPC_REMOVE then
           (let r = nv_remove (se_io env) key st in
            case fst r of
              Inr _ \<Rightarrow> Some (answer REC_SUCC, snd r)
            | Inl _ \<Rightarrow> Some (answer REC_NONEXISTKEY, snd r))
         else if opcode = OPC_APPEND then
           (let r = nv_append (se_io env) key (from_utf8_lossy (zp_val request)) st in
            case fst r of
              Inr _ \<Rightarrow> Some (answer REC_SUCC, snd r)
            | Inl _ \<Rightarrow> Some (answer REC_SRVFAIL, snd r))
         else if opcode = OPC_CMPSWP then
           (let expected = from_utf8_lossy (zp_val request);
                new_val = from_utf8_lossy (zp_newval request);
                r = nv_compare_swap (se_io env) key expected new_val st
            in case fst r of
                 Inr actual \<Rightarrow>
                   if actual = new_val then Some (answer REC_SUCC, snd r)
                   else Some (response\<lparr>zp_val := as_bytes actual, zp_valnull := False,
                               zp_lease := as_bytes REC_CLTFAIL\<rparr>, snd r)
               | Inl _ \<Rightarrow> Some (answer REC_NONEXISTKEY, snd r))
         else if opcode = OPC_STCHGCB then
           (case sccb_poll (se_views env) (se_clock env) key (from_utf8_lossy (zp_val request))
                   (se_clock env 0 + lease_of request) 0 of
              None \<Rightarrow> None
            | Some (status, n) \<Rightarrow> Some (response\<lparr>zp_lease := status\<rparr>, se_views env n))
         else Some (answer REC_UOPC, st))"

section \<open>Counters and store do not touch each other\<close>

lemma inc_store [simp]: "hw_store (inc c w) = hw_store w"
  by (simp add: inc_def)

lemma inc_set_store [simp]: "hw_store_update f (inc c w) = inc c (hw_store_update f w)"
  by (simp add: inc_def)

lemma empty_key_errors_store [simp]: "hw_store (empty_key_errors opcode w) = hw_store w"
  by (simp add: empty_key_errors_def)

lemmas process_defs =
  process_lookup_def process_insert_def process_remove_def process_append_def
  process_cmpswp_def process_unrecognized_def

text \<open>
  C19. The two processors agree: \<open>process\<close> of \<open>worker.rs\<close>, on the bare store, gives the same
  answers and leaves the same store as \<open>process\<close> of \<open>lib.rs\<close>, which also counts; one returns
  exactly when the other does.
\<close>

theorem process_plain_agrees:
  "process_plain env req (hw_store w) = map_option (map_prod id hw_store) (process env req w)"
  by (simp add: process_plain_def process_def process_defs process_stchgcb_def Let_def
      split: sum.split prod.split option.split)

section \<open>The poll loop\<close>

text \<open>Poll \<open>n\<close> is the first, from \<open>i\<close> on, at which the loop may stop; it answers \<open>st\<close>.\<close>

definition poll_ends ::
  "(nat \<Rightarrow> novoht) \<Rightarrow> (nat \<Rightarrow> nat) \<Rightarrow> string \<Rightarrow> string \<Rightarrow> nat \<Rightarrow> nat \<Rightarrow> u8 list \<Rightarrow> nat \<Rightarrow> bool"
where
  "poll_ends views clock key e d i st n \<longleftrightarrow>
     i \<le> n \<and>
     (\<forall>j. i \<le> j \<and> j < n \<longrightarrow> nv_get key (views j) \<noteq> Inr e \<and> clock (Suc j) < d) \<and>
     (if nv_get key (views n) = Inr e then st = as_bytes REC_SUCC
      else st = as_bytes REC_SCCBPOLLTRY \<and> d \<le> clock (Suc n))"

lemma poll_ends_Suc:
  assumes "nv_get key (views i) \<noteq> Inr e" "clock (Suc i) < d" "poll_ends views clock key e d (Suc i) st n"
  shows "poll_ends views clock key e d i st n"
proof -
  have "i \<le> j \<and> j < n \<longrightarrow> j = i \<or> Suc i \<le> j \<and> j < n" for j by auto
  with assms show ?thesis unfolding poll_ends_def by (metis Suc_leD)
qed

lemma sccb_poll_sound:
  assumes "sccb_poll views clock key e d i = Some r"
  shows "poll_ends views clock key e d i (fst r) (snd r)"
proof (rule sccb_poll.raw_induct [where P = "\<lambda>v c k x y j r. poll_ends v c k x y j (fst r) (snd r)"])
  fix rec views clock key e d i r
  assume IH: "\<And>v c k x y j r. rec v c k x y j = Some r \<Longrightarrow> poll_ends v c k x y j (fst r) (snd r)"
    and eq: "(if nv_get key (views i) = Inr e then Some (as_bytes REC_SUCC, i)
       else if d \<le> clock (Suc i) then Some (as_bytes REC_SCCBPOLLTRY, i)
       else rec views clock key e d (Suc i)) = Some r"
  show "poll_ends views clock key e d i (fst r) (snd r)"
  proof (cases "nv_get key (views i) = Inr e \<or> d \<le> clock (Suc i)")
    case True
    with eq show ?thesis by (auto simp: poll_ends_def split: if_splits)
  next
    case False
    with eq have "rec views clock key e d (Suc i) = Some r" by simp
    from IH [OF this] show ?thesis
      by (rule poll_ends_Suc [rotated 2]) (use False in \<open>simp_all add: not_le\<close>)
  qed
qed (rule assms)

lemma sccb_poll_complete:
  assumes "poll_ends views clock key e d i st n"
  shows "sccb_poll views clock key e d i = Some (st, n)"
proof -
  have "i \<le> n" using assms by (simp add: poll_ends_def)
  then show ?thesis using assms
  proof (induction i rule: inc_induct)
    case base
    then show ?case by (subst sccb_poll.simps) (auto simp: poll_ends_def split: if_splits)
  next
    case (step i)
    then have "nv_get key (views i) \<noteq> Inr e \<and> clock (Suc i) < d"
      and "poll_ends views clock key e d (Suc i) st n"
      by (auto simp: poll_ends_def)
    with step.IH show ?case by (subst sccb_poll.simps) (simp add: not_le)
  qed
qed

lemma sccb_poll_Some_iff:
  "sccb_poll views clock key e d i = Some (st, n) \<longleftrightarrow> poll_ends views clock key e d i st n"
  using sccb_poll_sound [of views clock key e d i "(st, n)"] sccb_poll_complete by auto

text \<open>
  The clock never goes back and each sleep takes the poll interval; then the loop ends, after
  at most one poll per started interval of the lease.
\<close>

definition ticking :: "(nat \<Rightarrow> nat) \<Rightarrow> bool" where
  "ticking clock \<longleftrightarrow>
     clock 0 \<le> clock 1 \<and>
     (\<forall>i. clock (Suc i) + SCCB_POLL_DEFAULT_INTERVAL \<le> clock (Suc (Suc i)))"

lemma ticking_after: "ticking clock \<Longrightarrow> clock 0 + n * SCCB_POLL_DEFAULT_INTERVAL \<le> clock (Suc n)"
proof (induction n)
  case (Suc n)
  then have "clock (Suc n) + SCCB_POLL_DEFAULT_INTERVAL \<le> clock (Suc (Suc n))"
    unfolding ticking_def by blast
  with Suc show ?case by simp
qed (simp add: ticking_def)

lemma sccb_poll_returns:
  assumes "ticking clock" "lease \<le> N * SCCB_POLL_DEFAULT_INTERVAL"
  obtains st n where "sccb_poll views clock key e (clock 0 + lease) 0 = Some (st, n)" "n \<le> N"
proof -
  let ?stop = "\<lambda>n. nv_get key (views n) = Inr e \<or> clock 0 + lease \<le> clock (Suc n)"
  have N: "?stop N" using ticking_after [OF assms(1), of N] assms(2) by simp
  from N obtain n where stop: "?stop n" and "\<forall>j < n. \<not> ?stop j" and le: "n \<le> N"
    by (rule first_time)
  then have "poll_ends views clock key e (clock 0 + lease) 0
     (if nv_get key (views n) = Inr e then as_bytes REC_SUCC else as_bytes REC_SCCBPOLLTRY) n"
    using stop unfolding poll_ends_def by (simp add: not_le) blast
  from that [OF sccb_poll_complete [OF this] le] show ?thesis .
qed

section \<open>Properties\<close>

text \<open>
  A state-change callback ends: with a clock that never goes back and sleeps that take the
  poll interval, it has answered by poll \<open>N\<close> when the lease is at most \<open>N\<close> intervals, whatever
  the other connections do to the store meanwhile. It answers success exactly when the value
  was the expected one at the poll that decided, and then at no poll before; otherwise the
  lease had expired.
\<close>

lemma callback_ends:
  assumes "ticking clock" "lease \<le> N * SCCB_POLL_DEFAULT_INTERVAL"
  shows "\<exists>st n. sccb_poll views clock key e (clock 0 + lease) 0 = Some (st, n) \<and> n \<le> N \<and>
    (\<forall>j < n. nv_get key (views j) \<noteq> Inr e) \<and>
    (if nv_get key (views n) = Inr e then st = as_bytes REC_SUCC
     else st = as_bytes REC_SCCBPOLLTRY \<and> clock 0 + lease \<le> clock (Suc n))"
proof -
  obtain st n where r: "sccb_poll views clock key e (clock 0 + lease) 0 = Some (st, n)" and "n \<le> N"
    using assms by (rule sccb_poll_returns)
  moreover have "poll_ends views clock key e (clock 0 + lease) 0 st n"
    using r by (simp only: sccb_poll_Some_iff)
  ultimately show ?thesis unfolding poll_ends_def by auto
qed

end
