(* ===== verification/Worker_Spec.thy ===== *)
theory Worker_Spec
  imports Worker
begin

text \<open>
  What \<open>HTWorker::process\<close> promises: the answer of a map of strings to each request, whatever
  the file system does (a refinement), and what its counters count.
\<close>

section \<open>The specification: a node is a map\<close>

definition answered :: "string \<Rightarrow> zpack \<Rightarrow> zpack" where
  "answered status req = (start_response req)\<lparr>zp_lease := as_bytes status\<rparr>"

definition node_answer ::
  "zpack \<Rightarrow> (string \<rightharpoonup> string) \<Rightarrow> zpack \<times> (string \<rightharpoonup> string)"
where
  "node_answer req m =
     (let opcode = from_utf8_lossy (zp_opcode req);
          key = from_utf8_lossy (zp_key req);
          val = from_utf8_lossy (zp_val req);
          newval = from_utf8_lossy (zp_newval req)
      in if key = [] then (answered REC_EMPTYKEY req, m)
         else if opcode = OPC_LOOKUP then
           (case m key of
              Some v \<Rightarrow> ((answered (REC_SUCC @ v) req)\<lparr>zp_val := as_bytes v\<rparr>, m)
            | None \<Rightarrow> ((answered REC_NONEXISTKEY req)\<lparr>zp_valnull := True\<rparr>, m))
         else if opcode = OPC_INSERT then (answered REC_SUCC req, m(key \<mapsto> val))
         else if opcode = OPC_REMOVE then
           (if m key = None then (answered REC_NONEXISTKEY req, m)
            else (answered REC_SUCC req, m(key := None)))
         else if opcode = OPC_APPEND then (answered REC_SUCC req, m(key \<mapsto> appended (m key) val))
         else if opcode = OPC_CMPSWP then
           (let a = swapped (m key) val newval in
            (if a = newval then answered REC_SUCC req
             else (answered REC_CLTFAIL req)\<lparr>zp_val := as_bytes a\<rparr>, m(key \<mapsto> a)))
         else (answered REC_UOPC req, m))"

definition is_sccb :: "zpack \<Rightarrow> bool" where
  "is_sccb req \<longleftrightarrow>
     from_utf8_lossy (zp_opcode req) = OPC_STCHGCB \<and> from_utf8_lossy (zp_key req) \<noteq> []"

definition node_map :: "htworker \<Rightarrow> (string \<rightharpoonup> string)" where
  "node_map w = hm_get (nv_map (hw_store w))"

definition node_wf :: "htworker \<Rightarrow> bool" where
  "node_wf w \<longleftrightarrow> hm_wf (nv_map (hw_store w))"

lemma start_response_fields [simp]:
  "zp_valnull (start_response req) = False"
  "zp_opcode (start_response req) = zp_opcode req"
  "zp_key (start_response req) = zp_key req"
  by (simp_all add: start_response_def ZPack_default_def)

lemma set_valnull_False: "zp_valnull z = False \<Longrightarrow> z\<lparr>zp_valnull := False\<rparr> = z"
  by (cases z) simp

lemma start_response_valnull [simp]: "(start_response req)\<lparr>zp_valnull := False\<rparr> = start_response req"
  by (rule set_valnull_False) simp

lemma start_response_valnull' [simp]:
  "(start_response req)\<lparr>zp_val := v, zp_valnull := False, zp_lease := l\<rparr>
     = (start_response req)\<lparr>zp_lease := l, zp_val := v\<rparr>"
  by (simp add: start_response_def ZPack_default_def)

lemma node_map_inc [simp]: "node_map (inc c w) = node_map w"
  by (simp add: node_map_def)

lemma node_wf_inc [simp]: "node_wf (inc c w) = node_wf w"
  by (simp add: node_wf_def)

text \<open>Each handler against the specification of its opcode.\<close>

lemma process_lookup_spec:
  "fst (process_lookup key (start_response req) w) =
     (case node_map w key of
        Some v \<Rightarrow> (answered (REC_SUCC @ v) req)\<lparr>zp_val := as_bytes v\<rparr>
      | None \<Rightarrow> (answered REC_NONEXISTKEY req)\<lparr>zp_valnull := True\<rparr>)"
  "node_map (snd (process_lookup key (start_response req) w)) = node_map w"
  "node_wf (snd (process_lookup key (start_response req) w)) = node_wf w"
  by (auto simp: process_lookup_def nv_get_def node_map_def node_wf_def answered_def
      split: option.split)

lemma process_insert_spec:
  assumes "key \<noteq> []"
  shows "fst (process_insert io req key (start_response req) w) = answered REC_SUCC req"
    and "node_map (snd (process_insert io req key (start_response req) w))
       = (node_map w)(key \<mapsto> from_utf8_lossy (zp_val req))"
    and "node_wf w \<Longrightarrow> node_wf (snd (process_insert io req key (start_response req) w))"
  using assms by (simp_all add: process_insert_def nv_answers node_map_def node_wf_def answered_def)

lemma process_remove_spec:
  "fst (process_remove io key (start_response req) w) =
     answered (if node_map w key = None then REC_NONEXISTKEY else REC_SUCC) req"
  "node_map (snd (process_remove io key (start_response req) w)) = (node_map w)(key := None)"
  "node_wf w \<Longrightarrow> node_wf (snd (process_remove io key (start_response req) w))"
  by (auto simp: process_remove_def nv_answers node_map_def node_wf_def answered_def
      hm_contains_def fun_upd_idem)

lemma process_append_spec:
  assumes "key \<noteq> []"
  shows "fst (process_append io req key (start_response req) w) = answered REC_SUCC req"
    and "node_map (snd (process_append io req key (start_response req) w))
       = (node_map w)(key \<mapsto> appended (node_map w key) (from_utf8_lossy (zp_val req)))"
    and "node_wf w \<Longrightarrow> node_wf (snd (process_append io req key (start_response req) w))"
  using assms by (simp_all add: process_append_def nv_answers node_map_def node_wf_def answered_def)

lemma process_cmpswp_spec:
  fixes req w key
  defines "a \<equiv> swapped (node_map w key) (from_utf8_lossy (zp_val req)) (from_utf8_lossy (zp_newval req))"
  shows "fst (process_cmpswp io req key (start_response req) w) =
      (if a = from_utf8_lossy (zp_newval req) then answered REC_SUCC req
       else (answered REC_CLTFAIL req)\<lparr>zp_val := as_bytes a\<rparr>)"
    and "node_map (snd (process_cmpswp io req key (start_response req) w)) = (node_map w)(key \<mapsto> a)"
    and "node_wf w \<Longrightarrow> node_wf (snd (process_cmpswp io req key (start_response req) w))"
  by (simp_all add: process_cmpswp_def Let_def node_map_def node_wf_def answered_def a_def
      nv_wf(4))

lemma process_unrecognized_spec:
  "fst (process_unrecognized (start_response req) w) = answered REC_UOPC req"
  "node_map (snd (process_unrecognized (start_response req) w)) = node_map w"
  "node_wf (snd (process_unrecognized (start_response req) w)) = node_wf w"
  by (simp_all add: process_unrecognized_def answered_def)

lemmas handler_specs =
  process_lookup_spec process_insert_spec process_remove_spec process_append_spec
  process_cmpswp_spec process_unrecognized_spec

text \<open>Every request but a state-change callback is answered, and as the specification says.\<close>

lemma process_refines:
  assumes "\<not> is_sccb req"
  obtains w' where "process env req w = Some (fst (node_answer req (node_map w)), w')"
    and "node_map w' = snd (node_answer req (node_map w))"
    and "node_wf w \<Longrightarrow> node_wf w'"
proof -
  let ?p = "case process env req w of Some r \<Rightarrow> r"
  have ek: "node_map (empty_key_errors oc v) = node_map v" "node_wf (empty_key_errors oc v) = node_wf v"
    for oc v by (simp_all add: node_map_def node_wf_def)
  have "process env req w = Some ?p"
    using assms by (simp add: process_def is_sccb_def Let_def)
  moreover have "fst ?p = fst (node_answer req (node_map w))"
    using assms by (simp add: process_def node_answer_def is_sccb_def Let_def handler_specs answered_def
        split: option.split)
  moreover have "node_map (snd ?p) = snd (node_answer req (node_map w))"
    using assms by (auto simp: process_def node_answer_def is_sccb_def Let_def handler_specs ek
        fun_upd_idem split: option.split)
  moreover have "node_wf w \<Longrightarrow> node_wf (snd ?p)"
    using assms by (simp add: process_def is_sccb_def Let_def handler_specs ek)
  ultimately show ?thesis by (metis prod.collapse that)
qed

section \<open>Refinement over runs of requests\<close>

text \<open>
  One connection at a time: the store a callback polls is the one it started with. A callback
  that never returns is the result None.
\<close>

type_synonym served_op = "io \<times> (nat \<Rightarrow> nat) \<times> zpack"

definition serve_quiet :: "served_op \<Rightarrow> htworker \<Rightarrow> zpack option \<times> htworker" where
  "serve_quiet x w =
     (case x of (io, clock, req) \<Rightarrow>
        (case process \<lparr>se_io = io, se_views = (\<lambda>_. hw_store w), se_clock = clock\<rparr> req w of
           None \<Rightarrow> (None, w)
         | Some (resp, w') \<Rightarrow> (Some resp, w')))"

definition quiet_status :: "(nat \<Rightarrow> nat) \<Rightarrow> nat \<Rightarrow> bool \<Rightarrow> string option" where
  "quiet_status clock lease hit =
     (if hit then Some REC_SUCC
      else if \<exists>i. clock 0 + lease \<le> clock (Suc i) then Some REC_SCCBPOLLTRY
      else None)"

definition node_step ::
  "served_op \<Rightarrow> (string \<rightharpoonup> string) \<Rightarrow> zpack option \<times> (string \<rightharpoonup> string)"
where
  "node_step x m =
     (case x of (io, clock, req) \<Rightarrow>
        if is_sccb req then
          (map_option (\<lambda>s. answered s req)
             (quiet_status clock (lease_of req)
                (m (from_utf8_lossy (zp_key req)) = Some (from_utf8_lossy (zp_val req)))), m)
        else map_prod Some id (node_answer req m))"

lemma nv_get_hit: "nv_get key nv = Inr v \<longleftrightarrow> hm_get (nv_map nv) key = Some v"
  by (simp add: nv_get_def split: option.split)

lemma sccb_poll_quiet:
  "map_option fst (sccb_poll (\<lambda>_. nv) clock key e (clock 0 + lease) 0) =
     map_option as_bytes (quiet_status clock lease (hm_get (nv_map nv) key = Some e))"
proof (cases "quiet_status clock lease (hm_get (nv_map nv) key = Some e)")
  case None
  then have n: "\<not> poll_ends (\<lambda>_. nv) clock key e (clock 0 + lease) 0 st k" for st k
    by (auto simp: quiet_status_def poll_ends_def nv_get_hit split: if_splits)
  have "sccb_poll (\<lambda>_. nv) clock key e (clock 0 + lease) 0 = None"
  proof (rule ccontr)
    assume "sccb_poll (\<lambda>_. nv) clock key e (clock 0 + lease) 0 \<noteq> None"
    then obtain r where "sccb_poll (\<lambda>_. nv) clock key e (clock 0 + lease) 0 = Some r" by blast
    from sccb_poll_sound [OF this] n show False by blast
  qed
  with None show ?thesis by simp
next
  case (Some s)
  let ?hit = "hm_get (nv_map nv) key = Some e" and ?late = "\<lambda>i. clock 0 + lease \<le> clock (Suc i)"
  obtain k where "poll_ends (\<lambda>_. nv) clock key e (clock 0 + lease) 0 (as_bytes s) k"
  proof (cases ?hit)
    case True
    with Some show ?thesis
      by (intro that [of 0]) (simp add: poll_ends_def quiet_status_def nv_get_hit)
  next
    case False
    with Some obtain i where i: "?late i" and s: "s = REC_SCCBPOLLTRY"
      by (auto simp: quiet_status_def split: if_splits)
    from i obtain k where "?late k" "\<forall>j < k. \<not> ?late j" by (rule first_time)
    with False s show ?thesis
      by (intro that [of k]) (simp add: poll_ends_def nv_get_hit not_le)
  qed
  from sccb_poll_complete [OF this] Some show ?thesis by simp
qed

lemma serve_quiet_sccb:
  assumes "is_sccb req"
  shows "fst (serve_quiet (io, clock, req) w) = fst (node_step (io, clock, req) (node_map w))"
    and "node_map (snd (serve_quiet (io, clock, req) w)) = node_map w"
    and "node_wf w \<Longrightarrow> node_wf (snd (serve_quiet (io, clock, req) w))"
proof -
  let ?env = "\<lparr>se_io = io, se_views = (\<lambda>_. hw_store w), se_clock = clock\<rparr>"
  let ?key = "from_utf8_lossy (zp_key req)" and ?e = "from_utf8_lossy (zp_val req)"
  let ?poll = "sccb_poll (\<lambda>_. hw_store w) clock ?key ?e (clock 0 + lease_of req) 0"
  have p: "process ?env req w
      = process_stchgcb ?env req ?key (start_response req) (inc wm_total_operations_update w)"
    using assms by (simp add: process_def is_sccb_def Let_def opcode_defs)
  have r: "fst (node_step (io, clock, req) (node_map w)) =
      map_option (\<lambda>r. (start_response req)\<lparr>zp_lease := fst r\<rparr>) ?poll"
    using assms sccb_poll_quiet [of "hw_store w" clock ?key ?e "lease_of req"]
    by (auto simp: node_step_def node_map_def answered_def option.map_comp o_def
        map_option_case split: option.splits)
  show "fst (serve_quiet (io, clock, req) w) = fst (node_step (io, clock, req) (node_map w))"
    unfolding r by (auto simp: serve_quiet_def p process_stchgcb_def Let_def split: option.split)
  show "node_map (snd (serve_quiet (io, clock, req) w)) = node_map w"
    by (auto simp: serve_quiet_def p process_stchgcb_def Let_def node_map_def split: option.split)
  show "node_wf w \<Longrightarrow> node_wf (snd (serve_quiet (io, clock, req) w))"
    by (auto simp: serve_quiet_def p process_stchgcb_def Let_def node_wf_def split: option.split)
qed

lemma serve_quiet_step:
  assumes "node_wf w"
  shows "node_wf (snd (serve_quiet x w)) \<and>
     node_step x (node_map w) = map_prod id node_map (serve_quiet x w)"
proof -
  obtain io clock req where x: "x = (io, clock, req)" by (cases x)
  show ?thesis
  proof (cases "is_sccb req")
    case True
    with serve_quiet_sccb [OF this, where io = io and clock = clock and w = w] assms x
    show ?thesis by (auto simp: node_step_def map_prod_pair)
  next
    case False
    obtain w' where "process \<lparr>se_io = io, se_views = (\<lambda>_. hw_store w), se_clock = clock\<rparr> req w
        = Some (fst (node_answer req (node_map w)), w')"
      and "node_map w' = snd (node_answer req (node_map w))" and "node_wf w \<Longrightarrow> node_wf w'"
      using process_refines [OF False] by metis
    with assms x False show ?thesis
      by (auto simp: serve_quiet_def node_step_def map_prod_pair)
  qed
qed

interpretation worker: refinement serve_quiet node_wf node_step node_map
  by unfold_locales (simp_all add: serve_quiet_step)

section \<open>What the counters count\<close>

definition succeeded :: "zpack \<Rightarrow> bool" where
  "succeeded resp \<longleftrightarrow> take 3 (zp_lease resp) = as_bytes REC_SUCC"

definition known_opcodes :: "string list" where
  "known_opcodes = [OPC_LOOKUP, OPC_INSERT, OPC_REMOVE, OPC_APPEND, OPC_CMPSWP, OPC_STCHGCB]"

definition op_count :: "string \<Rightarrow> worker_metrics \<Rightarrow> u64" where
  "op_count opcode m =
     (if opcode = OPC_LOOKUP then wm_lookup_count m
      else if opcode = OPC_INSERT then wm_insert_count m
      else if opcode = OPC_REMOVE then wm_remove_count m
      else if opcode = OPC_APPEND then wm_append_count m
      else if opcode = OPC_CMPSWP then wm_compare_swap_count m
      else wm_state_change_callback_count m)"

definition op_errors :: "string \<Rightarrow> worker_metrics \<Rightarrow> u64" where
  "op_errors opcode m =
     (if opcode = OPC_LOOKUP then wm_lookup_errors m
      else if opcode = OPC_INSERT then wm_insert_errors m
      else if opcode = OPC_REMOVE then wm_remove_errors m
      else if opcode = OPC_APPEND then wm_append_errors m
      else if opcode = OPC_CMPSWP then wm_compare_swap_errors m
      else wm_state_change_callback_errors m)"

text \<open>
  How one request moves all fifteen counters: the totals, the count and the errors of each known
  opcode, and the unrecognised requests.
\<close>

definition counted :: "worker_metrics \<Rightarrow> worker_metrics \<Rightarrow> string \<Rightarrow> bool \<Rightarrow> bool \<Rightarrow> bool" where
  "counted m m' opcode keyed failed \<longleftrightarrow>
     wm_total_operations m' = wm_total_operations m + 1 \<and>
     wm_total_errors m' = wm_total_errors m + of_bool failed \<and>
     wm_unrecognized_count m' = wm_unrecognized_count m + of_bool (keyed \<and> opcode \<notin> set known_opcodes) \<and>
     list_all (\<lambda>op.
       op_count op m' = op_count op m + of_bool (keyed \<and> op = opcode) \<and>
       op_errors op m' = op_errors op m + of_bool (failed \<and> op = opcode)) known_opcodes"

lemma succeeded_status [simp]:
  "succeeded (z\<lparr>zp_lease := as_bytes (REC_SUCC @ v)\<rparr>)"
  "succeeded (z\<lparr>zp_lease := as_bytes REC_SUCC\<rparr>)"
  "\<not> succeeded (z\<lparr>zp_lease := as_bytes REC_EMPTYKEY\<rparr>)"
  "\<not> succeeded (z\<lparr>zp_lease := as_bytes REC_CLTFAIL\<rparr>)"
  "\<not> succeeded (z\<lparr>zp_lease := as_bytes REC_SRVFAIL\<rparr>)"
  "\<not> succeeded (z\<lparr>zp_lease := as_bytes REC_SCCBPOLLTRY\<rparr>)"
  "\<not> succeeded (z\<lparr>zp_lease := as_bytes REC_NONEXISTKEY\<rparr>)"
  "\<not> succeeded (z\<lparr>zp_lease := as_bytes REC_UOPC\<rparr>)"
  by (simp_all only: succeeded_def zpack.select_convs zpack.simps take_as_bytes as_bytes_inject)
    (simp_all add: status_defs)

lemmas count_defs = counted_def inc_def op_count_def op_errors_def known_opcodes_def opcodes_distinct [symmetric]

text \<open>A request with a key, handled by what its opcode stands for.\<close>

definition charged :: "htworker \<Rightarrow> string \<Rightarrow> zpack \<times> htworker \<Rightarrow> bool" where
  "charged w opcode r \<longleftrightarrow> counted (hw_metrics w) (hw_metrics (snd r)) opcode True (\<not> succeeded (fst r))"

lemma handlers_charged:
  "charged w OPC_LOOKUP (process_lookup key r (inc wm_total_operations_update w))"
  "charged w OPC_INSERT (process_insert io req key r (inc wm_total_operations_update w))"
  "charged w OPC_REMOVE (process_remove io key r (inc wm_total_operations_update w))"
  "charged w OPC_APPEND (process_append io req key r (inc wm_total_operations_update w))"
  "charged w OPC_CMPSWP (process_cmpswp io req key r (inc wm_total_operations_update w))"
  "opcode \<notin> set known_opcodes \<Longrightarrow> charged w opcode (process_unrecognized r (inc wm_total_operations_update w))"
  by (auto simp: process_lookup_def process_insert_def process_remove_def process_append_def
      process_cmpswp_def process_unrecognized_def Let_def charged_def count_defs
      split: sum.split simp del: as_bytes_simps)

lemma empty_key_counted:
  "counted (hw_metrics w)
     (hw_metrics (empty_key_errors opcode (inc wm_total_errors_update (inc wm_total_operations_update w))))
     opcode False True"
  by (simp add: empty_key_errors_def count_defs)

lemma process_counted:
  assumes "process env req w = Some (resp, w')"
  shows "counted (hw_metrics w) (hw_metrics w') (from_utf8_lossy (zp_opcode req))
     (from_utf8_lossy (zp_key req) \<noteq> []) (\<not> succeeded resp)"
proof -
  let ?key = "from_utf8_lossy (zp_key req)" and ?op = "from_utf8_lossy (zp_opcode req)"
  consider (empty) "?key = []" | (sccb) "?key \<noteq> []" "?op = OPC_STCHGCB"
    | (other) "?key \<noteq> []" "?op \<noteq> OPC_STCHGCB" by blast
  then show ?thesis
  proof cases
    case empty
    with assms show ?thesis
      using empty_key_counted [of w ?op] by (auto simp: process_def Let_def)
  next
    case sccb
    with assms obtain st n where "sccb_poll (se_views env) (se_clock env) ?key
        (from_utf8_lossy (zp_val req)) (se_clock env 0 + lease_of req) 0 = Some (st, n)"
      by (auto simp: process_def Let_def process_stchgcb_def opcode_defs split: option.splits)
    with sccb_poll_sound [OF this] sccb assms show ?thesis
      by (auto simp: process_def Let_def process_stchgcb_def count_defs poll_ends_def
          status_defs succeeded_def split: if_splits)
  next
    case other
    have "charged w ?op (the (process env req w))"
    proof (cases "?op \<in> set known_opcodes")
      case True
      with other show ?thesis
        by (auto simp: known_opcodes_def process_def Let_def handlers_charged)
    next
      case False
      with other show ?thesis
        using handlers_charged(6) [OF False] by (auto simp: known_opcodes_def process_def Let_def)
    qed
    with other assms show ?thesis by (simp add: charged_def)
  qed
qed

section \<open>How long a request takes\<close>

text \<open>Which poll decides depends on nothing after it.\<close>

lemma poll_ends_local:
  assumes "poll_ends views clock key e d 0 st n" "\<forall>i \<le> n. views' i = views i" "\<forall>i \<le> Suc n. clock' i = clock i"
  shows "poll_ends views' clock' key e d 0 st n"
  using assms by (auto simp: poll_ends_def)

text \<open>An answer that came after \<open>n\<close> sleeps: what the store and the clock do later is not seen.\<close>

definition answered_within :: "nat \<Rightarrow> serve_env \<Rightarrow> zpack \<Rightarrow> htworker \<Rightarrow> zpack \<times> htworker \<Rightarrow> bool" where
  "answered_within n env req w r \<longleftrightarrow>
     (\<forall>env'. se_io env' = se_io env \<and> (\<forall>i \<le> n. se_views env' i = se_views env i) \<and>
        (\<forall>i \<le> Suc n. se_clock env' i = se_clock env i) \<longrightarrow> process env' req w = Some r)"

lemma process_io_only:
  "\<not> is_sccb req \<Longrightarrow> se_io env' = se_io env \<Longrightarrow> process env' req w = process env req w"
  by (simp add: process_def is_sccb_def Let_def)

lemma callback_within:
  assumes "is_sccb req" "sccb_poll (se_views env) (se_clock env) (from_utf8_lossy (zp_key req))
      (from_utf8_lossy (zp_val req)) (se_clock env 0 + lease_of req) 0 = Some (st, n)"
  shows "\<exists>r. answered_within n env req w r"
proof -
  let ?key = "from_utf8_lossy (zp_key req)" and ?e = "from_utf8_lossy (zp_val req)"
  have p: "process env' req w
      = process_stchgcb env' req ?key (start_response req) (inc wm_total_operations_update w)" for env'
    using assms(1) by (simp add: process_def is_sccb_def Let_def opcode_defs)
  have "process env' req w = process env req w \<and> process env req w \<noteq> None"
    if "\<forall>i \<le> n. se_views env' i = se_views env i" "\<forall>i \<le> Suc n. se_clock env' i = se_clock env i" for env'
  proof -
    have "sccb_poll (se_views env') (se_clock env') ?key ?e (se_clock env 0 + lease_of req) 0 = Some (st, n)"
      using poll_ends_local [OF _ that] assms(2) by (simp add: sccb_poll_Some_iff)
    with assms(2) that show ?thesis by (simp add: p process_stchgcb_def Let_def)
  qed
  then show ?thesis unfolding answered_within_def by (metis option.exhaust_sel)
qed

section \<open>Properties\<close>

text \<open>
  C3. A worker is a map behind an opcode dispatch: on every sequence of requests, of any
  opcode, well formed or not, the answers are those of the specification \<open>node_step\<close> on the
  map it holds, and the map it ends with is the specification's, whatever the file system
  answers to the writes.
\<close>

theorem worker_is_a_map:
  assumes "node_wf w"
  shows "fst (run_ops serve_quiet xs w) = fst (run_ops node_step xs (node_map w)) \<and>
    node_map (snd (run_ops serve_quiet xs w)) = snd (run_ops node_step xs (node_map w))"
  using worker.run_commutes [OF assms, of xs] by simp

theorem worker_is_a_map_witness:
  fixes xs :: "served_op list"
  defines "xs \<equiv> map (\<lambda>(opcode, key, val). (Io_Open_Err ''denied'', (\<lambda>i. 0),
      ZPack_default\<lparr>zp_opcode := as_bytes opcode, zp_key := as_bytes key, zp_val := as_bytes val\<rparr>))
    [(OPC_INSERT, ''k'', ''v''), (OPC_APPEND, ''k'', ''w''), (''777'', ''k'', [])]"
    and "w \<equiv> HTWorker_new NoVoHT_new"
  shows "fst (run_ops serve_quiet xs w) = fst (run_ops node_step xs (node_map w)) \<and>
    node_map (snd (run_ops serve_quiet xs w)) = snd (run_ops node_step xs (node_map w))"
  by (rule worker_is_a_map) (simp add: w_def node_wf_def HTWorker_new_def NoVoHT_new_def)

text \<open>
  C21. Every request is answered, whatever bytes it carries, provided the clock never goes
  back and a sleep takes at least the poll interval. It sleeps only as a state-change
  callback, and then as many times as poll intervals have begun in its lease, at most: the
  answer is settled by what the store and the clock are up to the last of these sleeps. So a
  callback may outstay its lease, by less than one interval of sleeping.
\<close>

theorem every_request_answered:
  assumes "ticking (se_clock env)"
  shows "\<exists>n r. process env req w = Some r \<and> answered_within n env req w r \<and>
    n * SCCB_POLL_DEFAULT_INTERVAL < lease_of req + SCCB_POLL_DEFAULT_INTERVAL \<and>
    (0 < n \<longrightarrow> is_sccb req)"
proof (cases "is_sccb req")
  case True
  let ?N = "(lease_of req + (SCCB_POLL_DEFAULT_INTERVAL - 1)) div SCCB_POLL_DEFAULT_INTERVAL"
  have "lease_of req \<le> ?N * SCCB_POLL_DEFAULT_INTERVAL"
    by (simp add: SCCB_POLL_DEFAULT_INTERVAL_def)
  with assms obtain st n where p: "sccb_poll (se_views env) (se_clock env) (from_utf8_lossy (zp_key req))
      (from_utf8_lossy (zp_val req)) (se_clock env 0 + lease_of req) 0 = Some (st, n)" "n \<le> ?N"
    by (rule sccb_poll_returns)
  have "n * SCCB_POLL_DEFAULT_INTERVAL < lease_of req + SCCB_POLL_DEFAULT_INTERVAL"
    using p(2) by (simp add: SCCB_POLL_DEFAULT_INTERVAL_def)
  moreover obtain r where "answered_within n env req w r" using callback_within [OF True p(1)] by blast
  ultimately show ?thesis using True by (auto simp: answered_within_def)
next
  case False
  then obtain r where r: "process env req w = Some r" by (metis process_refines)
  have "process env' req w = Some r" if "se_io env' = se_io env" for env'
    using process_io_only [OF False that] r by simp
  then have "answered_within 0 env req w r" unfolding answered_within_def by blast
  with r show ?thesis by (intro exI [of _ 0] exI [of _ r]) (simp add: SCCB_POLL_DEFAULT_INTERVAL_def)
qed

text \<open>A callback with a lease of one millisecond, on a key that never appears.\<close>

theorem every_request_answered_witness:
  fixes env :: serve_env and req :: zpack
  defines "env \<equiv> \<lparr>se_io = Io_Ok, se_views = (\<lambda>_. NoVoHT_new), se_clock = (\<lambda>i. 100 * i)\<rparr>"
    and "req \<equiv> ZPack_default\<lparr>zp_opcode := as_bytes OPC_STCHGCB, zp_key := [107], zp_val := [118], zp_lease := as_bytes (show_nat 1)\<rparr>"
  shows "\<exists>n r. process env req (HTWorker_new NoVoHT_new) = Some r \<and>
    answered_within n env req (HTWorker_new NoVoHT_new) r \<and> n \<le> 1"
proof -
  have "ticking (se_clock env)" by (simp add: env_def ticking_def SCCB_POLL_DEFAULT_INTERVAL_def)
  from every_request_answered [OF this] obtain n r where
    "process env req (HTWorker_new NoVoHT_new) = Some r"
    "answered_within n env req (HTWorker_new NoVoHT_new) r"
    and n: "n * SCCB_POLL_DEFAULT_INTERVAL < lease_of req + SCCB_POLL_DEFAULT_INTERVAL" by blast
  moreover have "lease_of req = 1"
    by (simp add: req_def lease_of_def ascii_valid_str show_nat_ascii parse_show_nat u64_max_def)
  with n have "n \<le> 1" by (simp add: SCCB_POLL_DEFAULT_INTERVAL_def)
  ultimately show ?thesis by blast
qed

text \<open>
  C18. The counters are right, each of the fifteen: a request counts once in the total and,
  when it has a key, once under its own opcode, or as unrecognised, and under no other; an
  answer that is not a success counts as one error in the total and one of its own opcode, if
  the worker knows it, and of no other.
\<close>

theorem requests_are_counted:
  assumes "process env req w = Some (resp, w')"
  shows "counted (hw_metrics w) (hw_metrics w') (from_utf8_lossy (zp_opcode req))
     (from_utf8_lossy (zp_key req) \<noteq> []) (\<not> succeeded resp)"
  using assms by (rule process_counted)

theorem requests_are_counted_witness:
  fixes env :: serve_env and req :: zpack
  defines "env \<equiv> \<lparr>se_io = Io_Ok, se_views = (\<lambda>_. NoVoHT_new), se_clock = (\<lambda>i. 0)\<rparr>"
    and "req \<equiv> ZPack_default\<lparr>zp_opcode := as_bytes OPC_LOOKUP, zp_key := as_bytes ''k''\<rparr>"
  shows "\<exists>resp w'. process env req (HTWorker_new NoVoHT_new) = Some (resp, w') \<and> \<not> succeeded resp \<and>
    counted worker_metrics_default (hw_metrics w') OPC_LOOKUP True True \<and>
    wm_lookup_errors (hw_metrics w') = 1 \<and> wm_insert_count (hw_metrics w') = 0"
proof -
  have req: "from_utf8_lossy (zp_opcode req) = OPC_LOOKUP" "from_utf8_lossy (zp_key req) = ''k''" "\<not> is_sccb req"
    by (simp_all add: req_def is_sccb_def opcode_defs del: as_bytes_simps)
  obtain resp w' where p: "process env req (HTWorker_new NoVoHT_new) = Some (resp, w')"
      "resp = fst (node_answer req (node_map (HTWorker_new NoVoHT_new)))"
    using process_refines [OF req(3)] by metis
  have "\<not> succeeded resp"
    by (simp add: p(2) node_answer_def Let_def req answered_def succeeded_def node_map_def HTWorker_new_def
        NoVoHT_new_def hm_get_def status_defs)
  with requests_are_counted [OF p(1)] p(1) show ?thesis
    unfolding req HTWorker_new_def
    by (auto simp: counted_def known_opcodes_def op_count_def op_errors_def opcode_defs worker_metrics_default_def)
qed

end
