(* ===== verification/Zht_Client.thy ===== *)
theory Zht_Client
  imports Zht_Config Worker_Spec
begin

text \<open>
  Crate \<open>zht-client\<close>: \<open>ZHTClient\<close>, which routes each operation to the node its key hashes to,
  sends one request and reads the status off the answer. The transport is an argument \<open>call\<close>
  of every operation, with a state of its own; a call that does not return gives None, and so
  does a panic. What the client needs of the transport is the locale \<open>zht_net\<close>: the node at an
  address answers as a map would.
\<close>

section \<open>State and errors\<close>

record zht_client =
  cl_config :: app_config
  cl_initialized :: bool

datatype client_error = CeZht zht_error | CeMsg string | CeContext string zht_error

type_synonym 'a client_result = "client_error + 'a"

type_synonym 's transport = "string \<Rightarrow> u16 \<Rightarrow> zpack \<Rightarrow> 's \<Rightarrow> (zpack zht_result \<times> 's) option"

definition ZHTClient_new :: "file_env \<Rightarrow> string \<Rightarrow> string \<Rightarrow> zht_client client_result" where
  "ZHTClient_new fs zht_conf neighbor_conf =
     (case AppConfig_load fs zht_conf neighbor_conf of
        Inl e \<Rightarrow> Inl (CeContext ''Failed to load ZHT configuration'' e)
      | Inr config \<Rightarrow> Inr \<lparr>cl_config = config, cl_initialized = False\<rparr>)"

definition client_init :: "zht_client \<Rightarrow> zht_client" where
  "client_init c = (if cl_initialized c then c else c\<lparr>cl_initialized := True\<rparr>)"

definition client_teardown :: "zht_client \<Rightarrow> zht_client" where
  "client_teardown c = (if \<not> cl_initialized c then c else c\<lparr>cl_initialized := False\<rparr>)"

text \<open>The message has an em dash, which is three bytes.\<close>

definition not_initialized_msg :: string where
  "not_initialized_msg =
     ''ZHTClient not initialized '' @ [CHR 0xE2, CHR 0x80, CHR 0x94] @ '' call init() first''"

definition ensure_initialized :: "zht_client \<Rightarrow> unit client_result" where
  "ensure_initialized c = (if \<not> cl_initialized c then Inl (CeMsg not_initialized_msg) else Inr ())"

definition check_key :: "string \<Rightarrow> unit client_result" where
  "check_key key = (if key = [] then Inl (CeZht EmptyKey) else Inr ())"

definition parse_status :: "zpack \<Rightarrow> string" where
  "parse_status z =
     (if 3 \<le> length (zp_lease z) then from_utf8_lossy (take 3 (zp_lease z))
      else from_utf8_lossy (zp_lease z))"

section \<open>Operations\<close>

text \<open>
  The part all operations share: the guards, the routing and the exchange; \<open>k\<close> reads the
  answer, and may panic.
\<close>

definition client_request ::
  "'s transport \<Rightarrow> zht_client \<Rightarrow> string \<Rightarrow> zpack \<Rightarrow> (zpack \<Rightarrow> 'a client_result option) \<Rightarrow> 's
    \<Rightarrow> ('a client_result \<times> 's) option"
where
  "client_request call c key z k s =
     (case ensure_initialized c of
        Inl e \<Rightarrow> Some (Inl e, s)
      | Inr _ \<Rightarrow>
     (case check_key key of
        Inl e \<Rightarrow> Some (Inl e, s)
      | Inr _ \<Rightarrow>
     (case resolve_node (cl_config c) key of
        Inl e \<Rightarrow> Some (Inl (CeZht e), s)
      | Inr node \<Rightarrow>
     (case call (he_host node) (he_port node) z s of
        None \<Rightarrow> None
      | Some (Inl e, s1) \<Rightarrow> Some (Inl (CeZht e), s1)
      | Some (Inr response, s1) \<Rightarrow> map_option (\<lambda>r. (r, s1)) (k response)))))"

definition internal :: "string \<Rightarrow> 'a client_result" where
  "internal msg = Inl (CeZht (Internal msg))"

definition insert_request :: "string \<Rightarrow> string \<Rightarrow> zpack" where
  "insert_request key value =
     ZPack_default\<lparr>zp_opcode := as_bytes OPC_INSERT, zp_key := as_bytes key, zp_val := as_bytes value\<rparr>"

definition client_insert ::
  "'s transport \<Rightarrow> zht_client \<Rightarrow> string \<Rightarrow> string \<Rightarrow> 's \<Rightarrow> (unit client_result \<times> 's) option"
where
  "client_insert call c key value =
     client_request call c key (insert_request key value)
       (\<lambda>response. Some
          (let status = parse_status response in
           if status = ''000'' then Inr ()
           else if status = ''-01'' then Inl (CeZht EmptyKey)
           else if status = ''-03'' then internal ''Server error on INSERT''
           else internal (''INSERT failed: '' @ status)))"

text \<open>\<open>is_char_boundary\<close>, which slicing a string demands.\<close>

definition char_boundary :: "string \<Rightarrow> nat \<Rightarrow> bool" where
  "char_boundary s n \<longleftrightarrow>
     n = 0 \<or> n = length s \<or> (n < length s \<and> \<not> is_cont (byte_of (s ! n)))"

definition lookup_request :: "string \<Rightarrow> zpack" where
  "lookup_request key =
     ZPack_default\<lparr>zp_opcode := as_bytes OPC_LOOKUP, zp_key := as_bytes key\<rparr>"

definition client_lookup ::
  "'s transport \<Rightarrow> zht_client \<Rightarrow> string \<Rightarrow> 's \<Rightarrow> (string client_result \<times> 's) option"
where
  "client_lookup call c key =
     client_request call c key (lookup_request key)
       (\<lambda>response.
          let status = parse_status response; lease_data = from_utf8_lossy (zp_lease response) in
          if status = ''-92'' then Some (Inl (CeZht (KeyNotFound key)))
          else if status \<noteq> ''000'' then Some (internal (''LOOKUP failed: '' @ status))
          else if 3 < length lease_data then
            (if char_boundary lease_data 3 then Some (Inr (drop 3 lease_data)) else None)
          else Some (Inr (from_utf8_lossy (zp_val response))))"

definition remove_request :: "string \<Rightarrow> zpack" where
  "remove_request key =
     ZPack_default\<lparr>zp_opcode := as_bytes OPC_REMOVE, zp_key := as_bytes key\<rparr>"

definition client_remove ::
  "'s transport \<Rightarrow> zht_client \<Rightarrow> string \<Rightarrow> 's \<Rightarrow> (unit client_result \<times> 's) option"
where
  "client_remove call c key =
     client_request call c key (remove_request key)
       (\<lambda>response. Some
          (let status = parse_status response in
           if status = ''000'' then Inr ()
           else if status = ''-92'' then Inl (CeZht (KeyNotFound key))
           else internal (''REMOVE failed: '' @ status)))"

definition append_request :: "string \<Rightarrow> string \<Rightarrow> zpack" where
  "append_request key value =
     ZPack_default\<lparr>zp_opcode := as_bytes OPC_APPEND, zp_key := as_bytes key, zp_val := as_bytes value\<rparr>"

definition client_append ::
  "'s transport \<Rightarrow> zht_client \<Rightarrow> string \<Rightarrow> string \<Rightarrow> 's \<Rightarrow> (unit client_result \<times> 's) option"
where
  "client_append call c key value =
     client_request call c key (append_request key value)
       (\<lambda>response. Some
          (let status = parse_status response in
           if status = ''000'' then Inr ()
           else if status = ''-03'' then internal ''Server error on APPEND''
           else internal (''APPEND failed: '' @ status)))"

definition cas_request :: "string \<Rightarrow> string \<Rightarrow> string \<Rightarrow> zpack" where
  "cas_request key expected new_value =
     ZPack_default\<lparr>zp_opcode := as_bytes OPC_CMPSWP, zp_key := as_bytes key,
       zp_val := as_bytes expected, zp_newval := as_bytes new_value\<rparr>"

definition client_compare_swap ::
  "'s transport \<Rightarrow> zht_client \<Rightarrow> string \<Rightarrow> string \<Rightarrow> string \<Rightarrow> 's \<Rightarrow> (string client_result \<times> 's) option"
where
  "client_compare_swap call c key expected new_value =
     client_request call c key (cas_request key expected new_value)
       (\<lambda>response. Some
          (let status = parse_status response in
           if status = ''-92'' then Inl (CeZht (KeyNotFound key))
           else if status = ''-02'' then
             Inl (CeZht (CasMismatch expected (from_utf8_lossy (zp_val response))))
           else Inr (from_utf8_lossy (zp_val response))))"

definition sccb_request :: "string \<Rightarrow> string \<Rightarrow> nat \<Rightarrow> zpack" where
  "sccb_request key expected lease_ms =
     ZPack_default\<lparr>zp_opcode := as_bytes OPC_STCHGCB, zp_key := as_bytes key,
       zp_val := as_bytes expected, zp_lease := as_bytes (show_nat lease_ms)\<rparr>"

definition client_state_change_callback ::
  "'s transport \<Rightarrow> zht_client \<Rightarrow> string \<Rightarrow> string \<Rightarrow> nat \<Rightarrow> 's \<Rightarrow> (unit client_result \<times> 's) option"
where
  "client_state_change_callback call c key expected lease_ms =
     client_request call c key (sccb_request key expected lease_ms)
       (\<lambda>response. Some
          (let status = parse_status response in
           if status = ''000'' then Inr ()
           else if status = ''-04'' then Inl (CeZht (LeaseExpired lease_ms))
           else internal (''SCCB failed: '' @ status)))"

lemmas request_defs =
  insert_request_def lookup_request_def remove_request_def append_request_def cas_request_def
  sccb_request_def ZPack_default_def

section \<open>What a request says, read by a node\<close>

lemma opcodes_valid [simp]:
  "from_utf8_lossy (as_bytes OPC_LOOKUP) = OPC_LOOKUP"
  "from_utf8_lossy (as_bytes OPC_REMOVE) = OPC_REMOVE"
  "from_utf8_lossy (as_bytes OPC_INSERT) = OPC_INSERT"
  "from_utf8_lossy (as_bytes OPC_APPEND) = OPC_APPEND"
  "from_utf8_lossy (as_bytes OPC_CMPSWP) = OPC_CMPSWP"
  "from_utf8_lossy (as_bytes OPC_STCHGCB) = OPC_STCHGCB"
  by (rule from_utf8_lossy_as_bytes, simp add: opcode_defs)+

lemma request_fields [simp]:
  "zp_opcode (insert_request key value) = as_bytes OPC_INSERT"
  "zp_key (insert_request key value) = as_bytes key"
  "zp_val (insert_request key value) = as_bytes value"
  "zp_opcode (lookup_request key) = as_bytes OPC_LOOKUP"
  "zp_key (lookup_request key) = as_bytes key"
  "zp_opcode (remove_request key) = as_bytes OPC_REMOVE"
  "zp_key (remove_request key) = as_bytes key"
  "zp_opcode (append_request key value) = as_bytes OPC_APPEND"
  "zp_key (append_request key value) = as_bytes key"
  "zp_val (append_request key value) = as_bytes value"
  "zp_opcode (cas_request key e n) = as_bytes OPC_CMPSWP"
  "zp_key (cas_request key e n) = as_bytes key"
  "zp_val (cas_request key e n) = as_bytes e"
  "zp_newval (cas_request key e n) = as_bytes n"
  "zp_opcode (sccb_request key e ms) = as_bytes OPC_STCHGCB"
  "zp_key (sccb_request key e ms) = as_bytes key"
  "zp_val (sccb_request key e ms) = as_bytes e"
  "zp_lease (sccb_request key e ms) = as_bytes (show_nat ms)"
  by (simp_all add: request_defs)

lemma node_answer_insert:
  "valid_str key \<Longrightarrow> valid_str value \<Longrightarrow> key \<noteq> [] \<Longrightarrow>
   node_answer (insert_request key value) m
     = (answered REC_SUCC (insert_request key value), m(key \<mapsto> value))"
  by (simp add: node_answer_def)

lemma node_answer_lookup:
  "valid_str key \<Longrightarrow> key \<noteq> [] \<Longrightarrow>
   node_answer (lookup_request key) m =
     (case m key of
        Some v \<Rightarrow> ((answered (REC_SUCC @ v) (lookup_request key))\<lparr>zp_val := as_bytes v\<rparr>, m)
      | None \<Rightarrow> ((answered REC_NONEXISTKEY (lookup_request key))\<lparr>zp_valnull := True\<rparr>, m))"
  by (simp add: node_answer_def)

lemma node_answer_remove:
  "valid_str key \<Longrightarrow> key \<noteq> [] \<Longrightarrow>
   node_answer (remove_request key) m =
     (if m key = None then (answered REC_NONEXISTKEY (remove_request key), m)
      else (answered REC_SUCC (remove_request key), m(key := None)))"
  by (simp add: node_answer_def)

lemma node_answer_append:
  "valid_str key \<Longrightarrow> valid_str value \<Longrightarrow> key \<noteq> [] \<Longrightarrow>
   node_answer (append_request key value) m
     = (answered REC_SUCC (append_request key value), m(key \<mapsto> appended (m key) value))"
  by (simp add: node_answer_def)

lemma node_answer_cas:
  "valid_str key \<Longrightarrow> valid_str e \<Longrightarrow> valid_str n \<Longrightarrow> key \<noteq> [] \<Longrightarrow>
   node_answer (cas_request key e n) m =
     (if swapped (m key) e n = n then answered REC_SUCC (cas_request key e n)
      else (answered REC_CLTFAIL (cas_request key e n))\<lparr>zp_val := as_bytes (swapped (m key) e n)\<rparr>,
      m(key \<mapsto> swapped (m key) e n))"
  by (simp add: node_answer_def Let_def)

lemma request_not_sccb [simp]:
  "\<not> is_sccb (insert_request key value)" "\<not> is_sccb (lookup_request key)"
  "\<not> is_sccb (remove_request key)" "\<not> is_sccb (append_request key value)"
  "\<not> is_sccb (cas_request key e n)"
  by (simp_all add: is_sccb_def)

section \<open>What an answer says, read by the client\<close>

lemma status_answered:
  "length status = 3 \<Longrightarrow> valid_str status \<Longrightarrow> parse_status (answered (status @ v) req) = status"
  by (simp add: parse_status_def answered_def)

lemma status_codes [simp]:
  "parse_status (answered REC_SUCC req) = ''000''"
  "parse_status (answered (REC_SUCC @ v) req) = ''000''"
  "parse_status (answered REC_NONEXISTKEY req) = ''-92''"
  "parse_status (answered REC_CLTFAIL req) = ''-02''"
  "parse_status (answered REC_SCCBPOLLTRY req) = ''-04''"
  using status_answered [of "''000''" "[]" req] status_answered [of "''000''" v req]
    status_answered [of "''-92''" "[]" req] status_answered [of "''-02''" "[]" req]
    status_answered [of "''-04''" "[]" req]
  by (simp_all add: status_defs)

lemma parse_status_fields [simp]:
  "parse_status (z\<lparr>zp_val := v\<rparr>) = parse_status z"
  "parse_status (z\<lparr>zp_valnull := b\<rparr>) = parse_status z"
  by (simp_all add: parse_status_def)

lemma lookup_value_boundary: "valid_str v \<Longrightarrow> char_boundary (''000'' @ v) 3"
  using valid_head_boundary [of v] by (cases v) (simp_all add: char_boundary_def)

section \<open>The client over a transport whose nodes are maps\<close>

text \<open>
  \<open>content\<close> gives the map each node stands for, \<open>good\<close> the states the transport keeps, and
  \<open>carried\<close> the messages it can carry. A request that is not a state-change callback is
  answered as \<open>node_answer\<close> says, at its node and nowhere else; what nodes store is UTF-8.
\<close>

locale zht_net =
  fixes call :: "string \<Rightarrow> u16 \<Rightarrow> zpack \<Rightarrow> 's \<Rightarrow> (zpack zht_result \<times> 's) option"
    and content :: "'s \<Rightarrow> string \<Rightarrow> (string \<rightharpoonup> string) option"
    and good :: "'s \<Rightarrow> bool"
    and carried :: "zpack \<Rightarrow> bool"
  assumes answers:
    "good s \<Longrightarrow> content s (gen_base h p) = Some m \<Longrightarrow> \<not> is_sccb req \<Longrightarrow> carried req \<Longrightarrow>
     carried (fst (node_answer req m)) \<Longrightarrow>
     \<exists>s'. call h p req s = Some (Inr (fst (node_answer req m)), s') \<and> good s' \<and>
       content s' = (content s)(gen_base h p \<mapsto> snd (node_answer req m))"
    and stored_valid: "good s \<Longrightarrow> content s a = Some m \<Longrightarrow> m k = Some v \<Longrightarrow> valid_str v"

text \<open>Both messages of an exchange can be carried; and a key's node is there.\<close>

definition exchanged :: "(zpack \<Rightarrow> bool) \<Rightarrow> zpack \<Rightarrow> (string \<rightharpoonup> string) \<Rightarrow> bool" where
  "exchanged carried req m \<longleftrightarrow> carried req \<and> carried (fst (node_answer req m))"

definition served_by ::
  "zht_client \<Rightarrow> string \<Rightarrow> string \<Rightarrow> (string \<Rightarrow> (string \<rightharpoonup> string) option) \<Rightarrow> (string \<rightharpoonup> string) \<Rightarrow> bool"
where
  "served_by c key addr nodes m \<longleftrightarrow>
     cl_initialized c \<and> key \<noteq> [] \<and> valid_str key \<and> nodes addr = Some m \<and>
     (case resolve_node (cl_config c) key of Inl _ \<Rightarrow> False | Inr node \<Rightarrow> addr = address node)"

lemma address_gen_base: "address node = gen_base (he_host node) (he_port node)"
  by (simp add: address_def gen_base_def)

lemma served_by_upd: "served_by c key addr nodes m \<Longrightarrow> served_by c key addr (nodes(addr \<mapsto> m')) m'"
  by (simp add: served_by_def)

context zht_net
begin

lemma request_answered:
  assumes "served_by c key addr (content s) m" "good s" "\<not> is_sccb req" "exchanged carried req m"
    and "k (fst (node_answer req m)) = Some r" "snd (node_answer req m) = m'"
  shows "\<exists>s'. client_request call c key req k s = Some (r, s') \<and> good s' \<and>
     content s' = (content s)(addr \<mapsto> m')"
proof -
  from assms(1) obtain node where n: "resolve_node (cl_config c) key = Inr node"
    "addr = gen_base (he_host node) (he_port node)"
    and c: "cl_initialized c" "key \<noteq> []" "content s addr = Some m"
    by (auto simp: served_by_def address_gen_base split: sum.splits)
  from answers [OF assms(2), of "he_host node" "he_port node" m req] assms(3,4) n c
  obtain s' where "call (he_host node) (he_port node) req s = Some (Inr (fst (node_answer req m)), s')"
    "good s'" "content s' = (content s)(addr \<mapsto> snd (node_answer req m))"
    by (auto simp: exchanged_def)
  with n c assms(5,6) show ?thesis
    by (auto simp: client_request_def ensure_initialized_def check_key_def)
qed

lemma insert_ok:
  assumes "served_by c key addr (content s) m" "good s" "valid_str value"
    and "exchanged carried (insert_request key value) m"
  shows "\<exists>s'. client_insert call c key value s = Some (Inr (), s') \<and> good s' \<and>
     content s' = (content s)(addr \<mapsto> m(key \<mapsto> value))"
proof -
  have "valid_str key" "key \<noteq> []" using assms(1) by (simp_all add: served_by_def)
  note a = node_answer_insert [OF this(1) assms(3) this(2), of m]
  show ?thesis unfolding client_insert_def
    by (rule request_answered [OF assms(1,2) request_not_sccb(1) assms(4)]) (simp_all add: a)
qed

lemma lookup_ok:
  assumes "served_by c key addr (content s) m" "good s" "exchanged carried (lookup_request key) m"
  shows "\<exists>s'. client_lookup call c key s =
       Some (case m key of Some v \<Rightarrow> Inr v | None \<Rightarrow> Inl (CeZht (KeyNotFound key)), s') \<and> good s' \<and>
     content s' = content s"
proof -
  have k: "valid_str key" "key \<noteq> []" and m: "content s addr = Some m"
    using assms(1) by (simp_all add: served_by_def)
  note a = node_answer_lookup [OF k, of m]
  have upd: "(content s)(addr \<mapsto> m) = content s" using m by (simp add: fun_upd_idem)
  have s: "snd (node_answer (lookup_request key) m) = m" by (simp add: a split: option.split)
  note answered = request_answered [OF assms(1,2) request_not_sccb(2) assms(3) _ s, unfolded upd]
  show ?thesis
  proof (cases "m key")
    case None
    then show ?thesis unfolding client_lookup_def
      by (intro answered) (simp add: a Let_def)
  next
    case (Some v)
    have v: "valid_str v" by (rule stored_valid [OF assms(2) m Some])
    have l: "from_utf8_lossy (zp_lease (answered (REC_SUCC @ v) (lookup_request key))) = ''000'' @ v"
    proof -
      have "valid_str (''000'' @ v)" by (rule valid_str_append) (simp_all add: v)
      then have "from_utf8_lossy (as_bytes (''000'' @ v)) = ''000'' @ v"
        by (rule from_utf8_lossy_as_bytes)
      moreover have "zp_lease (z\<lparr>zp_lease := b\<rparr>) = b" for z :: zpack and b by simp
      ultimately show ?thesis by (simp only: answered_def REC_SUCC_def)
    qed
    from Some show ?thesis unfolding client_lookup_def
      by (intro answered) (use lookup_value_boundary [OF v] in \<open>auto simp: a Let_def l v\<close>)
  qed
qed

lemma remove_ok:
  assumes "served_by c key addr (content s) m" "good s" "exchanged carried (remove_request key) m"
  shows "\<exists>s'. client_remove call c key s =
       Some (if m key = None then Inl (CeZht (KeyNotFound key)) else Inr (), s') \<and> good s' \<and>
     content s' = (content s)(addr \<mapsto> m(key := None))"
proof -
  have k: "valid_str key" "key \<noteq> []" using assms(1) by (simp_all add: served_by_def)
  have "snd (node_answer (remove_request key) m) = m(key := None)"
    by (auto simp: node_answer_remove [OF k])
  then show ?thesis unfolding client_remove_def
    by (intro request_answered [OF assms(1,2) request_not_sccb(3) assms(3)])
      (simp_all add: node_answer_remove [OF k] Let_def)
qed

lemma append_ok:
  assumes "served_by c key addr (content s) m" "good s" "valid_str value"
    and "exchanged carried (append_request key value) m"
  shows "\<exists>s'. client_append call c key value s = Some (Inr (), s') \<and> good s' \<and>
     content s' = (content s)(addr \<mapsto> m(key \<mapsto> appended (m key) value))"
proof -
  have "valid_str key" "key \<noteq> []" using assms(1) by (simp_all add: served_by_def)
  note a = node_answer_append [OF this(1) assms(3) this(2), of m]
  show ?thesis unfolding client_append_def
    by (rule request_answered [OF assms(1,2) request_not_sccb(4) assms(4)]) (simp_all add: a)
qed

text \<open>
  A compare-and-swap: the mismatch reports the value it found; success returns the value field
  of the answer, which a node leaves empty.
\<close>

lemma compare_swap_ok:
  assumes "served_by c key addr (content s) m" "good s" "valid_str e" "valid_str n"
    and "exchanged carried (cas_request key e n) m"
  shows "\<exists>s'. client_compare_swap call c key e n s =
       Some (if swapped (m key) e n = n then Inr []
             else Inl (CeZht (CasMismatch e (swapped (m key) e n))), s') \<and> good s' \<and>
     content s' = (content s)(addr \<mapsto> m(key \<mapsto> swapped (m key) e n))"
proof -
  have k: "valid_str key" "key \<noteq> []" and m: "content s addr = Some m"
    using assms(1) by (simp_all add: served_by_def)
  have "valid_str (swapped (m key) e n)"
    using stored_valid [OF assms(2) m] assms(4) by (auto simp: swapped_def split: option.split)
  moreover have "zp_val (answered REC_SUCC (cas_request key e n)) = []"
    by (simp add: answered_def start_response_def ZPack_default_def)
  moreover have "from_utf8_lossy [] = []" using from_utf8_lossy_as_bytes [of "[]"] by simp
  ultimately show ?thesis unfolding client_compare_swap_def
    by (intro request_answered [OF assms(1,2) request_not_sccb(5) assms(5)])
      (simp_all add: node_answer_cas [OF k(1) assms(3,4) k(2)] Let_def)
qed

lemma insert_lookup:
  assumes "served_by c key addr (content s) m" "good s" "valid_str value"
    and "exchanged carried (insert_request key value) m"
    and "exchanged carried (lookup_request key) (m(key \<mapsto> value))"
  shows "\<exists>s' s''. client_insert call c key value s = Some (Inr (), s') \<and>
     client_lookup call c key s' = Some (Inr value, s'')"
proof -
  from insert_ok [OF assms(1-4)] obtain s' where 1: "client_insert call c key value s = Some (Inr (), s')"
    "good s'" "content s' = (content s)(addr \<mapsto> m(key \<mapsto> value))" by blast
  have "served_by c key addr (content s') (m(key \<mapsto> value))"
    unfolding 1(3) using assms(1) by (rule served_by_upd)
  from lookup_ok [OF this 1(2) assms(5)] 1(1) show ?thesis by auto
qed

end

end
