(* ===== verification/Tcp_Proxy.thy ===== *)
theory Tcp_Proxy
  imports Wire
begin

text \<open>
  Section B of \<open>zht-transport/src/lib.rs\<close>: \<open>TcpProxy\<close>, the client's pool of connections, with
  its reconnecting request loops. A pooled connection is the stream of bytes still unread on it
  and its statistics. The network is an argument of each operation: for each attempt, what
  connecting answers, what writing answers, and what then arrives. The proxy also records what
  it wrote to whom, which no operation reads.
\<close>

section \<open>State\<close>

record conn_stats =
  cs_messages_sent :: u64
  cs_messages_received :: u64
  cs_bytes_sent :: u64
  cs_bytes_received :: u64
  cs_errors :: u64
  cs_last_activity :: nat

definition ConnectionStats_new :: "nat \<Rightarrow> conn_stats" where
  "ConnectionStats_new now =
     \<lparr>cs_messages_sent = 0, cs_messages_received = 0, cs_bytes_sent = 0, cs_bytes_received = 0,
      cs_errors = 0, cs_last_activity = now\<rparr>"

record conn_entry =
  cn_stream :: rstream
  cn_stats :: conn_stats

record tcp_proxy =
  tp_connections :: "(string, conn_entry) hashmap"
  tp_wire :: "(string \<times> u8 list) list"

definition TcpProxy_new :: tcp_proxy where
  "TcpProxy_new = \<lparr>tp_connections = [], tp_wire = []\<rparr>"

definition HEALTH_CHECK_OPCODE :: string where "HEALTH_CHECK_OPCODE = ''999''"
definition HEALTH_CHECK_TIMEOUT_MS :: nat where "HEALTH_CHECK_TIMEOUT_MS = 5000"
definition MAX_RECONNECT_ATTEMPTS :: nat where "MAX_RECONNECT_ATTEMPTS = 1"

text \<open>
  \<open>to_lowercase\<close>, on ASCII letters: the texts come from the operating system's errors, which
  are ASCII.
\<close>

definition lower :: "string \<Rightarrow> string" where
  "lower s = map (\<lambda>c. let n = of_char c :: nat in if 65 \<le> n \<and> n \<le> 90 then char_of (n + 32) else c) s"

definition is_connection_broken_error :: "zht_error \<Rightarrow> bool" where
  "is_connection_broken_error err =
     (let broken = (\<lambda>msg.
            let l = lower msg in
            contains_str l ''broken pipe'' \<or> contains_str l ''connection reset''
            \<or> contains_str l ''unexpected eof'' \<or> contains_str l ''connection aborted''
            \<or> contains_str l ''broken pipe'')
      in case err of SendFailed msg \<Rightarrow> broken msg | RecvFailed msg \<Rightarrow> broken msg | _ \<Rightarrow> False)"

section \<open>The network during one operation\<close>

text \<open>
  Where the enclosing timeout, if any, drops the operation: while connecting, after \<open>n\<close> bytes
  of the frame were written, or while waiting for the answer, of which \<open>n\<close> bytes were read.
\<close>

datatype cut = Cut_Connect | Cut_Send nat | Cut_Recv nat

record tcp_env =
  te_connect :: "nat \<Rightarrow> string + rstream"
  te_send :: "nat \<Rightarrow> wio"
  te_reply :: "nat \<Rightarrow> rstream"
  te_now :: "nat \<Rightarrow> nat"
  te_cut :: "(nat \<times> cut) option"
  te_timeout_ms :: nat

text \<open>What arrives joins what was left unread; how the stream ends is what is known last.\<close>

definition arrives :: "rstream \<Rightarrow> rstream \<Rightarrow> rstream" where
  "arrives reply s = \<lparr>rs_bytes = rs_bytes s @ rs_bytes reply, rs_end = rs_end reply\<rparr>"

definition put_entry :: "string \<Rightarrow> conn_entry \<Rightarrow> tcp_proxy \<Rightarrow> tcp_proxy" where
  "put_entry addr entry px = px\<lparr>tp_connections := hm_insert addr entry (tp_connections px)\<rparr>"

definition drop_entry :: "string \<Rightarrow> tcp_proxy \<Rightarrow> tcp_proxy" where
  "drop_entry addr px = px\<lparr>tp_connections := hm_remove addr (tp_connections px)\<rparr>"

definition wrote :: "string \<Rightarrow> u8 list \<Rightarrow> tcp_proxy \<Rightarrow> tcp_proxy" where
  "wrote addr bytes px = px\<lparr>tp_wire := tp_wire px @ [(addr, bytes)]\<rparr>"

definition count_sent :: "nat \<Rightarrow> nat \<Rightarrow> conn_entry \<Rightarrow> conn_entry" where
  "count_sent now len entry =
     entry\<lparr>cn_stats := (cn_stats entry)\<lparr>
       cs_messages_sent := cs_messages_sent (cn_stats entry) + 1,
       cs_bytes_sent := cs_bytes_sent (cn_stats entry) + of_nat len,
       cs_last_activity := now\<rparr>\<rparr>"

definition count_received :: "nat \<Rightarrow> nat \<Rightarrow> conn_entry \<Rightarrow> conn_entry" where
  "count_received now len entry =
     entry\<lparr>cn_stats := (cn_stats entry)\<lparr>
       cs_messages_received := cs_messages_received (cn_stats entry) + 1,
       cs_bytes_received := cs_bytes_received (cn_stats entry) + of_nat len,
       cs_last_activity := now\<rparr>\<rparr>"

definition count_error :: "conn_entry \<Rightarrow> conn_entry" where
  "count_error entry =
     entry\<lparr>cn_stats := (cn_stats entry)\<lparr>cs_errors := cs_errors (cn_stats entry) + 1\<rparr>\<rparr>"

definition with_stream :: "rstream \<Rightarrow> conn_entry \<Rightarrow> conn_entry" where
  "with_stream s entry = entry\<lparr>cn_stream := s\<rparr>"

text \<open>The first step of each attempt: the pooled connection, or a new one.\<close>

definition ensure_connected ::
  "tcp_env \<Rightarrow> string \<Rightarrow> u16 \<Rightarrow> nat \<Rightarrow> tcp_proxy \<Rightarrow> unit zht_result \<times> tcp_proxy"
where
  "ensure_connected env host port i px =
     (let addr = gen_base host port in
      if hm_contains (tp_connections px) addr then (Inr (), px)
      else case te_connect env i of
             Inl e \<Rightarrow> (Inl (ConnectionFailed host port e), px)
           | Inr s \<Rightarrow>
               (Inr (), put_entry addr \<lparr>cn_stream = s, cn_stats = ConnectionStats_new (te_now env i)\<rparr> px))"

definition cut_at :: "tcp_env \<Rightarrow> nat \<Rightarrow> cut option" where
  "cut_at env i =
     (case te_cut env of Some (j, c) \<Rightarrow> if j = i then Some c else None | None \<Rightarrow> None)"

section \<open>Requests\<close>

text \<open>
  One round of the loops of \<open>sendrecv\<close> and \<open>send_only\<close>: it is done with a result, or it found
  the connection broken, counted the error in the entry and removed the entry.
\<close>

datatype 'a outcome = Done "'a zht_result" | Broken zht_error

definition connection_failed ::
  "string \<Rightarrow> zht_error \<Rightarrow> conn_entry \<Rightarrow> tcp_proxy \<Rightarrow> 'a outcome \<times> tcp_proxy"
where
  "connection_failed addr e entry px =
     (let px1 = put_entry addr (count_error entry) px in
      if is_connection_broken_error e then (Broken e, drop_entry addr px1)
      else (Done (Inl e), px1))"

definition timed_out :: "tcp_env \<Rightarrow> 'a outcome" where
  "timed_out env = Done (Inl (Timeout (te_timeout_ms env)))"

text \<open>Connecting and sending; then \<open>cont\<close> goes on with the entry, whose counters it moved.\<close>

definition send_stage ::
  "encoder \<Rightarrow> tcp_env \<Rightarrow> string \<Rightarrow> u16 \<Rightarrow> zpack \<Rightarrow> nat
    \<Rightarrow> (conn_entry \<Rightarrow> tcp_proxy \<Rightarrow> 'a outcome \<times> tcp_proxy) \<Rightarrow> tcp_proxy \<Rightarrow> 'a outcome \<times> tcp_proxy"
where
  "send_stage enc env host port z i cont px =
     (let addr = gen_base host port; conn = ensure_connected env host port i px; px1 = snd conn in
      if cut_at env i = Some Cut_Connect then (timed_out env, px)
      else case fst conn of
        Inl e \<Rightarrow> (Done (Inl e), px1)
      | Inr _ \<Rightarrow>
      (case hm_get (tp_connections px1) addr of
        None \<Rightarrow> (Done (Inl (Internal ''connection vanished from pool'')), px1)
      | Some entry \<Rightarrow>
          let send_frame_len = 4 + length (enc z);
              sent = send_message enc (te_send env i) z [];
              px2 = wrote addr (snd sent) px1
          in case cut_at env i of
               Some (Cut_Send n) \<Rightarrow>
                 (timed_out env, wrote addr (take n (encode_message enc z)) px1)
             | _ \<Rightarrow>
                 (case fst sent of
                    Inl e \<Rightarrow> connection_failed addr e entry px2
                  | Inr _ \<Rightarrow>
                      let entry1 = count_sent (te_now env i) send_frame_len entry
                      in cont entry1 (put_entry addr entry1 px2))))"

definition recv_stage ::
  "encoder \<Rightarrow> decoder \<Rightarrow> tcp_env \<Rightarrow> nat \<Rightarrow> string \<Rightarrow> conn_entry \<Rightarrow> tcp_proxy
    \<Rightarrow> zpack outcome \<times> tcp_proxy"
where
  "recv_stage enc dec env i addr entry px =
     (let stream = arrives (te_reply env i) (cn_stream entry) in
      case cut_at env i of
        Some (Cut_Recv n) \<Rightarrow>
          (timed_out env,
           put_entry addr (with_stream (stream\<lparr>rs_bytes := drop n (rs_bytes stream)\<rparr>) entry) px)
      | _ \<Rightarrow>
          (case recv_message dec stream of
             (Inr response, stream1) \<Rightarrow>
               let recv_frame_len = 4 + length (enc response)
               in (Done (Inr response),
                   put_entry addr
                     (count_received (te_now env i) recv_frame_len (with_stream stream1 entry)) px)
           | (Inl e, stream1) \<Rightarrow> connection_failed addr e (with_stream stream1 entry) px))"

definition sendrecv_attempt ::
  "encoder \<Rightarrow> decoder \<Rightarrow> tcp_env \<Rightarrow> string \<Rightarrow> u16 \<Rightarrow> zpack \<Rightarrow> nat \<Rightarrow> tcp_proxy
    \<Rightarrow> zpack outcome \<times> tcp_proxy"
where
  "sendrecv_attempt enc dec env host port z i px =
     send_stage enc env host port z i (recv_stage enc dec env i (gen_base host port)) px"

definition send_only_attempt ::
  "encoder \<Rightarrow> tcp_env \<Rightarrow> string \<Rightarrow> u16 \<Rightarrow> zpack \<Rightarrow> nat \<Rightarrow> tcp_proxy \<Rightarrow> unit outcome \<times> tcp_proxy"
where
  "send_only_attempt enc env host port z i px =
     send_stage enc env host port z i (\<lambda>entry px'. (Done (Inr ()), px')) px"

text \<open>The loop of both: a broken connection is retried until the attempts are used up.\<close>

function retry_loop ::
  "(nat \<Rightarrow> tcp_proxy \<Rightarrow> 'a outcome \<times> tcp_proxy) \<Rightarrow> nat \<Rightarrow> tcp_proxy \<Rightarrow> 'a zht_result \<times> tcp_proxy"
where
  "retry_loop attempt attempts px =
     (case attempt attempts px of
        (Done r, px') \<Rightarrow> (r, px')
      | (Broken e, px') \<Rightarrow>
          if MAX_RECONNECT_ATTEMPTS < Suc attempts then (Inl e, px')
          else retry_loop attempt (Suc attempts) px')"
  by pat_completeness auto
termination
  by (relation "measure (\<lambda>(f, i, px). Suc MAX_RECONNECT_ATTEMPTS - i)") auto

declare retry_loop.simps [simp del]

definition tcp_sendrecv ::
  "encoder \<Rightarrow> decoder \<Rightarrow> tcp_env \<Rightarrow> string \<Rightarrow> u16 \<Rightarrow> zpack \<Rightarrow> tcp_proxy \<Rightarrow> zpack zht_result \<times> tcp_proxy"
where
  "tcp_sendrecv enc dec env host port z px =
     retry_loop (sendrecv_attempt enc dec (env\<lparr>te_cut := None\<rparr>) host port z) 0 px"

definition tcp_send_only ::
  "encoder \<Rightarrow> tcp_env \<Rightarrow> string \<Rightarrow> u16 \<Rightarrow> zpack \<Rightarrow> tcp_proxy \<Rightarrow> unit zht_result \<times> tcp_proxy"
where
  "tcp_send_only enc env host port z px =
     retry_loop (send_only_attempt enc (env\<lparr>te_cut := None\<rparr>) host port z) 0 px"

definition sendrecv_with_timeout ::
  "encoder \<Rightarrow> decoder \<Rightarrow> tcp_env \<Rightarrow> string \<Rightarrow> u16 \<Rightarrow> zpack \<Rightarrow> nat \<Rightarrow> tcp_proxy
    \<Rightarrow> zpack zht_result \<times> tcp_proxy"
where
  "sendrecv_with_timeout enc dec env host port z timeout_ms px =
     retry_loop (sendrecv_attempt enc dec (env\<lparr>te_timeout_ms := timeout_ms\<rparr>) host port z) 0 px"

definition health_check_with_timeout ::
  "encoder \<Rightarrow> decoder \<Rightarrow> tcp_env \<Rightarrow> string \<Rightarrow> u16 \<Rightarrow> nat \<Rightarrow> tcp_proxy \<Rightarrow> unit zht_result \<times> tcp_proxy"
where
  "health_check_with_timeout enc dec env host port timeout_ms px =
     (let ping = ZPack_default\<lparr>zp_opcode := as_bytes HEALTH_CHECK_OPCODE\<rparr>;
          r = sendrecv_with_timeout enc dec env host port ping timeout_ms px
      in (case fst r of Inl e \<Rightarrow> Inl e | Inr _ \<Rightarrow> Inr (), snd r))"

definition health_check ::
  "encoder \<Rightarrow> decoder \<Rightarrow> tcp_env \<Rightarrow> string \<Rightarrow> u16 \<Rightarrow> tcp_proxy \<Rightarrow> unit zht_result \<times> tcp_proxy"
where
  "health_check enc dec env host port px =
     health_check_with_timeout enc dec env host port HEALTH_CHECK_TIMEOUT_MS px"

text \<open>\<open>batch_sendrecv\<close>, with the network during each of its requests.\<close>

fun batch_sendrecv ::
  "encoder \<Rightarrow> decoder \<Rightarrow> (tcp_env \<times> zpack) list \<Rightarrow> string \<Rightarrow> u16 \<Rightarrow> tcp_proxy
    \<Rightarrow> zpack zht_result list \<times> tcp_proxy"
where
  "batch_sendrecv enc dec [] host port px = ([], px)"
| "batch_sendrecv enc dec ((env, msg) # msgs) host port px =
     (let r = tcp_sendrecv enc dec env host port msg px;
          rs = batch_sendrecv enc dec msgs host port (snd r)
      in (fst r # fst rs, snd rs))"

section \<open>The pool\<close>

definition is_connected :: "string \<Rightarrow> u16 \<Rightarrow> tcp_proxy \<Rightarrow> bool" where
  "is_connected host port px \<longleftrightarrow> hm_contains (tp_connections px) (gen_base host port)"

definition conn_stats_of :: "string \<Rightarrow> u16 \<Rightarrow> tcp_proxy \<Rightarrow> conn_stats option" where
  "conn_stats_of host port px = map_option cn_stats (hm_get (tp_connections px) (gen_base host port))"

definition close_connection :: "string \<Rightarrow> u16 \<Rightarrow> tcp_proxy \<Rightarrow> tcp_proxy" where
  "close_connection host port px = drop_entry (gen_base host port) px"

definition close_all :: "tcp_proxy \<Rightarrow> tcp_proxy" where
  "close_all px = px\<lparr>tp_connections := []\<rparr>"

definition connection_count :: "tcp_proxy \<Rightarrow> nat" where
  "connection_count px = length (tp_connections px)"

section \<open>Bookkeeping lemmas\<close>

lemma put_entry_get [simp]:
  "hm_get (tp_connections (put_entry addr entry px)) = (hm_get (tp_connections px))(addr \<mapsto> entry)"
  "tp_wire (put_entry addr entry px) = tp_wire px"
  by (simp_all add: put_entry_def)

lemma drop_entry_get [simp]:
  "hm_get (tp_connections (drop_entry addr px)) = (hm_get (tp_connections px))(addr := None)"
  "tp_wire (drop_entry addr px) = tp_wire px"
  by (simp_all add: drop_entry_def)

lemma wrote_get [simp]:
  "tp_connections (wrote addr bytes px) = tp_connections px"
  "tp_wire (wrote addr bytes px) = tp_wire px @ [(addr, bytes)]"
  by (simp_all add: wrote_def)

lemma counters_stream [simp]:
  "cn_stream (count_sent now len entry) = cn_stream entry"
  "cn_stream (count_received now len entry) = cn_stream entry"
  "cn_stream (count_error entry) = cn_stream entry"
  "cn_stream (with_stream s entry) = s"
  by (simp_all add: count_sent_def count_received_def count_error_def with_stream_def)

lemma gen_base_address: "gen_base host port = address \<lparr>he_host = host, he_port = port\<rparr>"
  by (simp add: gen_base_def address_def)

lemma gen_base_inject [simp]: "gen_base h p = gen_base h' p' \<longleftrightarrow> h = h' \<and> p = p'"
  by (simp add: gen_base_address)

section \<open>The attempts are bounded, and other connections are left alone\<close>

lemma ensure_connected_frame:
  "tp_wire (snd (ensure_connected env host port i px)) = tp_wire px"
  "a \<noteq> gen_base host port \<Longrightarrow>
     hm_get (tp_connections (snd (ensure_connected env host port i px))) a = hm_get (tp_connections px) a"
  by (simp_all add: ensure_connected_def Let_def split: sum.split)

text \<open>What an attempt does to the rest of the world: at most one write, to its own peer.\<close>

definition contained :: "string \<Rightarrow> tcp_proxy \<Rightarrow> tcp_proxy \<Rightarrow> bool" where
  "contained addr px px' \<longleftrightarrow>
     (\<forall>a. a \<noteq> addr \<longrightarrow> hm_get (tp_connections px') a = hm_get (tp_connections px) a) \<and>
     (tp_wire px' = tp_wire px \<or> (\<exists>bytes. tp_wire px' = tp_wire px @ [(addr, bytes)]))"

lemma connection_failed_frame:
  "tp_wire (snd (connection_failed addr e entry px)) = tp_wire px"
  "a \<noteq> addr \<Longrightarrow>
     hm_get (tp_connections (snd (connection_failed addr e entry px))) a = hm_get (tp_connections px) a"
  by (simp_all add: connection_failed_def Let_def)

lemma recv_stage_frame:
  "tp_wire (snd (recv_stage enc dec env i addr entry px)) = tp_wire px"
  "a \<noteq> addr \<Longrightarrow>
     hm_get (tp_connections (snd (recv_stage enc dec env i addr entry px))) a = hm_get (tp_connections px) a"
  by (simp_all add: recv_stage_def Let_def connection_failed_frame
      split: option.split cut.split prod.split sum.split)

lemma send_stage_contained:
  assumes "\<And>entry px'. tp_wire (snd (cont entry px')) = tp_wire px'"
    and "\<And>entry px' a. a \<noteq> gen_base host port \<Longrightarrow>
       hm_get (tp_connections (snd (cont entry px'))) a = hm_get (tp_connections px') a"
  shows "contained (gen_base host port) px (snd (send_stage enc env host port z i cont px))"
  using assms
  by (auto simp: send_stage_def contained_def Let_def ensure_connected_frame connection_failed_frame
      split: sum.split option.split cut.split)

lemma attempt_contained:
  "contained (gen_base host port) px (snd (sendrecv_attempt enc dec env host port z i px))"
  "contained (gen_base host port) px (snd (send_only_attempt enc env host port z i px))"
  unfolding sendrecv_attempt_def send_only_attempt_def
  by (rule send_stage_contained; simp add: recv_stage_frame)+

lemma retry_loop_twice:
  "retry_loop attempt 0 px =
     (case attempt 0 px of
        (Done r, px') \<Rightarrow> (r, px')
      | (Broken e, px') \<Rightarrow>
          (case attempt 1 px' of (Done r, px'') \<Rightarrow> (r, px'') | (Broken e', px'') \<Rightarrow> (Inl e', px'')))"
  by (subst retry_loop.simps, subst retry_loop.simps)
    (simp add: MAX_RECONNECT_ATTEMPTS_def split: prod.split outcome.split)

lemma retry_loop_writes:
  assumes "\<And>i px. contained addr px (snd (attempt i px))"
  shows "\<exists>ws. length ws \<le> 2 \<and> (\<forall>w \<in> set ws. fst w = addr) \<and>
      tp_wire (snd (retry_loop attempt 0 px)) = tp_wire px @ ws"
    and "a \<noteq> addr \<Longrightarrow>
      hm_get (tp_connections (snd (retry_loop attempt 0 px))) a = hm_get (tp_connections px) a"
proof -
  let ?px1 = "snd (attempt 0 px)"
  have c: "contained addr px ?px1" "contained addr ?px1 (snd (attempt 1 ?px1))"
    using assms by blast+
  have w: "\<exists>ws. length ws \<le> 1 \<and> (\<forall>w \<in> set ws. fst w = addr) \<and> tp_wire q = tp_wire p @ ws"
    if "contained addr p q" for p q
    using that unfolding contained_def
    by (metis append_Nil2 fst_conv le_numeral_extra(4) length_Cons list.set_cases list.size(3)
        One_nat_def set_ConsD empty_iff list.set(1) zero_le)
  obtain ws1 where 1: "length ws1 \<le> 1" "\<forall>w \<in> set ws1. fst w = addr" "tp_wire ?px1 = tp_wire px @ ws1"
    using w [OF c(1)] by blast
  obtain ws2 where 2: "length ws2 \<le> 1" "\<forall>w \<in> set ws2. fst w = addr"
    "tp_wire (snd (attempt 1 ?px1)) = tp_wire ?px1 @ ws2"
    using w [OF c(2)] by blast
  have end_state: "snd (retry_loop attempt 0 px) \<in> {?px1, snd (attempt 1 ?px1)}"
    by (auto simp: retry_loop_twice split: prod.split outcome.split)
  then show "\<exists>ws. length ws \<le> 2 \<and> (\<forall>w \<in> set ws. fst w = addr) \<and>
      tp_wire (snd (retry_loop attempt 0 px)) = tp_wire px @ ws"
  proof (elim insertE)
    assume "snd (retry_loop attempt 0 px) = ?px1"
    with 1 show ?thesis by (intro exI [of _ ws1]) simp
  next
    assume "snd (retry_loop attempt 0 px) = snd (attempt 1 ?px1)"
    with 1 2 show ?thesis by (intro exI [of _ "ws1 @ ws2"]) auto
  qed simp
  show "a \<noteq> addr \<Longrightarrow>
      hm_get (tp_connections (snd (retry_loop attempt 0 px))) a = hm_get (tp_connections px) a"
    using end_state c by (auto simp: contained_def)
qed

section \<open>Answers\<close>

text \<open>The bytes unread on the connection to a peer; a connection still to be made has none.\<close>

definition unread :: "tcp_proxy \<Rightarrow> string \<Rightarrow> u8 list" where
  "unread px addr =
     (case hm_get (tp_connections px) addr of None \<Rightarrow> [] | Some e \<Rightarrow> rs_bytes (cn_stream e))"

text \<open>Attempt \<open>i\<close> gets through: it finds or makes a connection, and the frame is written.\<close>

definition gets_through :: "tcp_env \<Rightarrow> string \<Rightarrow> nat \<Rightarrow> tcp_proxy \<Rightarrow> bool" where
  "gets_through env addr i px \<longleftrightarrow>
     te_send env i = Wio_Ok \<and>
     (hm_get (tp_connections px) addr = None \<longrightarrow>
       (case te_connect env i of Inl _ \<Rightarrow> False | Inr s \<Rightarrow> rs_bytes s = []))"

lemma send_stage_through:
  assumes "gets_through env (gen_base host port) i px" "te_cut env = None"
  obtains entry px1 where
    "send_stage enc env host port z i cont px =
       cont entry (put_entry (gen_base host port) entry (wrote (gen_base host port) (encode_message enc z) px1))"
    and "rs_bytes (cn_stream entry) = unread px (gen_base host port)"
    and "tp_wire px1 = tp_wire px"
    and "\<And>a. a \<noteq> gen_base host port \<Longrightarrow> hm_get (tp_connections px1) a = hm_get (tp_connections px) a"
proof -
  let ?addr = "gen_base host port"
  let ?px1 = "snd (ensure_connected env host port i px)"
  obtain entry where e: "hm_get (tp_connections ?px1) ?addr = Some entry"
    and u: "rs_bytes (cn_stream entry) = unread px ?addr"
    and ok: "fst (ensure_connected env host port i px) = Inr ()"
    using assms(1)
    by (cases "hm_get (tp_connections px) ?addr"; cases "te_connect env i")
      (simp_all add: gets_through_def ensure_connected_def hm_contains_def Let_def unread_def)
  have "send_stage enc env host port z i cont px =
     cont (count_sent (te_now env i) (4 + length (enc z)) entry)
       (put_entry ?addr (count_sent (te_now env i) (4 + length (enc z)) entry)
         (wrote ?addr (encode_message enc z) ?px1))"
    using assms e ok
    by (simp add: send_stage_def Let_def cut_at_def gets_through_def send_message_def)
  then show ?thesis
    by (rule that) (simp_all add: u ensure_connected_frame)
qed

text \<open>An attempt that gets through returns the next frame on the stream, whatever it answers.\<close>

lemma attempt_answered:
  assumes "gets_through env (gen_base host port) i px" "te_cut env = None"
    and "unread px (gen_base host port) @ rs_bytes (te_reply env i) = encode_message enc resp @ rest"
    and "clean_codec enc dec resp"
  shows "\<exists>px'. sendrecv_attempt enc dec env host port z i px = (Done (Inr resp), px') \<and>
     tp_wire px' = tp_wire px @ [(gen_base host port, encode_message enc z)] \<and>
     unread px' (gen_base host port) = rest \<and> is_connected host port px' \<and>
     (\<forall>a. a \<noteq> gen_base host port \<longrightarrow> hm_get (tp_connections px') a = hm_get (tp_connections px) a)"
proof -
  let ?addr = "gen_base host port"
  obtain entry px1 where s:
    "sendrecv_attempt enc dec env host port z i px =
       recv_stage enc dec env i ?addr entry
         (put_entry ?addr entry (wrote ?addr (encode_message enc z) px1))"
    and u: "rs_bytes (cn_stream entry) = unread px ?addr"
    and f: "tp_wire px1 = tp_wire px"
      "\<And>a. a \<noteq> ?addr \<Longrightarrow> hm_get (tp_connections px1) a = hm_get (tp_connections px) a"
    using send_stage_through [OF assms(1,2), of enc z "recv_stage enc dec env i ?addr"]
    unfolding sendrecv_attempt_def by metis
  let ?stream = "arrives (te_reply env i) (cn_stream entry)"
  have "rs_bytes ?stream = encode_message enc resp @ rest"
    using assms(3) u by (simp add: arrives_def)
  then have "recv_message dec ?stream = (Inr resp, ?stream\<lparr>rs_bytes := rest\<rparr>)"
    using assms(4) by (intro recv_sent) (simp_all add: clean_codec_def)
  then show ?thesis
    using f unfolding s
    by (simp add: recv_stage_def Let_def cut_at_def assms(2) unread_def is_connected_def hm_contains_def)
qed

lemma sendrecv_answered:
  assumes "gets_through env (gen_base host port) 0 px"
    and "unread px (gen_base host port) @ rs_bytes (te_reply env 0) = encode_message enc resp @ rest"
    and "clean_codec enc dec resp"
  shows "\<exists>px'. tcp_sendrecv enc dec env host port z px = (Inr resp, px') \<and>
     tp_wire px' = tp_wire px @ [(gen_base host port, encode_message enc z)] \<and>
     unread px' (gen_base host port) = rest \<and> is_connected host port px' \<and>
     (\<forall>a. a \<noteq> gen_base host port \<longrightarrow> hm_get (tp_connections px') a = hm_get (tp_connections px) a)"
  using attempt_answered [of "env\<lparr>te_cut := None\<rparr>" host port 0 px enc resp rest dec z] assms
  by (auto simp: tcp_sendrecv_def retry_loop_twice gets_through_def)



text \<open>
  A request given up while its answer is under way leaves the connection in the pool; the late
  answer is then read as the answer to the next request, and the next answer stays unread.
\<close>

lemma timeout_leaves_connection:
  assumes "gets_through env (gen_base host port) 0 px" "te_cut env = Some (0, Cut_Recv 0)"
    and "unread px (gen_base host port) = []" "rs_bytes (te_reply env 0) = late"
  shows "\<exists>px'. sendrecv_with_timeout enc dec env host port z ms px = (Inl (Timeout ms), px') \<and>
     unread px' (gen_base host port) = late \<and> is_connected host port px'"
proof -
  let ?addr = "gen_base host port" and ?env = "env\<lparr>te_timeout_ms := ms\<rparr>"
  let ?px1 = "snd (ensure_connected ?env host port 0 px)"
  obtain entry where e: "hm_get (tp_connections ?px1) ?addr = Some entry"
    and u: "rs_bytes (cn_stream entry) = []"
    and ok: "fst (ensure_connected ?env host port 0 px) = Inr ()"
    using assms(1,3)
    by (cases "hm_get (tp_connections px) ?addr"; cases "te_connect env 0")
      (simp_all add: gets_through_def ensure_connected_def hm_contains_def Let_def unread_def)
  then show ?thesis
    using assms
    by (simp add: sendrecv_with_timeout_def retry_loop_twice sendrecv_attempt_def send_stage_def
        recv_stage_def Let_def cut_at_def gets_through_def send_message_def timed_out_def
        unread_def is_connected_def hm_contains_def arrives_def)
qed

text \<open>
  A connection that its peer has closed is not always found broken: the test looks for certain
  words in the text of the error, and with any other text the call fails and the connection
  stays in the pool. The end of the stream that tokio's \<open>read_exact\<close> reports, in its versions
  we know of, is \<open>early eof\<close>, and is not among them.
\<close>

lemma early_eof_not_broken: "\<not> is_connection_broken_error (RecvFailed ''early eof'')"
  by code_simp

lemma dead_connection_kept:
  assumes "gets_through env (gen_base host port) 0 px"
    and "unread px (gen_base host port) = []" "rs_bytes (te_reply env 0) = []"
    and "\<not> is_connection_broken_error (RecvFailed (rs_end (te_reply env 0)))"
  shows "fst (tcp_sendrecv enc dec env host port z px) = Inl (RecvFailed (rs_end (te_reply env 0))) \<and>
    is_connected host port (snd (tcp_sendrecv enc dec env host port z px))"
proof -
  let ?addr = "gen_base host port" and ?env = "env\<lparr>te_cut := None\<rparr>"
  have "gets_through ?env ?addr 0 px" "te_cut ?env = None"
    using assms(1) by (simp_all add: gets_through_def)
  from send_stage_through [OF this, of enc z "recv_stage enc dec ?env 0 ?addr"] obtain entry px1 where s:
    "sendrecv_attempt enc dec ?env host port z 0 px =
       recv_stage enc dec ?env 0 ?addr entry (put_entry ?addr entry (wrote ?addr (encode_message enc z) px1))"
    and u: "rs_bytes (cn_stream entry) = unread px ?addr"
    unfolding sendrecv_attempt_def by metis
  let ?stream = "arrives (te_reply env 0) (cn_stream entry)"
  have "rs_bytes ?stream = []" "rs_end ?stream = rs_end (te_reply env 0)"
    using assms(2,3) u by (simp_all add: arrives_def)
  then have "recv_message dec ?stream = (Inl (RecvFailed (rs_end (te_reply env 0))), ?stream\<lparr>rs_bytes := []\<rparr>)"
    by (simp add: recv_message_def read_exact_def)
  with assms(4) show ?thesis
    by (simp add: tcp_sendrecv_def retry_loop.simps [of _ 0] s recv_stage_def Let_def cut_at_def
        connection_failed_def is_connected_def hm_contains_def)
qed

section \<open>Properties\<close>

text \<open>A network that accepts every connection and every write, and on which \<open>bytes\<close> then arrive.\<close>

definition sample_net :: "u8 list \<Rightarrow> tcp_env" where
  "sample_net bytes =
     \<lparr>te_connect = (\<lambda>_. Inr \<lparr>rs_bytes = [], rs_end = ''early eof''\<rparr>), te_send = (\<lambda>_. Wio_Ok),
      te_reply = (\<lambda>_. \<lparr>rs_bytes = bytes, rs_end = ''early eof''\<rparr>), te_now = (\<lambda>i. i),
      te_cut = None, te_timeout_ms = 0\<rparr>"

lemma sample_net_through: "gets_through (sample_net bytes) addr i px"
  by (simp add: gets_through_def sample_net_def)

text \<open>At most two writes, all to one peer, and no other connection touched.\<close>

definition only_touches :: "string \<Rightarrow> tcp_proxy \<Rightarrow> tcp_proxy \<Rightarrow> bool" where
  "only_touches addr px px' \<longleftrightarrow>
     (\<exists>ws. length ws \<le> 2 \<and> list_all (\<lambda>w. fst w = addr) ws \<and> tp_wire px' = tp_wire px @ ws) \<and>
     (hm_get (tp_connections px'))(addr := None) = (hm_get (tp_connections px))(addr := None)"

lemma retry_loop_only_touches:
  assumes "\<And>i px. contained addr px (snd (attempt i px))"
  shows "only_touches addr px (snd (retry_loop attempt 0 px))"
  using retry_loop_writes [where addr = addr and attempt = attempt and px = px] assms
  by (auto simp: only_touches_def list_all_iff fun_eq_iff)

text \<open>
  C9. One request reaches one peer, and is written at most twice: whatever the network does,
  and with or without a timeout, the request loops write at most two frames, all to the address
  of the call, and leave every other connection of the pool as it was. The loops always end.
\<close>

theorem request_stays_with_peer:
  "only_touches (gen_base h p) px (snd (tcp_sendrecv enc dec env h p z px)) \<and>
   only_touches (gen_base h p) px (snd (sendrecv_with_timeout enc dec env h p z ms px)) \<and>
   only_touches (gen_base h p) px (snd (tcp_send_only enc env h p z px))"
  unfolding tcp_sendrecv_def sendrecv_with_timeout_def tcp_send_only_def
  by (intro conjI retry_loop_only_touches attempt_contained)

text \<open>
  A request is answered by what its peer sends: when the frame gets through and what is
  unread on the connection, with what arrives, starts with the frame of a message, \<open>sendrecv\<close>
  returns that message, keeps the rest unread, and has written the request once.
\<close>

lemma request_is_answered:
  assumes "gets_through env (gen_base h p) 0 px"
    and "unread px (gen_base h p) @ rs_bytes (te_reply env 0) = encode_message enc resp @ rest"
    and "clean_codec enc dec resp"
  shows "\<exists>px'. tcp_sendrecv enc dec env h p z px = (Inr resp, px') \<and>
     tp_wire px' = tp_wire px @ [(gen_base h p, encode_message enc z)] \<and>
     unread px' (gen_base h p) = rest \<and> is_connected h p px'"
  using sendrecv_answered [OF assms] by blast



text \<open>
  C39. A timed-out request poisons its connection: the connection stays in the pool with the
  answer still to come, and the next request to the same peer is answered by the late answer
  of the first, while its own answer is left unread in turn.
\<close>

theorem late_answer_misdelivered:
  assumes "gets_through env (gen_base h p) 0 px" "te_cut env = Some (0, Cut_Recv 0)"
    and "unread px (gen_base h p) = []" "rs_bytes (te_reply env 0) = encode_message enc late"
    and "clean_codec enc dec late" "te_send env2 0 = Wio_Ok"
  shows "\<exists>px1 px2. sendrecv_with_timeout enc dec env h p z ms px = (Inl (Timeout ms), px1) \<and>
     tcp_sendrecv enc dec env2 h p z2 px1 = (Inr late, px2) \<and>
     unread px2 (gen_base h p) = rs_bytes (te_reply env2 0)"
proof -
  obtain px1 where 1: "sendrecv_with_timeout enc dec env h p z ms px = (Inl (Timeout ms), px1)"
    "unread px1 (gen_base h p) = encode_message enc late" "is_connected h p px1"
    using timeout_leaves_connection [OF assms(1-4)] by blast
  have "gets_through env2 (gen_base h p) 0 px1"
    using assms(6) 1(3) by (auto simp: gets_through_def is_connected_def hm_contains_def)
  moreover have "unread px1 (gen_base h p) @ rs_bytes (te_reply env2 0)
      = encode_message enc late @ rs_bytes (te_reply env2 0)" by (simp add: 1(2))
  ultimately obtain px2 where "tcp_sendrecv enc dec env2 h p z2 px1 = (Inr late, px2)"
    "unread px2 (gen_base h p) = rs_bytes (te_reply env2 0)"
    using sendrecv_answered assms(5) by blast
  with 1(1) show ?thesis by blast
qed

theorem late_answer_misdelivered_witness:
  fixes late :: zpack and env :: tcp_env
  defines "late \<equiv> ZPack_default\<lparr>zp_val := [118]\<rparr>"
    and "env \<equiv> (sample_net (encode_message sample_enc late))\<lparr>te_cut := Some (0, Cut_Recv 0)\<rparr>"
  shows "\<exists>px1 px2. sendrecv_with_timeout sample_enc sample_dec env ''a'' 1 ZPack_default 5 TcpProxy_new
        = (Inl (Timeout 5), px1) \<and>
     tcp_sendrecv sample_enc sample_dec (sample_net [7]) ''a'' 1 ZPack_default px1 = (Inr late, px2) \<and>
     unread px2 (gen_base ''a'' 1) = rs_bytes (te_reply (sample_net [7]) 0)"
  by (rule late_answer_misdelivered)
    (simp_all add: late_def env_def sample_net_def gets_through_def unread_def TcpProxy_new_def ZPack_default_def)

end
