(* ===== verification/Socket_Addr.thy ===== *)
theory Socket_Addr
  imports Zht_Common "HOL-Library.Monad_Syntax"
begin

text \<open>
  Socket addresses, as the standard library parses and prints them (\<open>SocketAddr::from_str\<close> and
  \<open>Display\<close>), and \<open>to_socket_addr\<close> of \<open>zht-common/src/host_entity.rs\<close>. Nothing is looked up: a
  text is an address only if it is an IPv4 or a bracketed IPv6 address with its port. A reader takes
  a text and gives what it read and what is left, or None and has read nothing.
\<close>

datatype ipv4_addr = Ipv4 u8 u8 u8 u8

text \<open>The eight groups of an IPv6 address; the scope of its socket address.\<close>

datatype socket_addr = SA_V4 ipv4_addr u16 | SA_V6 "u16 list" u32 u16

section \<open>Reading\<close>

text \<open>\<open>char::to_digit\<close>: 36 and more is no digit of any radix.\<close>

definition digit_num :: "char \<Rightarrow> nat" where
  "digit_num c =
     (let k = of_char c :: nat in
      if 48 \<le> k \<and> k \<le> 57 then k - 48
      else if 97 \<le> k \<and> k \<le> 122 then k - 87
      else if 65 \<le> k \<and> k \<le> 90 then k - 55
      else 36)"

definition number_of :: "nat \<Rightarrow> string \<Rightarrow> nat" where
  "number_of radix ds = foldl (\<lambda>n c. radix * n + digit_num c) 0 ds"

definition read_number :: "nat \<Rightarrow> nat option \<Rightarrow> bool \<Rightarrow> nat \<Rightarrow> string \<Rightarrow> (nat \<times> string) option" where
  "read_number radix max_digits allow_zero_prefix maxv s =
     (let ds = takeWhile (\<lambda>c. digit_num c < radix) s; n = number_of radix ds in
      if ds = [] \<or> (case max_digits of None \<Rightarrow> False | Some k \<Rightarrow> k < length ds)
         \<or> (\<not> allow_zero_prefix \<and> hd ds = CHR ''0'' \<and> 1 < length ds) \<or> maxv < n
      then None else Some (n, drop (length ds) s))"

definition read_given_char :: "char \<Rightarrow> string \<Rightarrow> string option" where
  "read_given_char c s = (case s of [] \<Rightarrow> None | x # r \<Rightarrow> if x = c then Some r else None)"

text \<open>The separator comes before every part but the first.\<close>

definition read_separator ::
  "char \<Rightarrow> nat \<Rightarrow> (string \<Rightarrow> ('a \<times> string) option) \<Rightarrow> string \<Rightarrow> ('a \<times> string) option"
where
  "read_separator sep i inner s =
     (if 0 < i then Option.bind (read_given_char sep s) inner else inner s)"

definition read_octet :: "string \<Rightarrow> (nat \<times> string) option" where
  "read_octet s = read_number 10 (Some 3) False 255 s"

definition read_ipv4_addr :: "string \<Rightarrow> (ipv4_addr \<times> string) option" where
  "read_ipv4_addr s =
     do {
       (a, s1) \<leftarrow> read_separator CHR ''.'' 0 read_octet s;
       (b, s2) \<leftarrow> read_separator CHR ''.'' 1 read_octet s1;
       (c, s3) \<leftarrow> read_separator CHR ''.'' 2 read_octet s2;
       (d, s4) \<leftarrow> read_separator CHR ''.'' 3 read_octet s3;
       Some (Ipv4 (of_nat a) (of_nat b) (of_nat c) (of_nat d), s4)
     }"

definition u16_of_bytes :: "u8 \<Rightarrow> u8 \<Rightarrow> u16" where
  "u16_of_bytes a b = of_nat (256 * unat a + unat b)"

text \<open>
  \<open>read_groups\<close> from group \<open>i\<close> on, with room for \<open>n\<close> more: the groups, and whether they end in an
  IPv4 address, which takes the room of two.
\<close>

fun read_groups :: "nat \<Rightarrow> nat \<Rightarrow> string \<Rightarrow> u16 list \<times> bool \<times> string" where
  "read_groups i 0 s = ([], False, s)"
| "read_groups i (Suc n) s =
     (case (if 0 < n then read_separator CHR '':'' i read_ipv4_addr s else None) of
        Some (Ipv4 a b c d, r) \<Rightarrow> ([u16_of_bytes a b, u16_of_bytes c d], True, r)
      | None \<Rightarrow>
          (case read_separator CHR '':'' i (read_number 16 (Some 4) True u16_max) s of
             None \<Rightarrow> ([], False, s)
           | Some (g, r) \<Rightarrow>
               (let (gs, v4, r1) = read_groups (Suc i) n r in (of_nat g # gs, v4, r1))))"

definition read_ipv6_addr :: "string \<Rightarrow> (u16 list \<times> string) option" where
  "read_ipv6_addr s =
     (let (head, head_ipv4, s1) = read_groups 0 8 s in
      if length head = 8 then Some (head, s1)
      else if head_ipv4 then None
      else do {
        s2 \<leftarrow> read_given_char CHR '':'' s1;
        s3 \<leftarrow> read_given_char CHR '':'' s2;
        let (back, _, s4) = read_groups 0 (8 - (length head + 1)) s3;
        Some (head @ replicate (8 - length back - length head) 0 @ back, s4)
      })"

definition read_port :: "string \<Rightarrow> (nat \<times> string) option" where
  "read_port s = Option.bind (read_given_char CHR '':'' s) (read_number 10 None True u16_max)"

definition read_scope_id :: "string \<Rightarrow> (nat \<times> string) option" where
  "read_scope_id s = Option.bind (read_given_char CHR ''%'' s) (read_number 10 None True u32_max)"

definition read_socket_addr_v4 :: "string \<Rightarrow> (socket_addr \<times> string) option" where
  "read_socket_addr_v4 s =
     do { (ip, s1) \<leftarrow> read_ipv4_addr s; (p, s2) \<leftarrow> read_port s1; Some (SA_V4 ip (of_nat p), s2) }"

definition read_socket_addr_v6 :: "string \<Rightarrow> (socket_addr \<times> string) option" where
  "read_socket_addr_v6 s =
     do {
       s1 \<leftarrow> read_given_char CHR ''['' s;
       (ip, s2) \<leftarrow> read_ipv6_addr s1;
       let (scope, s3) = (case read_scope_id s2 of None \<Rightarrow> (0, s2) | Some r \<Rightarrow> r);
       s4 \<leftarrow> read_given_char CHR '']'' s3;
       (p, s5) \<leftarrow> read_port s4;
       Some (SA_V6 ip (of_nat scope) (of_nat p), s5)
     }"

definition addr_parse_error :: string where
  "addr_parse_error = ''invalid socket address syntax''"

text \<open>The whole text has to be read.\<close>

definition parse_socket_addr :: "string \<Rightarrow> string + socket_addr" where
  "parse_socket_addr s =
     (case (case read_socket_addr_v4 s of None \<Rightarrow> read_socket_addr_v6 s | Some r \<Rightarrow> Some r) of
        Some (addr, []) \<Rightarrow> Inr addr
      | _ \<Rightarrow> Inl addr_parse_error)"

definition to_socket_addr :: "host_entity \<Rightarrow> socket_addr option" where
  "to_socket_addr h =
     (let addr_str = he_host h @ '':'' @ show_nat (unat (he_port h))
      in case parse_socket_addr addr_str of Inl _ \<Rightarrow> None | Inr a \<Rightarrow> Some a)"

section \<open>Printing\<close>

fun show_ipv4 :: "ipv4_addr \<Rightarrow> string" where
  "show_ipv4 (Ipv4 a b c d) =
     show_nat (unat a) @ ''.'' @ show_nat (unat b) @ ''.'' @ show_nat (unat c) @ ''.'' @ show_nat (unat d)"

text \<open>The first longest run of zero groups: its start and its length.\<close>

fun zero_span :: "nat \<Rightarrow> nat \<times> nat \<Rightarrow> nat \<times> nat \<Rightarrow> u16 list \<Rightarrow> nat \<times> nat" where
  "zero_span i current longest [] = longest"
| "zero_span i current longest (g # gs) =
     (if g = 0 then
        let cur = (if snd current = 0 then i else fst current, snd current + 1)
        in zero_span (Suc i) cur (if snd longest < snd cur then cur else longest) gs
      else zero_span (Suc i) (0, 0) longest gs)"

fun show_groups :: "u16 list \<Rightarrow> string" where
  "show_groups [] = []"
| "show_groups [g] = show_hex (unat g)"
| "show_groups (g # gs) = show_hex (unat g) @ '':'' @ show_groups gs"

definition show_ipv6 :: "u16 list \<Rightarrow> string" where
  "show_ipv6 gs =
     (if length gs = 8 \<and> take 5 gs = replicate 5 0 \<and> gs ! 5 = 0xFFFF then
        ''::ffff:'' @ show_ipv4 (Ipv4 (of_nat (unat (gs ! 6) div 256)) (of_nat (unat (gs ! 6)))
          (of_nat (unat (gs ! 7) div 256)) (of_nat (unat (gs ! 7))))
      else
        let (start, len) = zero_span 0 (0, 0) (0, 0) gs in
        if 1 < len then show_groups (take start gs) @ ''::'' @ show_groups (drop (start + len) gs)
        else show_groups gs)"

text \<open>The address without its port, and the port; and both.\<close>

fun show_ip :: "socket_addr \<Rightarrow> string" where
  "show_ip (SA_V4 ip p) = show_ipv4 ip"
| "show_ip (SA_V6 ip scope p) = show_ipv6 ip"

fun addr_port :: "socket_addr \<Rightarrow> u16" where
  "addr_port (SA_V4 ip p) = p"
| "addr_port (SA_V6 ip scope p) = p"

fun show_socket_addr :: "socket_addr \<Rightarrow> string" where
  "show_socket_addr (SA_V4 ip p) = show_ipv4 ip @ '':'' @ show_nat (unat p)"
| "show_socket_addr (SA_V6 ip scope p) =
     ''['' @ show_ipv6 ip @ (if scope = 0 then [] else ''%'' @ show_nat (unat scope)) @ '']:'' @ show_nat (unat p)"

section \<open>Decimal numbers\<close>

lemma digit_num_dec: "digit_num c < 10 \<longleftrightarrow> is_digit c"
  unfolding digit_num_def is_digit_def Let_def by (simp, linarith)

lemma digit_num_val: "is_digit c \<Longrightarrow> digit_num c = digit_val c"
  by (simp add: digit_num_def is_digit_def digit_val_def Let_def)

lemma digit_char_val: "is_digit c \<Longrightarrow> digit_char (digit_val c) = c"
  by (simp add: is_digit_def digit_val_def digit_char_def)

lemma digit_val_less: "is_digit c \<Longrightarrow> digit_val c < 10"
  unfolding is_digit_def digit_val_def by linarith

lemma digit_char_0 [simp]: "digit_char 0 = CHR ''0''"
  by code_simp

lemma number_of_snoc: "number_of radix (ds @ [d]) = radix * number_of radix ds + digit_num d"
  by (simp add: number_of_def)

lemma show_nat_snoc: "0 < n \<Longrightarrow> d < 10 \<Longrightarrow> show_nat (10 * n + d) = show_nat n @ [digit_char d]"
  by (subst show_nat.simps) simp

lemma show_nat_inject [simp]: "show_nat m = show_nat n \<longleftrightarrow> m = n"
proof
  assume "show_nat m = show_nat n"
  then have "parse_digits (max m n) 0 (show_nat m) = parse_digits (max m n) 0 (show_nat n)" by simp
  then show "m = n" by (simp only: parse_digits_show max.cobounded1 max.cobounded2 sum.inject)
qed simp

text \<open>The texts \<open>show_nat\<close> prints: digits, and no zero in front of others.\<close>

definition canonical :: "string \<Rightarrow> bool" where
  "canonical ds \<longleftrightarrow> ds \<noteq> [] \<and> list_all is_digit ds \<and> (hd ds = CHR ''0'' \<longrightarrow> length ds = 1)"

lemma show_canonical: "canonical ds \<Longrightarrow> show_nat (number_of 10 ds) = ds"
proof (induction ds rule: rev_induct)
  case (snoc d ds)
  then have d: "is_digit d" by (simp add: canonical_def)
  show ?case
  proof (cases "ds = []")
    case True
    with d show ?thesis
      by (simp add: number_of_def digit_num_val digit_val_less digit_char_val show_nat.simps [of "digit_val d"])
  next
    case False
    with snoc.prems have hd: "hd ds \<noteq> CHR ''0''" and can: "canonical ds" by (auto simp: canonical_def)
    from snoc.IH [OF can] have ih: "show_nat (number_of 10 ds) = ds" .
    have "number_of 10 ds \<noteq> 0"
    proof
      assume "number_of 10 ds = 0"
      with ih have "ds = [digit_char 0]" by (simp add: show_nat.simps [of 0])
      with hd show False by simp
    qed
    with d show ?thesis
      by (simp add: number_of_snoc digit_num_val digit_val_less show_nat_snoc digit_char_val ih)
  qed
qed (simp add: canonical_def)

lemma canonical_show: "canonical (show_nat n)"
proof (induction n rule: show_nat.induct)
  case (1 n)
  show ?case
  proof (cases "n < 10")
    case True
    then show ?thesis by (subst show_nat.simps) (simp add: canonical_def)
  next
    case False
    then have ih: "canonical (show_nat (n div 10))" and pos: "0 < n div 10" using 1 by auto
    have "hd (show_nat (n div 10)) \<noteq> CHR ''0''"
    proof
      assume hd: "hd (show_nat (n div 10)) = CHR ''0''"
      with ih have "length (show_nat (n div 10)) = 1" by (simp add: canonical_def)
      with hd have "show_nat (n div 10) = show_nat 0"
        by (cases "show_nat (n div 10)") (simp_all add: show_nat.simps [of 0])
      with pos show False by simp
    qed
    with ih False show ?thesis by (subst show_nat.simps) (simp add: canonical_def)
  qed
qed

lemma number_of_show [simp]: "number_of 10 (show_nat n) = n"
  using show_canonical [OF canonical_show, of n] by simp

section \<open>Reading what was printed\<close>

definition stops :: "string \<Rightarrow> bool" where
  "stops s \<longleftrightarrow> s = [] \<or> \<not> is_digit (hd s)"

lemma stops_simps [simp]: "stops []" "stops (c # s) \<longleftrightarrow> \<not> is_digit c"
  by (simp_all add: stops_def)

lemma takeWhile_digits: "list_all is_digit ds \<Longrightarrow> stops s \<Longrightarrow> takeWhile is_digit (ds @ s) = ds"
  by (induction ds) (cases s, simp_all)

lemma dot_colon_no_digit [simp]: "\<not> is_digit CHR ''.''" "\<not> is_digit CHR '':''" "\<not> is_digit CHR ''[''"
  by (simp_all add: is_digit_def)

lemma read_number_show:
  assumes "n \<le> maxv" "stops s" "case k of None \<Rightarrow> True | Some k \<Rightarrow> length (show_nat n) \<le> k"
  shows "read_number 10 k z maxv (show_nat n @ s) = Some (n, s)"
proof -
  have "takeWhile (\<lambda>c. digit_num c < 10) (show_nat n @ s) = show_nat n"
    using takeWhile_digits [OF show_nat_digits assms(2), of n] by (simp add: digit_num_dec)
  with assms canonical_show [of n] show ?thesis
    by (auto simp: read_number_def Let_def canonical_def split: option.splits)
qed

lemma read_octet_show: "n \<le> 255 \<Longrightarrow> stops s \<Longrightarrow> read_octet (show_nat n @ s) = Some (n, s)"
  unfolding read_octet_def using length_show_nat [of n 3] by (intro read_number_show) simp_all

lemma read_octet_Some:
  assumes "read_octet s = Some (n, r)"
  shows "n \<le> 255 \<and> s = show_nat n @ r"
proof -
  let ?ds = "takeWhile is_digit s"
  from assms have *: "?ds \<noteq> []" "hd ?ds = CHR ''0'' \<longrightarrow> \<not> 1 < length ?ds" "n = number_of 10 ?ds" "n \<le> 255"
    "r = drop (length ?ds) s"
    by (auto simp: read_octet_def read_number_def digit_num_dec Let_def split: if_splits)
  have "list_all is_digit ?ds" by (auto simp: list_all_iff dest: set_takeWhileD)
  with *(1,2) have "canonical ?ds" by (cases ?ds) (auto simp: canonical_def)
  then have "show_nat n = ?ds" using *(3) show_canonical by simp
  with *(4,5) show ?thesis by (metis append_take_drop_id takeWhile_eq_take)
qed

lemma read_given_char_Some: "read_given_char c s = Some r \<longleftrightarrow> s = c # r"
  by (cases s) (auto simp: read_given_char_def)

lemma u8_le: "unat (a :: u8) \<le> 255"
  using unat_u8 [of a] by simp

lemma read_ipv4_show: "stops s \<Longrightarrow> read_ipv4_addr (show_ipv4 ip @ s) = Some (ip, s)"
  by (cases ip) (simp add: read_ipv4_addr_def read_separator_def read_octet_show u8_le read_given_char_def)

lemma read_ipv4_Some: "read_ipv4_addr s = Some (ip, r) \<Longrightarrow> s = show_ipv4 ip @ r"
  by (auto simp: read_ipv4_addr_def read_separator_def read_given_char_Some bind_eq_Some_conv unat_of_nat
      dest!: read_octet_Some)

lemma read_port_show: "read_port ('':'' @ show_nat (unat (p :: u16))) = Some (unat p, [])"
  using read_number_show [OF unat_u16 [of p], of "[]" None True] by (simp add: read_port_def read_given_char_def)

lemma parse_show_v4: "parse_socket_addr (show_socket_addr (SA_V4 ip p)) = Inr (SA_V4 ip p)"
  by (simp add: parse_socket_addr_def read_socket_addr_v4_def read_ipv4_show read_port_show [simplified])

section \<open>Which hosts are addresses\<close>

text \<open>What the transports parse: a host and a port.\<close>

lemma gen_base_split: "gen_base h p = g @ CHR '':'' # t \<Longrightarrow> CHR '':'' \<notin> set t \<Longrightarrow> h = g \<and> t = show_nat (unat p)"
  using rsplit2_sep [of "CHR '':''" t g] rsplit2_sep [of "CHR '':''" "show_nat (unat p)" h] show_nat_notin
  by (simp add: gen_base_def)

lemma read_port_all:
  assumes "read_port s = Some (n, [])"
  obtains t where "s = CHR '':'' # t" "CHR '':'' \<notin> set t"
proof -
  from assms obtain t where t: "s = CHR '':'' # t" "read_number 10 None True u16_max t = Some (n, [])"
    by (auto simp: read_port_def read_given_char_Some bind_eq_Some_conv)
  from t(2) have "length t \<le> length (takeWhile is_digit t)"
    by (auto simp: read_number_def digit_num_dec Let_def split: if_splits)
  then have "takeWhile is_digit t = t"
    by (metis append_take_drop_id append.right_neutral drop_all takeWhile_eq_take)
  then have "CHR '':'' \<notin> set t" by (metis dot_colon_no_digit(2) set_takeWhileD)
  with t(1) show thesis by (rule that)
qed

lemma parse_host_v4:
  "parse_socket_addr (gen_base h p) = Inr (SA_V4 ip q) \<longleftrightarrow> h = show_ipv4 ip \<and> p = q"
proof
  assume l: "parse_socket_addr (gen_base h p) = Inr (SA_V4 ip q)"
  have "read_socket_addr_v6 s \<noteq> Some (SA_V4 ip q, r)" for s r
    by (auto simp: read_socket_addr_v6_def bind_eq_Some_conv Let_def split: prod.splits)
  with l have "read_socket_addr_v4 (gen_base h p) = Some (SA_V4 ip q, [])"
    by (auto simp: parse_socket_addr_def split: option.splits list.splits)
  then obtain s1 n where r: "read_ipv4_addr (gen_base h p) = Some (ip, s1)" "read_port s1 = Some (n, [])"
    by (auto simp: read_socket_addr_v4_def bind_eq_Some_conv)
  from read_port_all [OF r(2)] obtain t where "s1 = CHR '':'' # t" "CHR '':'' \<notin> set t" .
  with read_ipv4_Some [OF r(1)] have "h = show_ipv4 ip" using gen_base_split by blast
  moreover from this have "parse_socket_addr (gen_base h p) = Inr (SA_V4 ip p)"
    using parse_show_v4 [of ip p] by (simp add: gen_base_def)
  ultimately show "h = show_ipv4 ip \<and> p = q" using l by simp
next
  assume "h = show_ipv4 ip \<and> p = q"
  with parse_show_v4 [of ip p] show "parse_socket_addr (gen_base h p) = Inr (SA_V4 ip q)"
    by (simp add: gen_base_def)
qed

lemma parse_host_v6: "parse_socket_addr (gen_base h p) = Inr (SA_V6 gs scope q) \<Longrightarrow> starts_with h ''[''"
  by (cases h) (auto simp: gen_base_def parse_socket_addr_def read_socket_addr_v6_def read_given_char_Some
      bind_eq_Some_conv starts_with_def Let_def read_socket_addr_v4_def split: option.splits list.splits prod.splits)

text \<open>A name is no address.\<close>

definition host_name :: "string \<Rightarrow> bool" where
  "host_name h \<longleftrightarrow> \<not> starts_with h ''['' \<and> h \<notin> range show_ipv4"

lemma parse_host_name: "host_name h \<Longrightarrow> parse_socket_addr (gen_base h p) = Inl addr_parse_error"
proof (cases "parse_socket_addr (gen_base h p)")
  case (Inr a)
  moreover assume "host_name h"
  ultimately show ?thesis
    by (cases a) (auto simp: host_name_def parse_host_v4 dest: parse_host_v6)
qed (auto simp: parse_socket_addr_def split: option.splits list.splits)

lemma host_nameI:
  assumes "h = c # r" "\<not> is_digit c" "c \<noteq> CHR ''[''"
  shows "host_name h"
proof -
  have "is_digit (hd (show_ipv4 ip))" for ip
  proof (cases ip)
    case (Ipv4 a b c d)
    with canonical_show [of "unat a"] show ?thesis
      by (cases "show_nat (unat a)") (auto simp: canonical_def)
  qed
  then have "h \<noteq> show_ipv4 ip" for ip using assms(1,2) by (metis list.sel(1))
  with assms show ?thesis by (auto simp: host_name_def starts_with_def)
qed

text \<open>An address of the form a deployment uses.\<close>

lemma parse_quad [simp]: "parse_socket_addr (gen_base ''10.0.0.1'' p) = Inr (SA_V4 (Ipv4 10 0 0 1) p)"
proof -
  have "show_ipv4 (Ipv4 10 0 0 1) = ''10.0.0.1''" by code_simp
  then show ?thesis by (simp only: parse_host_v4)
qed

lemma to_socket_addr_parse:
  "to_socket_addr h = (case parse_socket_addr (gen_base (he_host h) (he_port h)) of Inl _ \<Rightarrow> None | Inr a \<Rightarrow> Some a)"
  by (simp add: to_socket_addr_def gen_base_def)

section \<open>Properties\<close>

text \<open>
  C33. A node is named by its address: \<open>from_address\<close> reads back what \<open>address\<close> prints, for any
  host text and port. But a socket address comes only from an IP address: \<open>to_socket_addr\<close> gives an
  IPv4 address exactly for the host that prints it, without leading zeros, with the node's port;
  any other host that opens no bracket, \<open>localhost\<close> among them, has none.
\<close>

theorem host_address_exact:
  "from_address (address h) = Some h \<and>
   (to_socket_addr h = Some (SA_V4 ip p) \<longleftrightarrow> h = \<lparr>he_host = show_ipv4 ip, he_port = p\<rparr>) \<and>
   (starts_with (he_host h) ''['' \<or> he_host h \<in> range show_ipv4 \<or> to_socket_addr h = None)"
proof -
  have "to_socket_addr h = Some (SA_V4 ip p) \<longleftrightarrow> he_host h = show_ipv4 ip \<and> he_port h = p"
    using parse_host_v4 [of "he_host h" "he_port h" ip p]
    by (cases "parse_socket_addr (gen_base (he_host h) (he_port h))") (simp_all add: to_socket_addr_parse)
  moreover have "host_name (he_host h) \<Longrightarrow> to_socket_addr h = None"
    by (simp add: to_socket_addr_parse parse_host_name)
  ultimately show ?thesis
    by (cases h) (auto simp: from_address_address host_name_def)
qed

end
