(* ===== verification/Tcp_Server.thy ===== *)
theory Tcp_Server
  imports Worker_Spec Socket_Addr
begin

text \<open>
  Section D of \<open>zht-transport/src/lib.rs\<close>: the accept loop and the handler of one connection.
  The network is an argument: the bytes the client sends, what each answer's write returns, and
  the surroundings of each request. A handler whose request is never answered has no result.
\<close>

section \<open>One connection\<close>

lemma recv_message_shrinks:
  "fst (recv_message dec s) = Inr z \<Longrightarrow> length (rs_bytes (snd (recv_message dec s))) < length (rs_bytes s)"
  by (auto simp: recv_decode split: sum.splits prod.splits zht_error.splits dest!: decode_message_rest)

function connection_loop ::
  "encoder \<Rightarrow> decoder \<Rightarrow> (nat \<Rightarrow> serve_env) \<Rightarrow> (nat \<Rightarrow> wio) \<Rightarrow> nat \<Rightarrow> rstream \<Rightarrow> htworker \<Rightarrow> u8 list
    \<Rightarrow> (u8 list \<times> htworker) option"
where
  "connection_loop enc dec envs ws i s w out =
     (if \<exists>e. fst (recv_message dec s) = Inl e then Some (out, w)
      else
        case process (envs i) (projr (fst (recv_message dec s))) w of
          None \<Rightarrow> None
        | Some (response, w1) \<Rightarrow>
            let sent = send_message enc (ws i) response out in
            (case fst sent of
               Inl e \<Rightarrow> Some (snd sent, w1)
             | Inr _ \<Rightarrow>
                 connection_loop enc dec envs ws (Suc i) (snd (recv_message dec s)) w1 (snd sent)))"
  by pat_completeness auto
termination
  by (relation "measure (\<lambda>(enc, dec, envs, ws, i, s, w, out). length (rs_bytes s))")
    (auto, metis old.sum.exhaust recv_message_shrinks)

declare connection_loop.simps [simp del]

text \<open>The socket option, with its error if the system refuses it, and then the loop.\<close>

definition handle_connection ::
  "encoder \<Rightarrow> decoder \<Rightarrow> socket_addr \<Rightarrow> string option \<Rightarrow> (nat \<Rightarrow> serve_env) \<Rightarrow> (nat \<Rightarrow> wio)
    \<Rightarrow> rstream \<Rightarrow> htworker \<Rightarrow> (unit zht_result \<times> u8 list \<times> htworker) option"
where
  "handle_connection enc dec peer_addr nodelay envs ws s w =
     (case nodelay of
        Some e \<Rightarrow> Some (Inl (ConnectionFailed (show_ip peer_addr) (addr_port peer_addr) e), [], w)
      | None \<Rightarrow>
          (case connection_loop enc dec envs ws 0 s w [] of
             None \<Rightarrow> None
           | Some (out, w1) \<Rightarrow> Some (Inr (), out, w1)))"

section \<open>The accept loops\<close>

text \<open>
  What the listener reports, in order: a connection, an error, or (with shutdown support) the
  cancellation. The result is what the function returns, if it returns while these last, and
  the connections handed to handlers.
\<close>

datatype 'c server_event = Ev_Accept 'c | Ev_Accept_Err string | Ev_Cancelled

fun accept_loop ::
  "socket_addr \<Rightarrow> 'c server_event list \<Rightarrow> unit zht_result option \<times> 'c list"
where
  "accept_loop addr [] = (None, [])"
| "accept_loop addr (Ev_Accept c # evs) =
     (fst (accept_loop addr evs), c # snd (accept_loop addr evs))"
| "accept_loop addr (Ev_Accept_Err e # evs) = (Some (Inl (ConnectionFailed (show_ip addr) (addr_port addr) e)), [])"
| "accept_loop addr (Ev_Cancelled # evs) = accept_loop addr evs"

fun accept_loop_with_shutdown ::
  "socket_addr \<Rightarrow> 'c server_event list \<Rightarrow> unit zht_result option \<times> 'c list"
where
  "accept_loop_with_shutdown addr [] = (None, [])"
| "accept_loop_with_shutdown addr (Ev_Accept c # evs) =
     (fst (accept_loop_with_shutdown addr evs), c # snd (accept_loop_with_shutdown addr evs))"
| "accept_loop_with_shutdown addr (Ev_Accept_Err e # evs) =
     (Some (Inl (ConnectionFailed (show_ip addr) (addr_port addr) e)), [])"
| "accept_loop_with_shutdown addr (Ev_Cancelled # evs) = (Some (Inr ()), [])"

definition run_server ::
  "socket_addr \<Rightarrow> string option \<Rightarrow> 'c server_event list \<Rightarrow> unit zht_result option \<times> 'c list"
where
  "run_server addr bind_err evs =
     (case bind_err of
        Some e \<Rightarrow> (Some (Inl (ConnectionFailed (show_ip addr) (addr_port addr) e)), [])
      | None \<Rightarrow> accept_loop addr evs)"

definition run_server_with_shutdown ::
  "socket_addr \<Rightarrow> string option \<Rightarrow> 'c server_event list \<Rightarrow> unit zht_result option \<times> 'c list"
where
  "run_server_with_shutdown addr bind_err evs =
     (case bind_err of
        Some e \<Rightarrow> (Some (Inl (ConnectionFailed (show_ip addr) (addr_port addr) e)), [])
      | None \<Rightarrow> accept_loop_with_shutdown addr evs)"

section \<open>A connection serves its requests in order\<close>

text \<open>Serving a list of requests, each in its own surroundings.\<close>

fun serve_all :: "(nat \<Rightarrow> serve_env) \<Rightarrow> nat \<Rightarrow> zpack list \<Rightarrow> htworker \<Rightarrow> (zpack list \<times> htworker) option" where
  "serve_all envs i [] w = Some ([], w)"
| "serve_all envs i (req # reqs) w =
     (case process (envs i) req w of
        None \<Rightarrow> None
      | Some (resp, w1) \<Rightarrow>
          map_option (\<lambda>(resps, w2). (resp # resps, w2)) (serve_all envs (Suc i) reqs w1))"

text \<open>
  The bytes of a sequence of requests, followed by something that is not a request, are
  answered by the frames of the answers, in order.
\<close>

lemma connection_serves:
  assumes "list_all (clean_codec enc dec) reqs"
    and "rs_bytes s = concat (map (encode_message enc) reqs) @ rest"
    and "\<exists>e. fst (recv_message dec (s\<lparr>rs_bytes := rest\<rparr>)) = Inl e"
    and "\<And>j. ws j = Wio_Ok"
  shows "connection_loop enc dec envs ws i s w out =
     map_option (\<lambda>(resps, w'). (out @ concat (map (encode_message enc) resps), w'))
       (serve_all envs i reqs w)"
  using assms(1-3)
proof (induction reqs arbitrary: i s w out)
  case Nil
  then have "s\<lparr>rs_bytes := rest\<rparr> = s" by simp
  with Nil show ?case by (subst connection_loop.simps) simp
next
  case (Cons req reqs)
  let ?b = "concat (map (encode_message enc) reqs) @ rest"
  have r: "recv_message dec s = (Inr req, s\<lparr>rs_bytes := ?b\<rparr>)"
    using Cons.prems(1,2) by (intro recv_sent) (simp_all add: clean_codec_def)
  have IH: "connection_loop enc dec envs ws (Suc i) (s\<lparr>rs_bytes := ?b\<rparr>) v o' =
     map_option (\<lambda>(resps, w'). (o' @ concat (map (encode_message enc) resps), w'))
       (serve_all envs (Suc i) reqs v)" for v o'
    using Cons.prems by (intro Cons.IH) simp_all
  show ?case
    by (subst connection_loop.simps)
      (simp add: r IH send_message_def assms(4) Let_def option.map_comp o_def case_prod_unfold
        split: option.split)
qed

text \<open>At the end of the stream there is nothing to receive.\<close>

lemma recv_at_end: "rs_bytes s = [] \<Longrightarrow> fst (recv_message dec s) = Inl (RecvFailed (rs_end s))"
  by (simp add: recv_message_def read_exact_def)

text \<open>
  A shutdown ends the accept loop at once and cleanly: what was accepted before it is handed
  to handlers, nothing is accepted after it, whatever still comes; without it the loop goes on.
\<close>

lemma shutdown_stops_accepting:
  "accept_loop_with_shutdown addr (map Ev_Accept cs @ Ev_Cancelled # evs) = (Some (Inr ()), cs) \<and>
   accept_loop_with_shutdown addr (map Ev_Accept cs) = (None, cs)"
  by (induction cs) simp_all

section \<open>Properties\<close>

text \<open>
  C7. A connection serves its requests in order, one answer per request: on the bytes of a
  list of messages, followed by a broken start of another or nothing, the handler, whose
  writes succeed, writes the frames of the answers the worker gives one after the other, and
  returns exactly when the worker answers them all.
\<close>

theorem requests_served_in_order:
  assumes "list_all (clean_codec enc dec) reqs"
    and "length (enc z) < 2 ^ 32" "n < length (encode_message enc z)"
  shows "connection_loop enc dec envs (\<lambda>_. Wio_Ok) 0
      \<lparr>rs_bytes = concat (map (encode_message enc) reqs) @ take n (encode_message enc z), rs_end = e\<rparr> w [] =
     map_option (\<lambda>(resps, w'). (concat (map (encode_message enc) resps), w'))
       (serve_all envs 0 reqs w)"
proof -
  let ?s = "\<lparr>rs_bytes = concat (map (encode_message enc) reqs) @ take n (encode_message enc z), rs_end = e\<rparr>"
  have "fst (recv_message dec (?s\<lparr>rs_bytes := take n (encode_message enc z)\<rparr>)) = Inl (RecvFailed e)"
    using decode_prefix [OF assms(2,3), of dec] by (simp add: recv_decode)
  then have "connection_loop enc dec envs (\<lambda>_. Wio_Ok) 0 ?s w [] =
     map_option (\<lambda>(resps, w'). ([] @ concat (map (encode_message enc) resps), w')) (serve_all envs 0 reqs w)"
    by (intro connection_serves [OF assms(1), where rest = "take n (encode_message enc z)"]) auto
  then show ?thesis by simp
qed

theorem requests_served_in_order_witness:
  fixes reqs :: "zpack list" and envs :: "nat \<Rightarrow> serve_env"
  defines "reqs \<equiv> [ZPack_default, ZPack_default\<lparr>zp_key := [107]\<rparr>]"
    and "envs \<equiv> \<lambda>_. \<lparr>se_io = Io_Ok, se_views = (\<lambda>_. NoVoHT_new), se_clock = (\<lambda>_. 0)\<rparr>"
  shows "connection_loop sample_enc sample_dec envs (\<lambda>_. Wio_Ok) 0
      \<lparr>rs_bytes = concat (map (encode_message sample_enc) reqs)
         @ take 3 (encode_message sample_enc ZPack_default), rs_end = ''early eof''\<rparr>
      (HTWorker_new NoVoHT_new) [] =
     map_option (\<lambda>(resps, w'). (concat (map (encode_message sample_enc) resps), w'))
       (serve_all envs 0 reqs (HTWorker_new NoVoHT_new))"
  by (rule requests_served_in_order)
    (simp_all add: reqs_def ZPack_default_def length_encode_message sample_enc_def sample_field_def)

end
