(* ===== verification/Worker_Utf8.thy ===== *)
theory Worker_Utf8
  imports Tcp_Server
begin

text \<open>
  The type of what a node holds and sends. A Rust \<open>String\<close> is UTF-8, while here it is any list of
  bytes; that the keys and values of the store are strings indeed, whatever bytes the requests
  carry, is an invariant, and so is that no key is empty. What a client decodes of an answer is UTF-8.
\<close>

definition utf8_map :: "(string \<rightharpoonup> string) \<Rightarrow> bool" where
  "utf8_map m \<longleftrightarrow> (\<forall>k v. m k = Some v \<longrightarrow> k \<noteq> [] \<and> valid_str k \<and> valid_str v)"

definition utf8_answer :: "zpack \<Rightarrow> bool" where
  "utf8_answer resp \<longleftrightarrow> valid_utf8 (zp_lease resp) \<and> valid_utf8 (zp_val resp)"

lemma utf8_map_empty [simp]: "utf8_map Map.empty"
  by (simp add: utf8_map_def)

lemma utf8_map_upd: "utf8_map m \<Longrightarrow> k \<noteq> [] \<Longrightarrow> valid_str k \<Longrightarrow> valid_str v \<Longrightarrow> utf8_map (m(k \<mapsto> v))"
  by (auto simp: utf8_map_def)

lemma utf8_map_del: "utf8_map m \<Longrightarrow> utf8_map (m(k := None))"
  by (auto simp: utf8_map_def)

lemma utf8_map_Some: "utf8_map m \<Longrightarrow> m k = Some v \<Longrightarrow> valid_str v"
  by (simp add: utf8_map_def)

lemma utf8_written:
  assumes "utf8_map m" "valid_str v"
  shows "valid_str (appended (m k) v)" "valid_str (swapped (m k) e v)"
  using assms utf8_map_Some [OF assms(1), of k]
  by (auto simp: appended_def swapped_def intro!: valid_str_append split: option.split)

lemma utf8_written_new:
  assumes "valid_str v"
  shows "valid_str (appended None v)" "valid_str (swapped None e v)"
  using assms by (simp_all add: appended_def swapped_def)

lemmas utf8_writes = utf8_written utf8_written_new

lemma utf8_node_answer: "utf8_map m \<Longrightarrow> utf8_map (snd (node_answer req m))"
  by (auto simp: node_answer_def Let_def utf8_map_upd utf8_map_del utf8_writes split: option.split)

lemma valid_utf8_as_bytes: "valid_utf8 (as_bytes s) \<longleftrightarrow> valid_str s"
  by (simp add: valid_str_def)

lemma utf8_answered:
  "utf8_answer (answered status req) \<longleftrightarrow> valid_str status"
  "utf8_answer ((answered status req)\<lparr>zp_valnull := b\<rparr>) \<longleftrightarrow> valid_str status"
  "utf8_answer ((answered status req)\<lparr>zp_val := as_bytes v\<rparr>) \<longleftrightarrow> valid_str status \<and> valid_str v"
  using valid_str_Nil
  by (simp_all add: utf8_answer_def answered_def start_response_def ZPack_default_def valid_str_def
      del: valid_str_Nil)

lemma valid_status [simp]:
  "valid_str REC_SUCC" "valid_str REC_EMPTYKEY" "valid_str REC_CLTFAIL" "valid_str REC_SRVFAIL"
  "valid_str REC_SCCBPOLLTRY" "valid_str REC_NONEXISTKEY" "valid_str REC_UOPC"
  by (simp_all add: status_defs)

lemma utf8_node_response: "utf8_map m \<Longrightarrow> utf8_answer (fst (node_answer req m))"
  by (auto simp: node_answer_def Let_def utf8_answered utf8_writes utf8_map_Some
      intro!: valid_str_append split: option.split)

text \<open>One request. During a callback the store is what other connections make of it.\<close>

definition utf8_views :: "serve_env \<Rightarrow> bool" where
  "utf8_views env \<longleftrightarrow> (\<forall>n. utf8_map (hm_get (nv_map (se_views env n))))"

lemma process_utf8:
  assumes "process env req w = Some (resp, w')" "utf8_map (node_map w)" "utf8_views env"
  shows "utf8_map (node_map w') \<and> utf8_answer resp"
proof (cases "is_sccb req")
  case True
  let ?key = "from_utf8_lossy (zp_key req)"
  from True have "process env req w = process_stchgcb env req ?key (start_response req) (inc wm_total_operations_update w)"
    by (simp add: process_def Let_def is_sccb_def opcode_defs)
  with assms(1) have v: "process_stchgcb env req ?key (start_response req) (inc wm_total_operations_update w)
      = Some (resp, w')" by simp
  then obtain st n where n: "sccb_poll (se_views env) (se_clock env) ?key
        (from_utf8_lossy (zp_val req)) (se_clock env 0 + lease_of req) 0 = Some (st, n)"
    by (auto simp: process_stchgcb_def Let_def split: option.splits)
  have "st = as_bytes REC_SUCC \<or> st = as_bytes REC_SCCBPOLLTRY"
    using sccb_poll_sound [OF n] by (auto simp: poll_ends_def split: if_splits)
  then have "utf8_answer ((start_response req)\<lparr>zp_lease := st\<rparr>)"
    by (metis answered_def utf8_answered(1) valid_status(1,5))
  moreover have "utf8_map (hm_get (nv_map (se_views env n)))" using assms(3) by (simp add: utf8_views_def)
  ultimately show ?thesis
    using v n by (auto simp: process_stchgcb_def Let_def node_map_def inc_def)
next
  case False
  then obtain w1 where "process env req w = Some (fst (node_answer req (node_map w)), w1)"
    "node_map w1 = snd (node_answer req (node_map w))"
    using process_refines by metis
  with assms(1) utf8_node_answer [OF assms(2), of req] utf8_node_response [OF assms(2), of req]
  show ?thesis by simp
qed

lemma serve_all_utf8:
  "serve_all envs i reqs w = Some (resps, w') \<Longrightarrow> utf8_map (node_map w) \<Longrightarrow> (\<And>j. utf8_views (envs j)) \<Longrightarrow>
   utf8_map (node_map w') \<and> list_all utf8_answer resps"
proof (induction reqs arbitrary: i w resps)
  case (Cons req reqs)
  then obtain resp w1 resps1 where 1: "process (envs i) req w = Some (resp, w1)"
      "serve_all envs (Suc i) reqs w1 = Some (resps1, w')" "resps = resp # resps1"
    by (auto split: option.splits)
  from process_utf8 [OF 1(1) Cons.prems(2,3)] Cons.IH [OF 1(2) _ Cons.prems(3)] 1(3)
  show ?case by simp
qed simp

section \<open>Properties\<close>

text \<open>
  C14. A node holds strings: whatever bytes the requests of a connection carry, and whatever the
  file system does, the keys and values of its store stay UTF-8 and no key is ever empty, as long
  as the other connections keep it so during a callback; and the status and the value of every answer are UTF-8,
  so that a client that decodes them loses nothing.
\<close>

theorem strings_stay_utf8:
  assumes "utf8_map (node_map w)" "\<And>i. utf8_views (envs i)" "serve_all envs 0 reqs w = Some (resps, w')"
  shows "utf8_map (node_map w') \<and> list_all utf8_answer resps"
  using assms(3,1,2) by (rule serve_all_utf8)

theorem strings_stay_utf8_witness:
  fixes req :: zpack and env :: serve_env
  defines "req \<equiv> ZPack_default\<lparr>zp_opcode := as_bytes OPC_INSERT, zp_key := [255], zp_val := [128, 65]\<rparr>"
    and "env \<equiv> \<lparr>se_io = Io_Ok, se_views = (\<lambda>_. NoVoHT_new), se_clock = (\<lambda>_. 0)\<rparr>"
  shows "\<exists>resps w'. serve_all (\<lambda>_. env) 0 [req] (HTWorker_new NoVoHT_new) = Some (resps, w') \<and>
    utf8_map (node_map w') \<and> list_all utf8_answer resps"
proof -
  have empty: "utf8_map (node_map (HTWorker_new NoVoHT_new))" "utf8_views env"
    by (simp_all add: env_def utf8_views_def node_map_def HTWorker_new_def NoVoHT_new_def hm_get_def utf8_map_def)
  have "valid_str OPC_INSERT" by (simp add: opcode_defs)
  have "from_utf8_lossy (zp_opcode req) = OPC_INSERT"
    using \<open>valid_str OPC_INSERT\<close> by (simp add: req_def)
  then have "\<not> is_sccb req" by (simp add: is_sccb_def opcode_defs)
  then obtain w' where "process env req (HTWorker_new NoVoHT_new)
      = Some (fst (node_answer req (node_map (HTWorker_new NoVoHT_new))), w')"
    using process_refines by metis
  then obtain resps where run: "serve_all (\<lambda>_. env) 0 [req] (HTWorker_new NoVoHT_new) = Some (resps, w')"
    by simp
  from strings_stay_utf8 [OF empty(1) empty(2) run] run show ?thesis by blast
qed

end
