(* ===== verification/Cluster.thy ===== *)
theory Cluster
  imports Zht_Client Tcp_Proxy Worker_Utf8
begin

text \<open>
  Client, proxy and servers put together: each node of a cluster is a worker behind
  \<open>connection_loop\<close>, and a call of the client goes through \<open>tcp_sendrecv\<close> of its proxy, over a
  network that loses nothing: the frame the proxy writes is what the server reads, and the
  bytes the server writes are what arrives. Connecting to an address with no node is refused.
  This is the transport the client's contract \<open>zht_net\<close> is interpreted on.
\<close>

record cluster =
  cu_proxy :: tcp_proxy
  cu_nodes :: "(string, htworker) hashmap"

text \<open>The surroundings: the file system's answer, the clock, and two texts of system errors.\<close>

record cluster_env =
  ce_io :: io
  ce_clock :: "nat \<Rightarrow> nat"
  ce_eof :: string
  ce_refused :: string

definition served_frame ::
  "encoder \<Rightarrow> decoder \<Rightarrow> cluster_env \<Rightarrow> u8 list \<Rightarrow> htworker \<Rightarrow> (u8 list \<times> htworker) option"
where
  "served_frame enc dec env bytes w =
     connection_loop enc dec
       (\<lambda>_. \<lparr>se_io = ce_io env, se_views = (\<lambda>_. hw_store w), se_clock = ce_clock env\<rparr>)
       (\<lambda>_. Wio_Ok) 0 \<lparr>rs_bytes = bytes, rs_end = ce_eof env\<rparr> w []"

definition network :: "cluster_env \<Rightarrow> string + u8 list \<Rightarrow> tcp_env" where
  "network env reply =
     \<lparr>te_connect = (\<lambda>_. case reply of
         Inl _ \<Rightarrow> Inl (ce_refused env) | Inr _ \<Rightarrow> Inr \<lparr>rs_bytes = [], rs_end = ce_eof env\<rparr>),
      te_send = (\<lambda>_. Wio_Ok),
      te_reply = (\<lambda>_. \<lparr>rs_bytes = (case reply of Inl _ \<Rightarrow> [] | Inr bytes \<Rightarrow> bytes), rs_end = ce_eof env\<rparr>),
      te_now = ce_clock env, te_cut = None, te_timeout_ms = 0\<rparr>"

definition cluster_sendrecv ::
  "encoder \<Rightarrow> decoder \<Rightarrow> cluster_env \<Rightarrow> string \<Rightarrow> u16 \<Rightarrow> zpack \<Rightarrow> cluster
    \<Rightarrow> (zpack zht_result \<times> cluster) option"
where
  "cluster_sendrecv enc dec env h p z cu =
     (case hm_get (cu_nodes cu) (gen_base h p) of
        None \<Rightarrow>
          let r = tcp_sendrecv enc dec (network env (Inl ''refused'')) h p z (cu_proxy cu)
          in Some (fst r, cu\<lparr>cu_proxy := snd r\<rparr>)
      | Some w \<Rightarrow>
          (case served_frame enc dec env (encode_message enc z) w of
             None \<Rightarrow> None
           | Some (bytes, w1) \<Rightarrow>
               let r = tcp_sendrecv enc dec (network env (Inr bytes)) h p z (cu_proxy cu)
               in Some (fst r, cu\<lparr>cu_proxy := snd r,
                    cu_nodes := hm_insert (gen_base h p) w1 (cu_nodes cu)\<rparr>)))"

definition cluster_content :: "cluster \<Rightarrow> string \<Rightarrow> (string \<rightharpoonup> string) option" where
  "cluster_content cu a = map_option node_map (hm_get (cu_nodes cu) a)"

text \<open>Nodes are well-formed and hold UTF-8; no connection has unread bytes.\<close>

definition cluster_good :: "cluster \<Rightarrow> bool" where
  "cluster_good cu \<longleftrightarrow>
     (\<forall>a w. hm_get (cu_nodes cu) a = Some w \<longrightarrow> node_wf w \<and> utf8_map (node_map w)) \<and>
     (\<forall>a. unread (cu_proxy cu) a = [])"

text \<open>A node behind its connection: one frame in, one frame out.\<close>

lemma served_frame_answers:
  assumes "\<not> is_sccb req" "clean_codec enc dec req"
  obtains w1 where "served_frame enc dec env (encode_message enc req) w
       = Some (encode_message enc (fst (node_answer req (node_map w))), w1)"
    and "node_map w1 = snd (node_answer req (node_map w))" and "node_wf w \<Longrightarrow> node_wf w1"
proof -
  let ?env = "\<lparr>se_io = ce_io env, se_views = (\<lambda>_. hw_store w), se_clock = ce_clock env\<rparr>"
  obtain w1 where p: "process ?env req w = Some (fst (node_answer req (node_map w)), w1)"
    and w1: "node_map w1 = snd (node_answer req (node_map w))" "node_wf w \<Longrightarrow> node_wf w1"
    using process_refines [OF assms(1)] by metis
  have "served_frame enc dec env (encode_message enc req) w =
     map_option (\<lambda>(resps, w'). ([] @ concat (map (encode_message enc) resps), w'))
       (serve_all (\<lambda>_. ?env) 0 [req] w)"
    unfolding served_frame_def
    by (rule connection_serves [where rest = "[]"]) (use assms(2) in \<open>simp_all add: recv_at_end\<close>)
  with p w1 show ?thesis by (intro that) simp_all
qed

lemma cluster_call:
  assumes "cluster_good cu" "cluster_content cu (gen_base h p) = Some m" "\<not> is_sccb req"
    and "clean_codec enc dec req" "clean_codec enc dec (fst (node_answer req m))"
  shows "\<exists>cu'. cluster_sendrecv enc dec env h p req cu = Some (Inr (fst (node_answer req m)), cu') \<and>
     cluster_good cu' \<and>
     cluster_content cu' = (cluster_content cu)(gen_base h p \<mapsto> snd (node_answer req m))"
proof -
  let ?addr = "gen_base h p" and ?resp = "fst (node_answer req m)"
  obtain w where w: "hm_get (cu_nodes cu) ?addr = Some w" and m: "m = node_map w"
    using assms(2) by (auto simp: cluster_content_def)
  have good: "node_wf w" "utf8_map m" "\<And>a. unread (cu_proxy cu) a = []"
    using assms(1) w m by (auto simp: cluster_good_def)
  obtain w1 where f: "served_frame enc dec env (encode_message enc req) w
       = Some (encode_message enc ?resp, w1)"
    and w1: "node_map w1 = snd (node_answer req m)" "node_wf w1"
    using served_frame_answers [OF assms(3,4)] good(1) m by metis
  let ?net = "network env (Inr (encode_message enc ?resp))"
  have "gets_through ?net ?addr 0 (cu_proxy cu)"
    by (simp add: gets_through_def network_def)
  moreover have "unread (cu_proxy cu) ?addr @ rs_bytes (te_reply ?net 0) = encode_message enc ?resp @ []"
    by (simp add: good(3) network_def)
  ultimately obtain px where px: "tcp_sendrecv enc dec ?net h p req (cu_proxy cu) = (Inr ?resp, px)"
    "unread px ?addr = []"
    "\<forall>a. a \<noteq> ?addr \<longrightarrow> hm_get (tp_connections px) a = hm_get (tp_connections (cu_proxy cu)) a"
    using sendrecv_answered [of ?net h p "cu_proxy cu" enc ?resp "[]" dec req] assms(5) by blast
  have unread: "unread px a = []" for a
    using px(2,3) good(3) [of a] by (cases "a = ?addr") (simp_all add: unread_def)
  let ?cu = "cu\<lparr>cu_proxy := px, cu_nodes := hm_insert ?addr w1 (cu_nodes cu)\<rparr>"
  have "cluster_sendrecv enc dec env h p req cu = Some (Inr ?resp, ?cu)"
    by (simp add: cluster_sendrecv_def w f px(1))
  moreover have "cluster_good ?cu"
    using assms(1) w1 utf8_node_answer [OF good(2), of req] unread by (simp add: cluster_good_def)
  moreover have "cluster_content ?cu = (cluster_content cu)(?addr \<mapsto> snd (node_answer req m))"
    using w1 by (auto simp: cluster_content_def)
  ultimately show ?thesis by blast
qed

interpretation net: zht_net
  "cluster_sendrecv enc dec env" cluster_content cluster_good "clean_codec enc dec"
  for enc dec env
proof unfold_locales
  show "valid_str v" if "cluster_good cu" "cluster_content cu a = Some m" "m k = Some v" for cu a m k v
    using that by (auto simp: cluster_good_def cluster_content_def utf8_map_def)
qed (rule cluster_call)

end
