(* ===== verification/Dht.thy ===== *)
theory Dht
  imports Cluster
begin

text \<open>
  What the parts are for: a client on a cluster is one map from keys to values, spread over the
  nodes by the hash of the key. The abstract machine is \<open>dht_spec\<close>, on a single map, as the client
  documents its operations; \<open>swap_meets\<close> and \<open>returned\<close> say where the code departs from it. The
  abstraction \<open>dht_map\<close> looks a key up on the node that \<open>resolve_node\<close> names. The refinement is
  proved once over the client's contract \<open>zht_net\<close> and used for the cluster of \<open>Cluster\<close>.
\<close>

section \<open>The client's operations and what they promise\<close>

datatype dht_op =
    D_Insert string string
  | D_Lookup string
  | D_Remove string
  | D_Append string string
  | D_Cas string string string

datatype dht_out = D_Unit "unit client_result" | D_Value "string client_result"

primrec op_key :: "dht_op \<Rightarrow> string" where
  "op_key (D_Insert key _) = key"
| "op_key (D_Lookup key) = key"
| "op_key (D_Remove key) = key"
| "op_key (D_Append key _) = key"
| "op_key (D_Cas key _ _) = key"

primrec op_request :: "dht_op \<Rightarrow> zpack" where
  "op_request (D_Insert key value) = insert_request key value"
| "op_request (D_Lookup key) = lookup_request key"
| "op_request (D_Remove key) = remove_request key"
| "op_request (D_Append key value) = append_request key value"
| "op_request (D_Cas key e n) = cas_request key e n"

primrec dht_step :: "'s transport \<Rightarrow> zht_client \<Rightarrow> dht_op \<Rightarrow> 's \<Rightarrow> (dht_out \<times> 's) option" where
  "dht_step call c (D_Insert key value) s = map_option (map_prod D_Unit id) (client_insert call c key value s)"
| "dht_step call c (D_Lookup key) s = map_option (map_prod D_Value id) (client_lookup call c key s)"
| "dht_step call c (D_Remove key) s = map_option (map_prod D_Unit id) (client_remove call c key s)"
| "dht_step call c (D_Append key value) s = map_option (map_prod D_Unit id) (client_append call c key value s)"
| "dht_step call c (D_Cas key e n) s = map_option (map_prod D_Value id) (client_compare_swap call c key e n s)"

fun dht_run :: "'s transport \<Rightarrow> zht_client \<Rightarrow> dht_op list \<Rightarrow> 's \<Rightarrow> (dht_out list \<times> 's) option" where
  "dht_run call c [] s = Some ([], s)"
| "dht_run call c (x # xs) s =
     (case dht_step call c x s of
        None \<Rightarrow> None
      | Some (r, s1) \<Rightarrow> map_option (\<lambda>(rs, s2). (r # rs, s2)) (dht_run call c xs s1))"

text \<open>
  One operation on one map, as the client documents it: a swap returns the value that the key
  then has, a mismatch is reported with the value that was found, and a missing key is reported.
  Only an empty key is refused.
\<close>

primrec keyed_spec :: "dht_op \<Rightarrow> (string \<rightharpoonup> string) \<Rightarrow> dht_out \<times> (string \<rightharpoonup> string)" where
  "keyed_spec (D_Insert key value) m = (D_Unit (Inr ()), m(key \<mapsto> value))"
| "keyed_spec (D_Lookup key) m =
     (D_Value (case m key of Some v \<Rightarrow> Inr v | None \<Rightarrow> Inl (CeZht (KeyNotFound key))), m)"
| "keyed_spec (D_Remove key) m =
     (D_Unit (if m key = None then Inl (CeZht (KeyNotFound key)) else Inr ()), m(key := None))"
| "keyed_spec (D_Append key value) m =
     (D_Unit (Inr ()), m(key \<mapsto> (case m key of None \<Rightarrow> value | Some v \<Rightarrow> v @ '':'' @ value)))"
| "keyed_spec (D_Cas key e n) m =
     (case m key of
        None \<Rightarrow> (D_Value (Inl (CeZht (KeyNotFound key))), m)
      | Some v \<Rightarrow>
          if v = e then (D_Value (Inr n), m(key \<mapsto> n))
          else (D_Value (Inl (CeZht (CasMismatch e v))), m))"

primrec refused :: "dht_op \<Rightarrow> dht_out" where
  "refused (D_Insert _ _) = D_Unit (Inl (CeZht EmptyKey))"
| "refused (D_Lookup _) = D_Value (Inl (CeZht EmptyKey))"
| "refused (D_Remove _) = D_Unit (Inl (CeZht EmptyKey))"
| "refused (D_Append _ _) = D_Unit (Inl (CeZht EmptyKey))"
| "refused (D_Cas _ _ _) = D_Value (Inl (CeZht EmptyKey))"

definition dht_spec :: "dht_op \<Rightarrow> (string \<rightharpoonup> string) \<Rightarrow> dht_out \<times> (string \<rightharpoonup> string)" where
  "dht_spec x m = (if op_key x = [] then (refused x, m) else keyed_spec x m)"

text \<open>
  Where the code departs from it. A compare-and-swap is sure to do as documented when its key is
  stored and does not hold the new value already, unless that is the expected one; and of a
  successful swap the value is lost, an empty string is returned.
\<close>

fun swap_meets :: "dht_op \<Rightarrow> (string \<rightharpoonup> string) \<Rightarrow> bool" where
  "swap_meets (D_Cas key e n) m \<longleftrightarrow>
     key = [] \<or> (case m key of None \<Rightarrow> False | Some v \<Rightarrow> v = n \<longrightarrow> v = e)"
| "swap_meets _ m \<longleftrightarrow> True"

fun returned :: "dht_op \<Rightarrow> dht_out \<Rightarrow> dht_out" where
  "returned (D_Cas _ _ _) (D_Value (Inr _)) = D_Value (Inr [])"
| "returned _ out = out"

text \<open>What the nodes do, in all cases, for the proofs.\<close>

definition keyed_code :: "dht_op \<Rightarrow> (string \<rightharpoonup> string) \<Rightarrow> dht_out \<times> (string \<rightharpoonup> string)" where
  "keyed_code x m =
     (case x of
        D_Cas key e n \<Rightarrow>
          let a = swapped (m key) e n
          in (D_Value (if a = n then Inr [] else Inl (CeZht (CasMismatch e a))), m(key \<mapsto> a))
      | _ \<Rightarrow> keyed_spec x m)"

definition dht_code :: "dht_op \<Rightarrow> (string \<rightharpoonup> string) \<Rightarrow> dht_out \<times> (string \<rightharpoonup> string)" where
  "dht_code x m = (if op_key x = [] then (refused x, m) else keyed_code x m)"

lemma code_meets_spec:
  assumes "swap_meets x m"
  shows "dht_code x m = (returned x (fst (dht_spec x m)), snd (dht_spec x m))"
  using assms
  by (cases x) (auto simp: dht_code_def dht_spec_def keyed_code_def swapped_def fun_upd_idem split: option.splits)

section \<open>The abstraction\<close>

definition dht_map ::
  "zht_client \<Rightarrow> (string \<Rightarrow> (string \<rightharpoonup> string) option) \<Rightarrow> string \<rightharpoonup> string"
where
  "dht_map c nodes key =
     (case resolve_node (cl_config c) key of
        Inl _ \<Rightarrow> None
      | Inr node \<Rightarrow> (case nodes (address node) of None \<Rightarrow> None | Some m \<Rightarrow> m key))"

text \<open>The client is ready, and every neighbour it knows is served.\<close>

definition covers :: "zht_client \<Rightarrow> (string \<Rightarrow> (string \<rightharpoonup> string) option) \<Rightarrow> bool" where
  "covers c nodes \<longleftrightarrow>
     cl_initialized c \<and> nc_neighbors (ac_neighbors (cl_config c)) \<noteq> [] \<and>
     list_all (\<lambda>n. nodes (address n) \<noteq> None) (nc_neighbors (ac_neighbors (cl_config c)))"

text \<open>
  A Rust string is UTF-8; and the messages of the run can be carried, with swaps that meet the
  documentation.
\<close>

primrec op_utf8 :: "dht_op \<Rightarrow> bool" where
  "op_utf8 (D_Insert key value) \<longleftrightarrow> valid_str key \<and> valid_str value"
| "op_utf8 (D_Lookup key) \<longleftrightarrow> valid_str key"
| "op_utf8 (D_Remove key) \<longleftrightarrow> valid_str key"
| "op_utf8 (D_Append key value) \<longleftrightarrow> valid_str key \<and> valid_str value"
| "op_utf8 (D_Cas key e n) \<longleftrightarrow> valid_str key \<and> valid_str e \<and> valid_str n"

fun run_carried :: "(zpack \<Rightarrow> bool) \<Rightarrow> (string \<rightharpoonup> string) \<Rightarrow> dht_op list \<Rightarrow> bool" where
  "run_carried carried m [] \<longleftrightarrow> True"
| "run_carried carried m (x # xs) \<longleftrightarrow>
     exchanged carried (op_request x) m \<and> swap_meets x m \<and> run_carried carried (snd (dht_spec x m)) xs"

lemma covers_served:
  assumes "covers c nodes" "key \<noteq> []" "valid_str key"
  obtains addr m where "served_by c key addr nodes m"
    and "\<And>nodes'. dht_map c nodes' key = (case nodes' addr of None \<Rightarrow> None | Some m \<Rightarrow> m key)"
proof -
  let ?ns = "nc_neighbors (ac_neighbors (cl_config c))"
  let ?n = "?ns ! route_index key (length ?ns)"
  have ne: "?ns \<noteq> []" using assms(1) by (simp add: covers_def)
  then have r: "resolve_node (cl_config c) key = Inr ?n" by (rule resolve_node_Inr)
  have "?n \<in> set ?ns" using ne by (simp add: route_index_less)
  then obtain m where "nodes (address ?n) = Some m"
    using assms(1) by (auto simp: covers_def list_all_iff)
  with r assms show ?thesis by (intro that [of "address ?n" m]) (simp_all add: served_by_def covers_def dht_map_def)
qed

lemma covers_upd: "covers c nodes \<Longrightarrow> covers c (nodes(addr \<mapsto> m))"
  by (auto simp: covers_def list_all_iff)

text \<open>A change of one key at its node is that change of the whole map.\<close>

lemma dht_map_upd:
  assumes "served_by c key addr nodes m" "\<And>k. k \<noteq> key \<Longrightarrow> m' k = m k"
  shows "dht_map c (nodes(addr \<mapsto> m')) = (dht_map c nodes)(key := m' key)"
  using assms by (auto simp: fun_eq_iff served_by_def dht_map_def split: sum.splits option.splits)

lemma dht_map_served: "served_by c key addr nodes m \<Longrightarrow> dht_map c nodes key = m key"
  by (auto simp: served_by_def dht_map_def split: sum.splits)

text \<open>An answer depends on the map only at the request's key.\<close>

lemma answer_local:
  "m1 (from_utf8_lossy (zp_key req)) = m2 (from_utf8_lossy (zp_key req)) \<Longrightarrow>
     fst (node_answer req m1) = fst (node_answer req m2)"
  by (simp add: node_answer_def Let_def split: option.split)

lemma op_request_key: "op_utf8 x \<Longrightarrow> from_utf8_lossy (zp_key (op_request x)) = op_key x"
  by (cases x) simp_all

lemma exchanged_local:
  assumes "op_utf8 x" "m1 (op_key x) = m2 (op_key x)" "exchanged carried (op_request x) m1"
  shows "exchanged carried (op_request x) m2"
  using assms answer_local [of m1 "op_request x" m2] by (simp add: exchanged_def op_request_key)

section \<open>Refinement\<close>

lemma empty_key_step:
  "covers c nodes \<Longrightarrow> op_key x = [] \<Longrightarrow> dht_step call c x s = Some (refused x, s)"
  by (cases x)
    (simp_all add: covers_def client_insert_def client_lookup_def client_remove_def client_append_def
      client_compare_swap_def client_request_def ensure_initialized_def check_key_def)

context zht_net
begin

text \<open>The answer of a node and the change of its map are those of the operation on that map.\<close>

lemma node_step_ok:
  assumes "served_by c (op_key x) addr (content s) m" "good s" "op_utf8 x"
    and "exchanged carried (op_request x) m"
  shows "\<exists>s'. dht_step call c x s = Some (fst (keyed_code x m), s') \<and> good s' \<and>
     content s' = (content s)(addr \<mapsto> snd (keyed_code x m))"
proof (cases x)
  case (D_Insert key v)
  with insert_ok [of c key addr s m v] assms show ?thesis by (fastforce simp: keyed_code_def)
next
  case (D_Lookup key)
  have "(content s)(addr \<mapsto> m) = content s"
    using assms(1) by (simp add: served_by_def fun_upd_idem)
  with D_Lookup lookup_ok [of c key addr s m] assms show ?thesis by (fastforce simp: keyed_code_def)
next
  case (D_Remove key)
  with remove_ok [of c key addr s m] assms show ?thesis by (fastforce simp: keyed_code_def)
next
  case (D_Append key v)
  have "appended (m key) v = (case m key of None \<Rightarrow> v | Some old \<Rightarrow> old @ '':'' @ v)"
    by (simp add: appended_def split: option.split)
  with D_Append append_ok [of c key addr s m v] assms show ?thesis by (fastforce simp: keyed_code_def)
next
  case (D_Cas key e n)
  have "keyed_code x m =
      (if swapped (m key) e n = n then D_Value (Inr [])
       else D_Value (Inl (CeZht (CasMismatch e (swapped (m key) e n)))), m(key \<mapsto> swapped (m key) e n))"
    by (simp add: D_Cas keyed_code_def Let_def)
  with D_Cas compare_swap_ok [of c key addr s m e n] assms show ?thesis by fastforce
qed

lemma dht_step_ok:
  assumes "covers c (content s)" "good s" "op_utf8 x"
    and "exchanged carried (op_request x) (dht_map c (content s))"
  shows "\<exists>s'. dht_step call c x s = Some (fst (dht_code x (dht_map c (content s))), s') \<and> good s' \<and>
     covers c (content s') \<and> dht_map c (content s') = snd (dht_code x (dht_map c (content s)))"
proof (cases "op_key x = []")
  case True
  with empty_key_step [OF assms(1) True, of call s] assms show ?thesis by (simp add: dht_code_def)
next
  case False
  have "valid_str (op_key x)" using assms(3) by (cases x) simp_all
  from covers_served [OF assms(1) False this] obtain addr m
    where served: "served_by c (op_key x) addr (content s) m" by blast
  let ?M = "dht_map c (content s)"
  have k: "?M (op_key x) = m (op_key x)" using served by (rule dht_map_served)
  have same: "fst (keyed_code x m) = fst (keyed_code x ?M)"
    "snd (keyed_code x m) (op_key x) = snd (keyed_code x ?M) (op_key x)"
    using k by (cases x, auto simp: keyed_code_def Let_def split: option.split)+
  have other: "snd (keyed_code x m') k' = m' k'" if "k' \<noteq> op_key x" for k' m'
    using that by (cases x) (auto simp: keyed_code_def Let_def split: option.split)
  have "dht_map c ((content s)(addr \<mapsto> snd (keyed_code x m))) = ?M(op_key x := snd (keyed_code x m) (op_key x))"
    using served other by (rule dht_map_upd)
  then have upd: "dht_map c ((content s)(addr \<mapsto> snd (keyed_code x m))) = snd (keyed_code x ?M)"
    unfolding same(2) by (simp add: fun_eq_iff other)
  have "exchanged carried (op_request x) m"
    using assms(3) k assms(4) by (rule exchanged_local)
  from node_step_ok [OF served assms(2,3) this]
  obtain s' where "dht_step call c x s = Some (fst (keyed_code x m), s')" "good s'"
    "content s' = (content s)(addr \<mapsto> snd (keyed_code x m))" by blast
  with False same(1) upd covers_upd [OF assms(1)] show ?thesis by (simp add: dht_code_def)
qed

lemma dht_run_ok:
  assumes "covers c (content s)" "good s" "list_all op_utf8 xs"
    and "run_carried carried (dht_map c (content s)) xs"
  shows "\<exists>s'. dht_run call c xs s = Some (map2 returned xs (fst (run_ops dht_spec xs (dht_map c (content s)))), s') \<and>
     good s' \<and> covers c (content s') \<and>
     dht_map c (content s') = snd (run_ops dht_spec xs (dht_map c (content s)))"
  using assms
proof (induction xs arbitrary: s)
  case (Cons x xs)
  then have x: "op_utf8 x" "exchanged carried (op_request x) (dht_map c (content s))"
    "swap_meets x (dht_map c (content s))" by simp_all
  from dht_step_ok [OF Cons.prems(1,2) x(1,2)] obtain s1
    where s1: "dht_step call c x s = Some (returned x (fst (dht_spec x (dht_map c (content s)))), s1)" "good s1"
      "covers c (content s1)" "dht_map c (content s1) = snd (dht_spec x (dht_map c (content s)))"
    unfolding code_meets_spec [OF x(3)] by auto
  from Cons.IH [OF s1(3,2)] Cons.prems(3,4) s1(1,4) show ?case by auto
qed simp

end

section \<open>Properties\<close>

text \<open>
  C1. A client over a cluster is one map, as the client documents it. When every node the
  client knows is served, any run of insert, lookup, remove, append and compare-and-swap calls
  whose messages fit a frame, over TCP connections, frames, request handlers and the nodes'
  stores, returns call by call what a single map returns, empty and missing keys and
  mismatches reported, and leaves the cluster standing for the map that results, whatever the
  spread of the keys over the nodes. Compare-and-swap departs from its documentation in three
  ways, which the statement names: a successful swap returns the empty string, not the value;
  and the run must not swap on a missing key, which would be inserted, nor, with another value
  expected, on a key that holds the new value, which would be reported as success.
\<close>

theorem cluster_is_one_map:
  assumes "covers c (cluster_content cu)" "cluster_good cu" "list_all op_utf8 xs"
    and "run_carried (clean_codec enc dec) (dht_map c (cluster_content cu)) xs"
  shows "\<exists>cu'. dht_run (cluster_sendrecv enc dec env) c xs cu =
      Some (map2 returned xs (fst (run_ops dht_spec xs (dht_map c (cluster_content cu)))), cu') \<and>
    cluster_good cu' \<and> covers c (cluster_content cu') \<and>
    dht_map c (cluster_content cu') = snd (run_ops dht_spec xs (dht_map c (cluster_content cu)))"
  using assms by (rule net.dht_run_ok)

text \<open>The swaps that such a run leaves out: what the documentation says of them does not happen.\<close>

lemma swap_departs:
  fixes key e n :: string and c :: zht_client and cu :: cluster
  defines "M \<equiv> dht_map c (cluster_content cu)"
  assumes "covers c (cluster_content cu)" "cluster_good cu" "op_utf8 (D_Cas key e n)" "key \<noteq> []"
    and "exchanged (clean_codec enc dec) (cas_request key e n) M" "M key = None \<or> M key = Some n"
  shows "\<exists>cu'. client_compare_swap (cluster_sendrecv enc dec env) c key e n cu = Some (Inr [], cu') \<and>
    dht_map c (cluster_content cu') = M(key \<mapsto> n)"
proof -
  have "dht_code (D_Cas key e n) M = (D_Value (Inr []), M(key \<mapsto> n))"
    using assms(5,7) by (auto simp: dht_code_def keyed_code_def swapped_def Let_def)
  then show ?thesis
    using net.dht_step_ok [OF assms(2-4), of enc dec env] assms(6) by (auto simp: M_def)
qed

definition sample_client :: zht_client where
  "sample_client =
     \<lparr>cl_config = \<lparr>ac_zht = \<lparr>zc_parameters = [], zc_path = ''zht.conf''\<rparr>,
        ac_neighbors = \<lparr>nc_neighbors = [\<lparr>he_host = ''a'', he_port = 1\<rparr>, \<lparr>he_host = ''b'', he_port = 1\<rparr>],
          nc_path = ''neighbor.conf''\<rparr>\<rparr>, cl_initialized = True\<rparr>"

definition sample_cluster :: cluster where
  "sample_cluster =
     \<lparr>cu_proxy = TcpProxy_new,
      cu_nodes = [(''a:1'', HTWorker_new NoVoHT_new), (''b:1'', HTWorker_new NoVoHT_new)]\<rparr>"

lemma sample_address: "gen_base ''a'' 1 = ''a:1''" "gen_base ''b'' 1 = ''b:1''"
  by code_simp+

lemma sample_content: "cluster_content sample_cluster = [''a:1'' \<mapsto> Map.empty, ''b:1'' \<mapsto> Map.empty]"
  by (auto simp: fun_eq_iff cluster_content_def sample_cluster_def hm_get_def node_map_def HTWorker_new_def
      NoVoHT_new_def)

lemma sample_covered: "covers sample_client (cluster_content sample_cluster)"
  by (simp add: covers_def sample_client_def sample_content address_gen_base sample_address)

lemma sample_good: "cluster_good sample_cluster"
  by (auto simp: cluster_good_def sample_cluster_def hm_get_def node_wf_def HTWorker_new_def NoVoHT_new_def
      utf8_map_def node_map_def unread_def TcpProxy_new_def split: if_splits)

lemma sample_map: "dht_map sample_client (cluster_content sample_cluster) = Map.empty"
  by (auto simp: fun_eq_iff dht_map_def sample_content split: sum.split)

theorem cluster_is_one_map_witness:
  fixes xs :: "dht_op list" and env :: cluster_env
  defines "env \<equiv> \<lparr>ce_io = Io_Ok, ce_clock = (\<lambda>i. i), ce_eof = ''early eof'', ce_refused = ''Connection refused''\<rparr>"
    and "xs \<equiv> [D_Insert ''k'' ''v'', D_Append ''k'' ''w'', D_Lookup ''k'', D_Cas ''k'' ''v:w'' ''x'', D_Remove ''l'']"
  shows "\<exists>cu'. dht_run (cluster_sendrecv sample_enc sample_dec env) sample_client xs sample_cluster =
      Some (map2 returned xs (fst (run_ops dht_spec xs (dht_map sample_client (cluster_content sample_cluster)))), cu') \<and>
    cluster_good cu' \<and> covers sample_client (cluster_content cu') \<and>
    dht_map sample_client (cluster_content cu') =
      snd (run_ops dht_spec xs (dht_map sample_client (cluster_content sample_cluster)))"
  by (rule cluster_is_one_map [OF sample_covered sample_good])
    (simp add: xs_def,
     simp add: xs_def sample_map exchanged_def dht_spec_def node_answer_insert node_answer_append
       node_answer_lookup node_answer_cas node_answer_remove,
     simp add: request_defs answered_def start_response_def opcode_defs status_defs appended_def swapped_def)

end
