(* ===== verification/Many_Clients.thy ===== *)
theory Many_Clients
  imports Dht
begin

text \<open>
  Several clients on one cluster. Each has its own proxy, and they share the nodes; their calls
  follow one another in any order, each in surroundings of its own. Clients that read the same
  list of neighbours route a key to the same node, so what they share is one map.
\<close>

section \<open>A fleet of clients\<close>

record fleet =
  fl_clients :: "(zht_client \<times> tcp_proxy) list"
  fl_nodes :: "(string, htworker) hashmap"

text \<open>A call: the client that makes it, its surroundings, and the operation.\<close>

type_synonym fleet_call = "nat \<times> cluster_env \<times> dht_op"

abbreviation call_op :: "fleet_call \<Rightarrow> dht_op" where
  "call_op x \<equiv> snd (snd x)"

definition fleet_view :: "fleet \<Rightarrow> nat \<Rightarrow> cluster" where
  "fleet_view fl i = \<lparr>cu_proxy = snd (fl_clients fl ! i), cu_nodes = fl_nodes fl\<rparr>"

definition fleet_update :: "fleet \<Rightarrow> nat \<Rightarrow> cluster \<Rightarrow> fleet" where
  "fleet_update fl i cu =
     \<lparr>fl_clients = (fl_clients fl)[i := (fst (fl_clients fl ! i), cu_proxy cu)], fl_nodes = cu_nodes cu\<rparr>"

definition fleet_step ::
  "encoder \<Rightarrow> decoder \<Rightarrow> fleet_call \<Rightarrow> fleet \<Rightarrow> (dht_out \<times> fleet) option"
where
  "fleet_step enc dec x fl =
     (case x of (i, env, op) \<Rightarrow>
        map_option (\<lambda>(r, cu). (r, fleet_update fl i cu))
          (dht_step (cluster_sendrecv enc dec env) (fst (fl_clients fl ! i)) op (fleet_view fl i)))"

fun fleet_run ::
  "encoder \<Rightarrow> decoder \<Rightarrow> fleet_call list \<Rightarrow> fleet \<Rightarrow> (dht_out list \<times> fleet) option"
where
  "fleet_run enc dec [] fl = Some ([], fl)"
| "fleet_run enc dec (x # xs) fl =
     (case fleet_step enc dec x fl of
        None \<Rightarrow> None
      | Some (r, fl1) \<Rightarrow> map_option (\<lambda>(rs, fl2). (r # rs, fl2)) (fleet_run enc dec xs fl1))"

section \<open>What they share\<close>

abbreviation neighbors_of :: "zht_client \<Rightarrow> host_entity list" where
  "neighbors_of c \<equiv> nc_neighbors (ac_neighbors (cl_config c))"

text \<open>The map the nodes stand for, to a client that knows the neighbours \<open>ns\<close>.\<close>

definition shared_map :: "host_entity list \<Rightarrow> fleet \<Rightarrow> string \<rightharpoonup> string" where
  "shared_map ns fl key =
     (case hm_get (fl_nodes fl) (address (ns ! route_index key (length ns))) of
        None \<Rightarrow> None
      | Some w \<Rightarrow> node_map w key)"

text \<open>
  Every client is ready and read the neighbours \<open>ns\<close>; each of them is served; nodes are sound
  and no connection has unread bytes.
\<close>

definition fleet_ok :: "host_entity list \<Rightarrow> fleet \<Rightarrow> bool" where
  "fleet_ok ns fl \<longleftrightarrow>
     ns \<noteq> [] \<and> list_all (\<lambda>n. hm_contains (fl_nodes fl) (address n)) ns \<and>
     list_all (\<lambda>x. cl_initialized (fst x) \<and> neighbors_of (fst x) = ns) (fl_clients fl) \<and>
     (\<forall>i < length (fl_clients fl). cluster_good (fleet_view fl i))"

lemma content_view: "cluster_content (fleet_view fl i) a = map_option node_map (hm_get (fl_nodes fl) a)"
  by (simp add: cluster_content_def fleet_view_def)

lemma shared_map_view:
  assumes "neighbors_of c = ns" "ns \<noteq> []"
  shows "dht_map c (cluster_content (fleet_view fl i)) = shared_map ns fl"
  using assms
  by (auto simp: fun_eq_iff dht_map_def shared_map_def content_view resolve_node_Inr split: option.split)

lemma covers_view:
  assumes "cl_initialized c" "neighbors_of c = ns" "ns \<noteq> []"
  shows "covers c (cluster_content (fleet_view fl i)) \<longleftrightarrow>
    list_all (\<lambda>n. hm_contains (fl_nodes fl) (address n)) ns"
  using assms by (simp add: covers_def content_view hm_contains_def)

lemma view_update: "i < length (fl_clients fl) \<Longrightarrow> fleet_view (fleet_update fl i cu) i = cu"
  by (simp add: fleet_view_def fleet_update_def)

lemma view_update_other:
  "j \<noteq> i \<Longrightarrow> fleet_view (fleet_update fl i cu) j = cu\<lparr>cu_proxy := cu_proxy (fleet_view fl j)\<rparr>"
  by (simp add: fleet_view_def fleet_update_def)

lemma good_other_proxy:
  "cluster_good cu \<Longrightarrow> cluster_good cu' \<Longrightarrow> cluster_good (cu\<lparr>cu_proxy := cu_proxy cu'\<rparr>)"
  by (simp add: cluster_good_def)

lemma clients_update:
  "i < length (fl_clients fl) \<Longrightarrow> list_all (\<lambda>x. P (fst x)) (fl_clients fl) \<Longrightarrow>
   list_all (\<lambda>x. P (fst x)) (fl_clients (fleet_update fl i cu))"
  by (simp add: fleet_update_def list_all_length nth_list_update)

section \<open>One call\<close>

lemma fleet_step_ok:
  assumes ok: "fleet_ok ns fl" and i: "i < length (fl_clients fl)" and op: "op_utf8 x"
    and carried: "exchanged (clean_codec enc dec) (op_request x) (shared_map ns fl)"
  shows "\<exists>fl'. fleet_step enc dec (i, env, x) fl = Some (fst (dht_code x (shared_map ns fl)), fl') \<and>
    fleet_ok ns fl' \<and> length (fl_clients fl') = length (fl_clients fl) \<and>
    shared_map ns fl' = snd (dht_code x (shared_map ns fl))"
proof -
  obtain c px where c: "fl_clients fl ! i = (c, px)" by fastforce
  with ok i have ready: "cl_initialized c" "neighbors_of c = ns" "ns \<noteq> []"
    and clients: "list_all (\<lambda>x. cl_initialized (fst x) \<and> neighbors_of (fst x) = ns) (fl_clients fl)"
    by (auto simp: fleet_ok_def list_all_length)
  note views = shared_map_view [OF ready(2,3)] covers_view [OF ready]
  have "covers c (cluster_content (fleet_view fl i))" "cluster_good (fleet_view fl i)"
    using ok i by (simp_all add: views fleet_ok_def)
  from net.dht_step_ok [OF this op, of enc dec env] carried obtain cu where
    step: "dht_step (cluster_sendrecv enc dec env) c x (fleet_view fl i)
        = Some (fst (dht_code x (shared_map ns fl)), cu)"
    and cu: "cluster_good cu" "covers c (cluster_content cu)"
      "dht_map c (cluster_content cu) = snd (dht_code x (shared_map ns fl))"
    by (auto simp: views)
  let ?fl = "fleet_update fl i cu"
  have view: "fleet_view ?fl i = cu" using i by (rule view_update)
  have "cluster_good (fleet_view ?fl j)" if "j < length (fl_clients ?fl)" for j
  proof (cases "j = i")
    case False
    have "cluster_good (fleet_view fl j)"
      using ok that by (simp add: fleet_ok_def fleet_update_def)
    with cu(1) False show ?thesis by (simp add: view_update_other good_other_proxy)
  qed (use view cu(1) in simp)
  moreover have "list_all (\<lambda>n. hm_contains (fl_nodes ?fl) (address n)) ns"
    using cu(2) views(2) [of ?fl i] by (simp add: view)
  ultimately have "fleet_ok ns ?fl"
    using ready(3) clients_update [OF i clients] by (simp add: fleet_ok_def)
  moreover have "shared_map ns ?fl = snd (dht_code x (shared_map ns fl))"
    using cu(3) views(1) [of ?fl i] by (simp add: view)
  moreover have "fleet_step enc dec (i, env, x) fl = Some (fst (dht_code x (shared_map ns fl)), ?fl)"
    by (simp add: fleet_step_def c step)
  ultimately show ?thesis by (intro exI [of _ ?fl]) (simp add: fleet_update_def)
qed

lemma fleet_run_ok:
  assumes "fleet_ok ns fl" "list_all (\<lambda>x. fst x < length (fl_clients fl) \<and> op_utf8 (call_op x)) xs"
    and "run_carried (clean_codec enc dec) (shared_map ns fl) (map call_op xs)"
  shows "\<exists>fl'. fleet_run enc dec xs fl =
      Some (map2 returned (map call_op xs) (fst (run_ops dht_spec (map call_op xs) (shared_map ns fl))), fl') \<and>
    fleet_ok ns fl' \<and> shared_map ns fl' = snd (run_ops dht_spec (map call_op xs) (shared_map ns fl))"
  using assms
proof (induction xs arbitrary: fl)
  case (Cons x xs)
  obtain i env op where x: "x = (i, env, op)" by (cases x) auto
  from Cons.prems(2,3) have "i < length (fl_clients fl)" "op_utf8 op"
    "exchanged (clean_codec enc dec) (op_request op) (shared_map ns fl)"
    and meets: "swap_meets op (shared_map ns fl)" by (simp_all add: x)
  from fleet_step_ok [OF Cons.prems(1) this(1-3), of env] obtain fl1
    where 1: "fleet_step enc dec x fl = Some (returned op (fst (dht_spec op (shared_map ns fl))), fl1)"
      "fleet_ok ns fl1" "length (fl_clients fl1) = length (fl_clients fl)"
      "shared_map ns fl1 = snd (dht_spec op (shared_map ns fl))"
    unfolding code_meets_spec [OF meets] by (auto simp: x)
  from Cons.IH [OF 1(2)] Cons.prems(2,3) 1 show ?case by (auto simp: x)
qed simp

section \<open>Properties\<close>

text \<open>
  C2. Clients that know the same neighbours share one map, as the client documents it. When
  the neighbours are all served and the messages fit a frame, then, whatever number of clients
  there is and the order in which their calls follow one another, each client over its own
  connections, every call returns what the one map returns that all calls before it, of any
  client, have left, and the nodes stand for the map that results. The departures are those of
  a single client: a successful swap returns the empty string, and no call swaps on a missing
  key, nor, with another value expected, on a key that holds the new value.
\<close>

theorem clients_share_one_map:
  assumes "fleet_ok ns fl" "list_all (\<lambda>x. fst x < length (fl_clients fl) \<and> op_utf8 (call_op x)) xs"
    and "run_carried (clean_codec enc dec) (shared_map ns fl) (map call_op xs)"
  shows "\<exists>fl'. fleet_run enc dec xs fl =
      Some (map2 returned (map call_op xs) (fst (run_ops dht_spec (map call_op xs) (shared_map ns fl))), fl') \<and>
    fleet_ok ns fl' \<and> shared_map ns fl' = snd (run_ops dht_spec (map call_op xs) (shared_map ns fl))"
  using assms by (rule fleet_run_ok)

definition sample_fleet :: fleet where
  "sample_fleet =
     \<lparr>fl_clients = [(sample_client, TcpProxy_new), (sample_client, TcpProxy_new)],
      fl_nodes = cu_nodes sample_cluster\<rparr>"

lemma sample_fleet_view: "i < 2 \<Longrightarrow> fleet_view sample_fleet i = sample_cluster"
  by (auto simp: less_2_cases_iff fleet_view_def sample_fleet_def sample_cluster_def)

lemma sample_fleet_ok: "fleet_ok (neighbors_of sample_client) sample_fleet"
proof -
  have two: "length (fl_clients sample_fleet) = 2" by (simp add: sample_fleet_def)
  have ne: "cl_initialized sample_client" "neighbors_of sample_client \<noteq> []"
    by (simp_all add: sample_client_def)
  have "list_all (\<lambda>n. hm_contains (fl_nodes sample_fleet) (address n)) (neighbors_of sample_client)"
    using sample_covered covers_view [OF ne(1) refl ne(2), of sample_fleet 0] by (simp add: sample_fleet_view)
  moreover have "list_all (\<lambda>x. cl_initialized (fst x) \<and> neighbors_of (fst x) = neighbors_of sample_client)
      (fl_clients sample_fleet)"
    using ne(1) by (simp add: sample_fleet_def)
  ultimately show ?thesis
    using ne(2) sample_good by (simp add: fleet_ok_def two sample_fleet_view)
qed

lemma sample_shared: "shared_map (neighbors_of sample_client) sample_fleet = Map.empty"
  using shared_map_view [of sample_client "neighbors_of sample_client" sample_fleet 0]
    sample_map sample_fleet_view [of 0] by (simp add: sample_client_def)

theorem clients_share_one_map_witness:
  fixes xs :: "fleet_call list" and env :: cluster_env
  defines "env \<equiv> \<lparr>ce_io = Io_Ok, ce_clock = (\<lambda>i. i), ce_eof = ''early eof'', ce_refused = ''Connection refused''\<rparr>"
    and "xs \<equiv> [(0, env, D_Insert ''k'' ''v''), (1, env, D_Lookup ''k'')]"
  shows "\<exists>fl'. fleet_run sample_enc sample_dec xs sample_fleet =
      Some ([D_Unit (Inr ()), D_Value (Inr ''v'')], fl') \<and>
    shared_map (neighbors_of sample_client) fl' = [''k'' \<mapsto> ''v'']"
proof -
  have "list_all (\<lambda>x. fst x < length (fl_clients sample_fleet) \<and> op_utf8 (call_op x)) xs"
    by (simp add: xs_def sample_fleet_def)
  moreover have "run_carried (clean_codec sample_enc sample_dec)
      (shared_map (neighbors_of sample_client) sample_fleet) (map call_op xs)"
    by (simp add: xs_def sample_shared exchanged_def dht_spec_def node_answer_insert node_answer_lookup)
      (simp add: request_defs answered_def start_response_def opcode_defs status_defs)
  ultimately have "\<exists>fl'. fleet_run sample_enc sample_dec xs sample_fleet =
      Some (map2 returned (map call_op xs)
        (fst (run_ops dht_spec (map call_op xs) (shared_map (neighbors_of sample_client) sample_fleet))), fl') \<and>
    fleet_ok (neighbors_of sample_client) fl' \<and> shared_map (neighbors_of sample_client) fl' =
      snd (run_ops dht_spec (map call_op xs) (shared_map (neighbors_of sample_client) sample_fleet))"
    by (rule clients_share_one_map [OF sample_fleet_ok])
  then show ?thesis by (simp add: xs_def sample_shared dht_spec_def) blast
qed

end
