(* ===== verification/Concurrent_Server.thy ===== *)
theory Concurrent_Server
  imports Tcp_Server "HOL-Library.Sublist"
begin

text \<open>
  Many connections at once: \<open>run_server\<close> of \<open>zht-transport/src/lib.rs\<close> spawns a task for each
  connection it accepts, and the tasks share the worker. A step of the relation is one turn of one
  task's loop, reading a frame, processing it and writing the answer; the turns of different tasks
  interleave in any order. A state-change callback polls while others take their turns: its own
  turn is the one in which it ends, so the last store it saw is the present one, and those it
  saw before are any. The log of the turns is kept for the statements; no step reads it.
\<close>

section \<open>States and steps\<close>

record link =
  lk_sent :: rstream
  lk_in :: rstream
  lk_out :: "u8 list"
  lk_open :: bool

text \<open>A connection whose \<open>set_nodelay\<close> fails is given up before its first turn.\<close>

definition link_new :: "bool \<Rightarrow> rstream \<Rightarrow> link" where
  "link_new nodelay s = \<lparr>lk_sent = s, lk_in = s, lk_out = [], lk_open = nodelay\<rparr>"

type_synonym turn = "nat \<times> zpack \<times> zpack"

record hub =
  hb_worker :: htworker
  hb_links :: "link list"
  hb_log :: "turn list"

definition hub_new :: "htworker \<Rightarrow> hub" where
  "hub_new w = \<lparr>hb_worker = w, hb_links = [], hb_log = []\<rparr>"

definition link_at :: "hub \<Rightarrow> nat \<Rightarrow> link \<Rightarrow> bool" where
  "link_at h i lk \<longleftrightarrow> i < length (hb_links h) \<and> hb_links h ! i = lk"

definition set_link :: "nat \<Rightarrow> link \<Rightarrow> hub \<Rightarrow> hub" where
  "set_link i lk h = h\<lparr>hb_links := (hb_links h)[i := lk]\<rparr>"

inductive hub_step :: "encoder \<Rightarrow> decoder \<Rightarrow> hub \<Rightarrow> hub \<Rightarrow> bool" for enc dec where
  accepts: "hub_step enc dec h (h\<lparr>hb_links := hb_links h @ [link_new nodelay s]\<rparr>)"
| serves:
    "link_at h i lk \<Longrightarrow> lk_open lk \<Longrightarrow> recv_message dec (lk_in lk) = (Inr req, s1) \<Longrightarrow>
     process env req (hb_worker h) = Some (resp, w1) \<Longrightarrow>
     (is_sccb req \<longrightarrow> hw_store w1 = hw_store (hb_worker h)) \<Longrightarrow> send_message enc wr resp (lk_out lk) = (r, out) \<Longrightarrow>
     hub_step enc dec h
       (set_link i (lk\<lparr>lk_in := s1, lk_out := out, lk_open := (r = Inr ())\<rparr>)
          (h\<lparr>hb_worker := w1, hb_log := hb_log h @ [(i, req, resp)]\<rparr>))"
| ends:
    "link_at h i lk \<Longrightarrow> lk_open lk \<Longrightarrow> recv_message dec (lk_in lk) = (Inl e, s1) \<Longrightarrow>
     hub_step enc dec h (set_link i (lk\<lparr>lk_in := s1, lk_open := False\<rparr>) h)"

abbreviation hub_reaches :: "encoder \<Rightarrow> decoder \<Rightarrow> hub \<Rightarrow> hub \<Rightarrow> bool" where
  "hub_reaches enc dec \<equiv> (hub_step enc dec)\<^sup>*\<^sup>*"

lemmas hub_defs = link_at_def set_link_def link_new_def hub_new_def

section \<open>One order of all requests\<close>

text \<open>
  A log is explained by a map when each answer, taken in the log's order, is the node's on the
  map that the turns before left. A callback changes nothing, and its answer tells whether its key
  holds the value it waits for: success if so, and otherwise that the lease has expired.
\<close>

definition callback_answer :: "zpack \<Rightarrow> (string \<rightharpoonup> string) \<Rightarrow> zpack" where
  "callback_answer req m =
     answered (if m (from_utf8_lossy (zp_key req)) = Some (from_utf8_lossy (zp_val req)) then REC_SUCC
       else REC_SCCBPOLLTRY) req"

fun explains :: "turn list \<Rightarrow> (string \<rightharpoonup> string) \<Rightarrow> (string \<rightharpoonup> string) \<Rightarrow> bool" where
  "explains [] m m' \<longleftrightarrow> m' = m"
| "explains ((i, req, resp) # turns) m m' \<longleftrightarrow>
     (if is_sccb req then resp = callback_answer req m \<and> explains turns m m'
      else resp = fst (node_answer req m) \<and> explains turns (snd (node_answer req m)) m')"

lemma explains_append:
  "explains (turns @ turns') m m' \<longleftrightarrow> (\<exists>m1. explains turns m m1 \<and> explains turns' m1 m')"
  by (induction turns m m' rule: explains.induct) auto

definition requests_of :: "nat \<Rightarrow> turn list \<Rightarrow> zpack list" where
  "requests_of i turns = map (\<lambda>(_, req, _). req) (filter (\<lambda>(j, _). j = i) turns)"

definition frames_of :: "encoder \<Rightarrow> nat \<Rightarrow> turn list \<Rightarrow> u8 list" where
  "frames_of enc i turns =
     concat (map (\<lambda>(_, _, resp). encode_message enc resp) (filter (\<lambda>(j, _). j = i) turns))"

lemma of_snoc [simp]:
  "requests_of i (turns @ [(j, req, resp)]) = requests_of i turns @ (if j = i then [req] else [])"
  "frames_of enc i (turns @ [(j, req, resp)])
     = frames_of enc i turns @ (if j = i then encode_message enc resp else [])"
  by (simp_all add: requests_of_def frames_of_def)

text \<open>A request of any kind, answered on the worker's map.\<close>

lemma callback_explained:
  assumes "process env req w = Some (resp, w1)" "is_sccb req" "hw_store w1 = hw_store w"
  shows "resp = callback_answer req (node_map w)"
proof -
  let ?key = "from_utf8_lossy (zp_key req)" and ?e = "from_utf8_lossy (zp_val req)"
  from assms(1,2) obtain st n
    where poll: "sccb_poll (se_views env) (se_clock env) ?key ?e (se_clock env 0 + lease_of req) 0 = Some (st, n)"
      and resp: "resp = (start_response req)\<lparr>zp_lease := st\<rparr>" and store: "hw_store w1 = se_views env n"
    by (auto simp: process_def is_sccb_def Let_def process_stchgcb_def opcode_defs split: option.splits if_splits)
  from sccb_poll_sound [OF poll] have "st = as_bytes (if nv_get ?key (se_views env n) = Inr ?e then REC_SUCC
      else REC_SCCBPOLLTRY)" by (simp add: poll_ends_def split: if_splits)
  then show ?thesis
    using store assms(3) by (simp add: resp callback_answer_def answered_def nv_get_hit node_map_def)
qed

lemma process_explained:
  assumes "process env req w = Some (resp, w1)" "is_sccb req \<longrightarrow> hw_store w1 = hw_store w"
  shows "explains [(i, req, resp)] (node_map w) (node_map w1)"
proof (cases "is_sccb req")
  case True
  with assms callback_explained [OF assms(1) True] show ?thesis by (simp add: node_map_def)
next
  case False
  then obtain w' where "process env req w = Some (fst (node_answer req (node_map w)), w')"
    "node_map w' = snd (node_answer req (node_map w))"
    using process_refines by metis
  with False assms show ?thesis by simp
qed

lemma recv_all_step:
  "recv_message dec s = (Inr z, s1) \<Longrightarrow> fst (recv_all dec s) = z # fst (recv_all dec s1)"
  by (subst recv_all.simps) (auto simp: recv_decode split: sum.splits prod.splits zht_error.splits)

lemma send_message_prefix:
  assumes "send_message enc wr z out = (r, out')"
  shows "prefix out' (out @ encode_message enc z)" "r = Inr () \<Longrightarrow> out' = out @ encode_message enc z"
  using assms by (auto simp: send_message_def Let_def take_is_prefix split: wio.splits)

section \<open>The invariant\<close>

text \<open>What a link was sent and has written, against the log.\<close>

definition link_ok :: "encoder \<Rightarrow> decoder \<Rightarrow> turn list \<Rightarrow> nat \<Rightarrow> link \<Rightarrow> bool" where
  "link_ok enc dec turns i lk \<longleftrightarrow>
     prefix (lk_out lk) (frames_of enc i turns) \<and>
     prefix (requests_of i turns) (fst (recv_all dec (lk_sent lk))) \<and>
     (lk_open lk \<longrightarrow>
        lk_out lk = frames_of enc i turns \<and>
        fst (recv_all dec (lk_sent lk)) = requests_of i turns @ fst (recv_all dec (lk_in lk)))"

definition hub_inv :: "encoder \<Rightarrow> decoder \<Rightarrow> htworker \<Rightarrow> hub \<Rightarrow> bool" where
  "hub_inv enc dec w0 h \<longleftrightarrow>
     explains (hb_log h) (node_map w0) (node_map (hb_worker h)) \<and>
     (\<forall>i < length (hb_links h). link_ok enc dec (hb_log h) i (hb_links h ! i)) \<and>
     (\<forall>(i, _) \<in> set (hb_log h). i < length (hb_links h))"

lemma link_ok_new:
  assumes "\<forall>(j, _) \<in> set turns. j < n"
  shows "link_ok enc dec turns n (link_new nodelay s)"
proof -
  have "filter (\<lambda>(j, _). j = n) turns = []" using assms by (auto simp: filter_empty_conv)
  then show ?thesis by (simp add: link_ok_def link_new_def requests_of_def frames_of_def)
qed

lemma link_ok_other: "j \<noteq> i \<Longrightarrow> link_ok enc dec (turns @ [(j, req, resp)]) i lk = link_ok enc dec turns i lk"
  by (simp add: link_ok_def)

lemma link_ok_serves:
  assumes "link_ok enc dec turns i lk" "lk_open lk" "recv_message dec (lk_in lk) = (Inr req, s1)"
    and "send_message enc wr resp (lk_out lk) = (r, out)"
  shows "link_ok enc dec (turns @ [(i, req, resp)]) i (lk\<lparr>lk_in := s1, lk_out := out, lk_open := (r = Inr ())\<rparr>)"
  using assms recv_all_step [OF assms(3)] send_message_prefix [OF assms(4)]
  by (auto simp: link_ok_def)

lemma hub_inv_step:
  assumes "hub_step enc dec h h'" "hub_inv enc dec w0 h"
  shows "hub_inv enc dec w0 h'"
  using assms
proof (induction rule: hub_step.induct)
  case (accepts h nodelay s)
  then show ?case
    by (fastforce simp: hub_inv_def nth_append less_Suc_eq intro: link_ok_new)
next
  case (serves h i lk req s1 env resp w1 wr r out)
  have "explains (hb_log h @ [(i, req, resp)]) (node_map w0) (node_map w1)"
    using serves.prems process_explained [OF serves.hyps(4,5)] by (auto simp: hub_inv_def explains_append)
  moreover have "link_ok enc dec (hb_log h) i lk"
    using serves.prems serves.hyps(1) by (auto simp: hub_inv_def link_at_def)
  from link_ok_serves [OF this serves.hyps(2,3,6)]
  have "link_ok enc dec (hb_log h @ [(i, req, resp)]) i (lk\<lparr>lk_in := s1, lk_out := out, lk_open := (r = Inr ())\<rparr>)" .
  ultimately show ?case
    using serves.prems serves.hyps(1)
    by (auto simp: hub_inv_def set_link_def link_at_def nth_list_update link_ok_other)
next
  case (ends h i lk e s1)
  then have "link_ok enc dec (hb_log h) i (lk\<lparr>lk_in := s1, lk_open := False\<rparr>)"
    by (auto simp: hub_inv_def link_at_def link_ok_def)
  with ends show ?case by (auto simp: hub_inv_def set_link_def link_at_def nth_list_update)
qed

lemma hub_inv_new: "hub_inv enc dec w0 (hub_new w0)"
  by (simp add: hub_inv_def hub_new_def)

lemma hub_inv_reaches: "hub_reaches enc dec (hub_new w0) h \<Longrightarrow> hub_inv enc dec w0 h"
  by (induction rule: rtranclp_induct) (auto intro: hub_inv_new hub_inv_step)

text \<open>A turn on a frame of a clean message, whatever links there are.\<close>

lemma turn_taken:
  assumes "link_at h i lk" "lk_open lk" "rs_bytes (lk_in lk) = encode_message enc req @ rest"
    and "clean_codec enc dec req" "\<not> is_sccb req"
  shows "\<exists>resp w1 lk'. hub_step enc dec h
      (set_link i lk' (h\<lparr>hb_worker := w1, hb_log := hb_log h @ [(i, req, resp)]\<rparr>))"
proof -
  have "recv_message dec (lk_in lk) = (Inr req, (lk_in lk)\<lparr>rs_bytes := rest\<rparr>)"
    using assms(3,4) by (intro recv_sent) (simp_all add: clean_codec_def)
  moreover obtain resp w1
    where "process \<lparr>se_io = Io_Ok, se_views = (\<lambda>_. NoVoHT_new), se_clock = (\<lambda>_. 0)\<rparr> req (hb_worker h) = Some (resp, w1)"
    using process_refines [OF assms(5)] by metis
  moreover have "send_message enc Wio_Ok resp (lk_out lk) = (Inr (), lk_out lk @ encode_message enc resp)"
    by (simp add: send_message_def Let_def)
  ultimately show ?thesis using serves [OF assms(1,2)] assms(5) by blast
qed

section \<open>Properties\<close>

text \<open>
  C8. Connections served at the same time are served as if one request came after another:
  however the tasks interleave and whatever the writes do, there is one order of the requests
  in which every answer is what a node gives on the map that the requests before it left, and
  the worker's map is what they all leave. A callback that waits is answered success exactly
  when, at its place in the order, its key holds the value it waits for, and else that its
  lease has expired. In that order each connection's requests are a first part of the messages
  it was sent, in their order, and what was written to it is a first part of the frames of
  their answers.
\<close>

theorem connections_linearize:
  assumes "hub_reaches enc dec (hub_new w0) h" "link_at h i lk"
  shows "explains (hb_log h) (node_map w0) (node_map (hb_worker h)) \<and>
    prefix (requests_of i (hb_log h)) (fst (recv_all dec (lk_sent lk))) \<and>
    prefix (lk_out lk) (frames_of enc i (hb_log h))"
  using hub_inv_reaches [OF assms(1)] assms(2) by (auto simp: hub_inv_def link_at_def link_ok_def)

theorem connections_linearize_witness:
  fixes s :: rstream
  defines "s \<equiv> \<lparr>rs_bytes = encode_message sample_enc ZPack_default, rs_end = ''early eof''\<rparr>"
  shows "\<exists>h lk. hub_reaches sample_enc sample_dec (hub_new (HTWorker_new NoVoHT_new)) h \<and>
    map fst (hb_log h) = [1, 0] \<and> link_at h 1 lk \<and>
    explains (hb_log h) (node_map (HTWorker_new NoVoHT_new)) (node_map (hb_worker h)) \<and>
    prefix (requests_of 1 (hb_log h)) (fst (recv_all sample_dec (lk_sent lk))) \<and>
    prefix (lk_out lk) (frames_of sample_enc 1 (hb_log h))"
proof -
  let ?step = "hub_step sample_enc sample_dec" and ?w = "HTWorker_new NoVoHT_new"
  let ?h1 = "\<lparr>hb_worker = ?w, hb_links = [link_new True s], hb_log = []\<rparr>"
  let ?h2 = "\<lparr>hb_worker = ?w, hb_links = [link_new True s, link_new True s], hb_log = []\<rparr>"
  have req: "clean_codec sample_enc sample_dec ZPack_default" "\<not> is_sccb ZPack_default"
    by (simp_all add: ZPack_default_def is_sccb_def)
  have acc: "?step (hub_new ?w) ?h1" "?step ?h1 ?h2"
    using accepts [of sample_enc sample_dec "hub_new ?w" True s] accepts [of sample_enc sample_dec ?h1 True s]
    by (simp_all add: hub_new_def)
  have links: "link_at ?h2 1 (link_new True s)" "lk_open (link_new True s)"
    "rs_bytes (lk_in (link_new True s)) = encode_message sample_enc ZPack_default @ []"
    by (simp_all add: link_at_def link_new_def s_def)
  obtain resp w1 lk1 where 1: "?step ?h2 (set_link 1 lk1 (?h2\<lparr>hb_worker := w1, hb_log := hb_log ?h2 @ [(1, ZPack_default, resp)]\<rparr>))"
    using turn_taken [OF links req] by blast
  let ?h3 = "\<lparr>hb_worker = w1, hb_links = [link_new True s, lk1], hb_log = [(1, ZPack_default, resp)]\<rparr>"
  have 1: "?step ?h2 ?h3" using 1 by (simp add: set_link_def)
  have "link_at ?h3 0 (link_new True s)" by (simp add: link_at_def)
  from turn_taken [OF this links(2,3) req] obtain resp2 w2 lk2
    where 2: "?step ?h3 (set_link 0 lk2 (?h3\<lparr>hb_worker := w2, hb_log := hb_log ?h3 @ [(0, ZPack_default, resp2)]\<rparr>))"
    by blast
  then obtain h where h: "?step ?h3 h"
      "h = set_link 0 lk2 (?h3\<lparr>hb_worker := w2, hb_log := hb_log ?h3 @ [(0, ZPack_default, resp2)]\<rparr>)"
    by blast
  have reach: "hub_reaches sample_enc sample_dec (hub_new ?w) h"
    using acc 1 h(1) by (meson converse_rtranclp_into_rtranclp r_into_rtranclp)
  have log: "map fst (hb_log h) = [1, 0]" and link1: "link_at h 1 lk1"
    by (simp_all add: h(2) link_at_def set_link_def)
  show ?thesis
    by (intro exI [of _ h] exI [of _ lk1] conjI reach log link1 connections_linearize [OF reach link1, THEN conjunct1]
        connections_linearize [OF reach link1, THEN conjunct2, THEN conjunct1]
        connections_linearize [OF reach link1, THEN conjunct2, THEN conjunct2])
qed

end
