(* ===== verification/Novoht_Log.thy ===== *)
theory Novoht_Log
  imports Novoht
begin

text \<open>
  Durability of NoVoHT: the file is a log whose replay (\<open>read_file\<close>) is the map, as long as
  the keys and values can be written on a tab-separated line; and \<open>flush\<close> writes a file that
  loads back as the map.
\<close>

section \<open>What a line can carry\<close>

text \<open>
  A key that reads back: no tab or line feed, no white space at either end, not empty, no
  leading tilde. A value that reads back: no tab or line feed, no white space at its end, and
  not empty.
\<close>

definition storable_key :: "string \<Rightarrow> bool" where
  "storable_key k \<longleftrightarrow>
     valid_str k \<and> k \<noteq> [] \<and> TAB \<notin> set k \<and> LF \<notin> set k \<and> trim k = k \<and> hd k \<noteq> CHR ''~''"

definition storable_value :: "string \<Rightarrow> bool" where
  "storable_value v \<longleftrightarrow> valid_str v \<and> v \<noteq> [] \<and> TAB \<notin> set v \<and> LF \<notin> set v \<and> trim_end v = v"

lemma TAB_ascii: "valid_str (TAB # s) \<longleftrightarrow> valid_str s" "valid_str (CHR ''~'' # s) \<longleftrightarrow> valid_str s"
  "valid_str (CHR '':'' # s) \<longleftrightarrow> valid_str s"
  by (simp_all add: TAB_def)

lemma storable_append:
  assumes "storable_value e" "storable_value v"
  shows "storable_value (e @ '':'' @ v)"
proof -
  have r: "\<forall>t \<in> set (map rev ws_tokens). CHR '':'' \<in> set t \<longrightarrow> t = [CHR '':'']" by code_simp
  have "strip (map rev ws_tokens) (rev v) = rev v"
    using assms(2) by (metis rev_rev_ident storable_value_def trim_end_def)
  then have "match_tok (map rev ws_tokens) (rev v) = None" by (simp only: strip_id_iff)
  then have "strip (map rev ws_tokens) (rev v @ CHR '':'' # rev e) = rev v @ CHR '':'' # rev e"
    by (rule strip_token) (use assms(2) r in \<open>auto simp: storable_value_def\<close>)
  then have "trim_end (e @ '':'' @ v) = e @ '':'' @ v"
    by (simp add: trim_end_def)
  with assms show ?thesis
    by (auto simp: storable_value_def valid_str_append TAB_ascii TAB_def LF_def)
qed

lemmas storable_append' = storable_append [unfolded append.append_Cons append.append_Nil]

section \<open>Replaying one line\<close>

lemma apply_entry_line:
  assumes "storable_key k" "storable_value v"
  shows "apply_line m (k @ TAB # v @ [TAB]) = hm_insert k v m"
proof -
  from assms have k: "trim k = k" "k \<noteq> []" "TAB \<notin> set k" "hd k \<noteq> CHR ''~''"
    and v: "trim_end v = v" "v \<noteq> []" "TAB \<notin> set v"
    by (simp_all add: storable_key_def storable_value_def)
  have "trim_start k = k"
    using trim_fix(1) [OF k(1)] by (simp add: trim_start_def strip_id_iff)
  then have "trim_start (k @ TAB # v @ [TAB]) = k @ TAB # v @ [TAB]"
    unfolding TAB_def using k(2) by (rule trim_start_tab)
  then have t: "trim (k @ TAB # v @ [TAB]) = k @ TAB # v"
    using trim_end_tab [OF v(1,2), of k] by (simp add: trim_def TAB_def)
  have s: "split_on TAB (k @ TAB # v) = [k, v]"
    using k(3) v(3) by (simp add: split_on_sep split_on_none)
  have nt: "\<not> starts_with k ''~''"
    using k(2,4) by (cases k) (simp_all add: starts_with_def)
  show ?thesis by (simp add: apply_line_def t s nt)
qed

lemma apply_removal_line:
  assumes "storable_key k"
  shows "apply_line m (CHR ''~'' # k @ [TAB]) = hm_remove k m"
proof -
  from assms have k: "trim k = k" "k \<noteq> []" "TAB \<notin> set k"
    by (simp_all add: storable_key_def)
  have w: "\<forall>t \<in> set ws_tokens. t \<noteq> [] \<and> hd t \<noteq> CHR ''~''" by code_simp
  have r: "\<forall>t \<in> set (map rev ws_tokens). CHR ''~'' \<in> set t \<longrightarrow> t = [CHR ''~'']" by code_simp
  have "strip (map rev ws_tokens) (rev k @ CHR ''~'' # []) = rev k @ CHR ''~'' # []"
    by (rule strip_token [OF trim_fix(2) [OF k(1)]]) (use k(2) r in auto)
  then have "trim_end (CHR ''~'' # k) = CHR ''~'' # k" by (simp add: trim_end_def)
  then have e: "trim_end (CHR ''~'' # k @ [TAB]) = CHR ''~'' # k"
    using trim_end_snoc_tab [of "CHR ''~'' # k"] by (simp add: TAB_def)
  have "trim_start (CHR ''~'' # k @ [TAB]) = CHR ''~'' # k @ [TAB]"
    unfolding trim_start_def by (rule strip_nonws) (use w in blast)
  with e have t: "trim (CHR ''~'' # k @ [TAB]) = CHR ''~'' # k" by (simp add: trim_def)
  have nt: "CHR ''~'' \<noteq> TAB" by (simp add: TAB_def)
  then have s: "split_on TAB (CHR ''~'' # k) = [CHR ''~'' # k]"
    using k(3) by (simp add: split_on_none)
  show ?thesis unfolding apply_line_def t Let_def s by (simp add: starts_with_def)
qed

section \<open>The file as a log\<close>

text \<open>Whole lines of UTF-8.\<close>

definition closed_log :: "string \<Rightarrow> bool" where
  "closed_log c \<longleftrightarrow> (c = [] \<or> last c = LF) \<and> list_all valid_str (lines_of c)"

lemma lines_of_append:
  "c = [] \<or> last c = LF \<Longrightarrow> lines_of (c @ d) = lines_of c @ lines_of d"
proof (induction c rule: length_induct)
  case (1 c)
  show ?case
  proof (cases "c = []")
    case False
    with 1(2) have "LF \<in> set c" using last_in_set by force
    then obtain l r where c: "c = l @ LF # r" "LF \<notin> set l" by (meson split_list_first)
    have r: "r = [] \<or> last r = LF" using 1(2) c by (cases "r = []") auto
    have "length r < length c" using c by simp
    with 1(1) r have "lines_of (r @ d) = lines_of r @ lines_of d" by blast
    with lines_of_line [OF c(2)] c show ?thesis by simp
  qed simp
qed

definition replay :: "string \<Rightarrow> (string, string) hashmap" where
  "replay c = read_file None c []"

lemma replay_closed: "closed_log c \<Longrightarrow> replay c = foldl apply_line [] (lines_of c)"
  by (simp add: replay_def read_file_def readable_lines_def closed_log_def list_all_iff
      takeWhile_eq_all_conv [THEN iffD2])

lemma replay_line:
  assumes "closed_log c" "LF \<notin> set l" "valid_str l" "strip_cr l = l"
  shows "closed_log (c @ l @ [LF])" "replay (c @ l @ [LF]) = apply_line (replay c) l"
proof -
  have ls: "lines_of (c @ l @ [LF]) = lines_of c @ [l]"
    using assms lines_of_line [OF assms(2), of "[]"]
    by (subst lines_of_append) (auto simp: closed_log_def)
  with assms show cl: "closed_log (c @ l @ [LF])" by (simp add: closed_log_def)
  show "replay (c @ l @ [LF]) = apply_line (replay c) l"
    using assms(1) cl by (simp add: replay_closed ls)
qed

lemma strip_cr_tab: "strip_cr (s @ [TAB]) = s @ [TAB]"
  by (simp add: strip_cr_def TAB_def)

lemma replay_entry:
  assumes "closed_log c" "storable_key k" "storable_value v"
  shows "closed_log (c @ entry_line k v)" "replay (c @ entry_line k v) = hm_insert k v (replay c)"
proof -
  let ?l = "k @ TAB # v @ [TAB]"
  have "LF \<notin> set ?l" "valid_str ?l" "strip_cr ?l = ?l"
    using assms(2,3) strip_cr_tab [of "k @ TAB # v"]
    by (auto simp: storable_key_def storable_value_def TAB_def LF_def valid_str_append)
  from replay_line [OF assms(1) this] apply_entry_line [OF assms(2,3)]
  show "closed_log (c @ entry_line k v)" "replay (c @ entry_line k v) = hm_insert k v (replay c)"
    by (simp_all add: entry_line_def)
qed

lemma replay_removal:
  assumes "closed_log c" "storable_key k"
  shows "closed_log (c @ removal_line k)" "replay (c @ removal_line k) = hm_remove k (replay c)"
proof -
  let ?l = "CHR ''~'' # k @ [TAB]"
  have "LF \<notin> set ?l" "valid_str ?l" "strip_cr ?l = ?l"
    using assms(2) strip_cr_tab [of "CHR ''~'' # k"]
    by (auto simp: storable_key_def TAB_def LF_def valid_str_append)
  from replay_line [OF assms(1) this] apply_removal_line [OF assms(2)]
  show "closed_log (c @ removal_line k)" "replay (c @ removal_line k) = hm_remove k (replay c)"
    by (simp_all add: removal_line_def)
qed

section \<open>Flushing\<close>

definition storable_entries :: "(string, string) hashmap \<Rightarrow> bool" where
  "storable_entries m \<longleftrightarrow> (\<forall>k v. hm_get m k = Some v \<longrightarrow> storable_key k \<and> storable_value v)"

lemma replay_render:
  assumes "closed_log c" "\<forall>(k, v) \<in> set m. storable_key k \<and> storable_value v"
  shows "closed_log (c @ render_map m) \<and> replay (c @ render_map m) = foldl (\<lambda>m (k, v). hm_insert k v m) (replay c) m"
  using assms
proof (induction m arbitrary: c)
  case (Cons e m)
  obtain k v where e: "e = (k, v)" by (cases e)
  with Cons.prems have kv: "storable_key k" "storable_value v" by auto
  note step = replay_entry [OF Cons.prems(1) kv]
  from Cons.IH [OF step(1)] Cons.prems(2) show ?case
    by (simp add: render_map_def e step(2))
qed (simp add: render_map_def)

lemma get_insert_all:
  "hm_wf m \<Longrightarrow> hm_get (foldl (\<lambda>m (k, v). hm_insert k v m) m0 m) = hm_get m0 ++ hm_get m"
proof (induction m arbitrary: m0)
  case (Cons e m)
  obtain k v where e: "e = (k, v)" by (cases e)
  with Cons.prems have wf: "hm_wf m" and n: "hm_get m k = None"
    by (auto simp: hm_wf_def hm_get_map_of map_of_eq_None_iff)
  have g: "hm_get ((k, v) # m) = (hm_get m)(k \<mapsto> v)" by (simp add: hm_get_map_of)
  from Cons.IH [OF wf] show ?case
    by (simp add: g e) (use n in \<open>auto simp: map_add_def fun_eq_iff split: option.split\<close>)
qed simp

lemma closed_log_Nil [simp]: "closed_log []"
  by (simp add: closed_log_def)

lemma replay_Nil [simp]: "replay [] = []"
  by (simp add: replay_closed)

lemma replay_flushed:
  assumes "hm_wf m" "storable_entries m"
  shows "closed_log (render_map m)" "hm_get (replay (render_map m)) = hm_get m"
proof -
  have "\<forall>(k, v) \<in> set m. storable_key k \<and> storable_value v"
    using assms by (auto simp: storable_entries_def hm_entry_iff)
  from replay_render [OF closed_log_Nil this] get_insert_all [OF assms(1), of "[]"]
  show "closed_log (render_map m)" "hm_get (replay (render_map m)) = hm_get m"
    by simp_all
qed

section \<open>The durable store\<close>

text \<open>The invariant: the file exists, is a closed log, and replays to the map.\<close>

definition durable :: "novoht \<Rightarrow> bool" where
  "durable nv \<longleftrightarrow>
     nv_persistent nv \<and> hm_wf (nv_map nv) \<and> storable_entries (nv_map nv) \<and>
     (\<exists>c. nv_file nv = Some c \<and> closed_log c \<and> hm_get (replay c) = hm_get (nv_map nv))"

text \<open>Operations whose arguments can be written, and whose writes succeed.\<close>

fun clean_op :: "nv_op \<Rightarrow> bool" where
  "clean_op (NPut io k v) \<longleftrightarrow> io = Io_Ok \<and> storable_key k \<and> storable_value v"
| "clean_op (NRemove io k) \<longleftrightarrow> io = Io_Ok"
| "clean_op (NAppend io k v) \<longleftrightarrow> io = Io_Ok \<and> storable_key k \<and> storable_value v"
| "clean_op (NCas io k e n) \<longleftrightarrow> io = Io_Ok \<and> storable_key k \<and> storable_value n"
| "clean_op (NFlush io) \<longleftrightarrow> io = Io_Ok"
| "clean_op _ \<longleftrightarrow> True"

lemma storable_entries_insert:
  "storable_entries m \<Longrightarrow> storable_key k \<Longrightarrow> storable_value v \<Longrightarrow> storable_entries (hm_insert k v m)"
  by (auto simp: storable_entries_def)

lemma storable_entries_remove: "storable_entries m \<Longrightarrow> storable_entries (hm_remove k m)"
  by (auto simp: storable_entries_def)

lemma durable_write_entry:
  assumes "durable nv" "storable_key k" "storable_value v"
    and "hm_wf m" "hm_get m = (hm_get (nv_map nv))(k \<mapsto> v)"
  shows "durable (snd (write_entry Io_Ok k v (nv\<lparr>nv_map := m\<rparr>)))"
proof -
  from assms(1) obtain c where c: "nv_persistent nv" "nv_file nv = Some c" "closed_log c"
    "hm_get (replay c) = hm_get (nv_map nv)" "storable_entries (nv_map nv)"
    by (auto simp: durable_def)
  have "storable_entries m"
    using c(5) assms(2,3,5) by (auto simp: storable_entries_def)
  with c assms replay_entry [OF c(3) assms(2,3)] show ?thesis
    by (auto simp: durable_def write_entry_def file_content_def)
qed

lemma durable_rewrite:
  assumes "durable nv" "storable_key k" "storable_value v" "hm_get (nv_map nv) k = Some v"
  shows "durable (snd (write_entry Io_Ok k v nv))"
  using durable_write_entry [OF assms(1-3), of "nv_map nv"] assms(1,4)
  by (simp add: durable_def fun_upd_idem)

lemma durable_write_removal:
  assumes "durable nv" "hm_contains (nv_map nv) k"
  shows "durable (snd (write_removal Io_Ok k (nv\<lparr>nv_map := hm_remove k (nv_map nv)\<rparr>)))"
proof -
  from assms(1) obtain c where c: "nv_persistent nv" "nv_file nv = Some c" "closed_log c"
    "hm_get (replay c) = hm_get (nv_map nv)" "storable_entries (nv_map nv)" "hm_wf (nv_map nv)"
    by (auto simp: durable_def)
  have "storable_key k"
    using c(5) assms(2) by (auto simp: storable_entries_def hm_contains_def)
  with c replay_removal [OF c(3)] storable_entries_remove [OF c(5)] show ?thesis
    by (auto simp: durable_def write_removal_def file_content_def)
qed

lemma durable_flush: "durable nv \<Longrightarrow> durable (snd (nv_flush Io_Ok nv))"
  using replay_flushed [of "nv_map nv"] by (auto simp: durable_def nv_flush_def)

lemma durable_storable_value: "durable nv \<Longrightarrow> hm_get (nv_map nv) k = Some v \<Longrightarrow> storable_value v"
  by (auto simp: durable_def storable_entries_def)

lemma durable_step:
  assumes d: "durable nv" and clean: "clean_op x"
  shows "durable (snd (nv_step x nv))"
proof -
  from d have per: "nv_persistent nv" and wf: "hm_wf (nv_map nv)" by (simp_all add: durable_def)
  show ?thesis
  proof (cases x)
    case (NPut io k v)
    with clean d per wf show ?thesis
      by (auto simp: nv_put_def Let_def storable_key_def [of "[]"] intro!: durable_write_entry)
  next
    case (NRemove io k)
    with clean d per show ?thesis
      by (auto simp: nv_remove_def Let_def intro!: durable_write_removal)
  next
    case (NAppend io k v)
    let ?v = "appended (hm_get (nv_map nv) k) v"
    have "storable_value ?v"
      using clean NAppend durable_storable_value [OF d]
      by (auto simp: appended_def split: option.split intro: storable_append')
    with clean d per wf NAppend show ?thesis
      by (auto simp: nv_append_def Let_def storable_key_def [of "[]"] appended_def [symmetric]
          intro!: durable_write_entry)
  next
    case (NCas io k e n)
    let ?v = "swapped (hm_get (nv_map nv) k) e n"
    have "storable_value ?v"
      using clean NCas durable_storable_value [OF d] by (auto simp: swapped_def split: option.split)
    with clean d per wf NCas show ?thesis
      by (auto simp: nv_compare_swap_def Let_def swapped_def split: option.splits if_splits
          intro!: durable_write_entry intro: durable_rewrite)
  next
    case (NFlush io)
    with clean d show ?thesis by (simp add: durable_flush)
  qed (use d in simp_all)
qed

lemma durable_run: "durable nv \<Longrightarrow> list_all clean_op xs \<Longrightarrow> durable (snd (run_ops nv_step xs nv))"
  by (induction xs arbitrary: nv) (simp_all add: durable_step)

text \<open>A store opened on a file that is not there, and the store reopened on what it left.\<close>

lemma durable_fresh:
  "fst (with_persistence path None None None Io_Ok) =
     Inr \<lparr>nv_map = [], nv_db_path = path, nv_persistent = True, nv_file = Some []\<rparr>"
  "durable \<lparr>nv_map = [], nv_db_path = path, nv_persistent = True, nv_file = Some []\<rparr>"
  by (simp_all add: with_persistence_def nv_flush_def Let_def read_file_def readable_lines_def
      render_map_def durable_def storable_entries_def)

lemma hm_wf_foldl_apply: "hm_wf m \<Longrightarrow> hm_wf (foldl apply_line m ls)"
proof (induction ls arbitrary: m)
  case (Cons l ls)
  have "hm_wf (apply_line m l)" using Cons.prems by (simp add: apply_line_def Let_def)
  with Cons.IH show ?case by simp
qed simp

lemma reopen:
  assumes "durable nv"
  obtains nv' where "fst (with_persistence path (nv_file nv) None None Io_Ok) = Inr nv'"
    and "hm_get (nv_map nv') = hm_get (nv_map nv)" and "durable nv'"
proof -
  from assms obtain c where c: "nv_file nv = Some c" "closed_log c"
    "hm_get (replay c) = hm_get (nv_map nv)" "storable_entries (nv_map nv)"
    by (auto simp: durable_def)
  have wf: "hm_wf (replay c)" using c(2) by (simp add: replay_closed hm_wf_foldl_apply)
  have st: "storable_entries (replay c)" using c(3,4) by (simp add: storable_entries_def)
  let ?nv = "\<lparr>nv_map = replay c, nv_db_path = path, nv_persistent = True,
     nv_file = Some (render_map (replay c))\<rparr>"
  have "fst (with_persistence path (nv_file nv) None None Io_Ok) = Inr ?nv"
    by (simp add: with_persistence_def nv_flush_def Let_def c(1) replay_def [symmetric])
  moreover have "durable ?nv"
    using wf st replay_flushed [OF wf st] by (simp add: durable_def)
  ultimately show ?thesis using that c(3) by simp
qed

section \<open>Properties\<close>

text \<open>
  C4. A store answers every sequence of operations as a plain map does, whatever file it was
  opened on and whatever the file system answers to the writes on the way: only \<open>flush\<close>
  reports an error of the file.
\<close>

theorem store_is_a_map:
  assumes "fst (with_persistence path file None fail_at io) = Inr nv"
  shows "fst (run_ops nv_step xs nv) = fst (run_ops kv_step xs (hm_get (nv_map nv), True, path))"
proof -
  have "hm_wf (read_file fail_at content [])" for content
    by (simp add: read_file_def hm_wf_foldl_apply)
  with assms have "nv_inv nv" "nv_abs nv = (hm_get (nv_map nv), True, path)"
    by (auto simp: with_persistence_def Let_def nv_flush_def nv_inv_def nv_abs_def
        split: io.splits sum.splits)
  then show ?thesis by (metis nv.run_results)
qed

theorem store_is_a_map_witness:
  fixes xs :: "nv_op list"
  defines "xs \<equiv> [NPut (Io_Open_Err ''denied'') ''k'' ''v'', NAppend Io_Ok ''k'' ''w'', NGet ''k'', NRemove Io_Ok ''j'']"
  shows "\<exists>nv. fst (with_persistence ''db'' None None None Io_Ok) = Inr nv \<and>
    fst (run_ops nv_step xs nv)
      = [OUnit (Inr ()), OUnit (Inr ()), OStr (Inr ''v:w''), OUnit (Inl (KeyNotFound ''j''))]"
proof -
  let ?nv = "\<lparr>nv_map = [], nv_db_path = ''db'', nv_persistent = True, nv_file = Some []\<rparr>"
  have new: "fst (with_persistence ''db'' None None None Io_Ok) = Inr ?nv" by (rule durable_fresh)
  have "fst (run_ops kv_step xs (Map.empty, True, ''db''))
      = [OUnit (Inr ()), OUnit (Inr ()), OStr (Inr ''v:w''), OUnit (Inl (KeyNotFound ''j''))]"
    by (simp add: xs_def appended_def)
  with store_is_a_map [OF new, of xs]
  have "fst (run_ops nv_step xs ?nv)
      = [OUnit (Inr ()), OUnit (Inr ()), OStr (Inr ''v:w''), OUnit (Inl (KeyNotFound ''j''))]"
    by simp
  with new show ?thesis by blast
qed

text \<open>
  C5. What was written survives a restart: after any sequence of operations on a store that
  was made with a new file, whose writes succeed and whose keys and values fit on a line of
  the file, opening the file again gives a store with the same map.
\<close>

theorem store_survives_restart:
  assumes "list_all clean_op xs"
    and "fst (with_persistence path None None None Io_Ok) = Inr nv0"
  shows "\<exists>nv. fst (with_persistence path (nv_file (snd (run_ops nv_step xs nv0))) None None Io_Ok) = Inr nv \<and>
    hm_get (nv_map nv) = fst (snd (run_ops kv_step xs (Map.empty, True, path)))"
proof -
  have d0: "durable nv0" and abs0: "nv_abs nv0 = (Map.empty, True, path)"
    using assms(2) durable_fresh [of path] by (auto simp: nv_abs_def)
  let ?s = "snd (run_ops nv_step xs nv0)"
  have "durable ?s" by (rule durable_run [OF d0 assms(1)])
  then obtain nv where nv: "fst (with_persistence path (nv_file ?s) None None Io_Ok) = Inr nv"
    "hm_get (nv_map nv) = hm_get (nv_map ?s)" by (rule reopen)
  have "nv_inv nv0" using d0 by (simp add: durable_def nv_inv_def)
  from nv.run_commutes [OF this, of xs] have "nv_abs ?s = snd (run_ops kv_step xs (Map.empty, True, path))"
    by (simp add: abs0)
  then have "hm_get (nv_map ?s) = fst (snd (run_ops kv_step xs (Map.empty, True, path)))"
    by (metis fst_conv nv_abs_def)
  with nv show ?thesis by auto
qed

theorem store_survives_restart_witness:
  fixes nv0 :: novoht
  defines "nv0 \<equiv> \<lparr>nv_map = [], nv_db_path = ''db'', nv_persistent = True, nv_file = Some []\<rparr>"
    and "xs \<equiv> [NPut Io_Ok ''k'' ''v'', NPut Io_Ok ''j'' ''w'', NAppend Io_Ok ''k'' ''x'', NRemove Io_Ok ''j'']"
  shows "\<exists>nv. fst (with_persistence ''db'' (nv_file (snd (run_ops nv_step xs nv0))) None None Io_Ok) = Inr nv \<and>
    hm_get (nv_map nv) = [''k'' \<mapsto> ''v:x'']"
proof -
  have tok: "trim [c] = [c]" "trim_end [c] = [c]" if "c \<in> {CHR ''k'', CHR ''j'', CHR ''v'', CHR ''w'', CHR ''x''}" for c
    using that by (auto simp: scan_eval)
  have "storable_key ''k''" "storable_key ''j''" "storable_value ''v''" "storable_value ''w''" "storable_value ''x''"
    by (simp_all add: storable_key_def storable_value_def tok TAB_def LF_def)
  then have "list_all clean_op xs" by (simp add: xs_def)
  moreover have "fst (with_persistence ''db'' None None None Io_Ok) = Inr nv0"
    unfolding nv0_def by (rule durable_fresh)
  ultimately have "\<exists>nv. fst (with_persistence ''db'' (nv_file (snd (run_ops nv_step xs nv0))) None None Io_Ok) = Inr nv \<and>
      hm_get (nv_map nv) = fst (snd (run_ops kv_step xs (Map.empty, True, ''db'')))"
    by (rule store_survives_restart)
  moreover have "fst (snd (run_ops kv_step xs (Map.empty, True, ''db''))) = [''k'' \<mapsto> ''v:x'']"
    by (auto simp: xs_def appended_def fun_eq_iff)
  ultimately show ?thesis by simp
qed

text \<open>
  A write that never reached the file is acknowledged all the same: when the file cannot
  be opened for the append, \<open>put\<close> answers success and the value is served, but the file is what
  it was, so the next opening does not see the value.
\<close>

lemma lost_write_acknowledged:
  assumes "nv_persistent nv" "key \<noteq> []"
  shows "fst (nv_put (Io_Open_Err e) key value nv) = Inr () \<and>
    nv_get key (snd (nv_put (Io_Open_Err e) key value nv)) = Inr value \<and>
    nv_file (snd (nv_put (Io_Open_Err e) key value nv)) = nv_file nv"
  using assms by (simp add: nv_answers nv_get_def) (simp add: nv_put_def write_entry_def)

end
