(* ===== verification/Novoht_Crash.thy ===== *)
theory Novoht_Crash
  imports Novoht_Log "HOL-Library.Sublist"
begin

text \<open>
  What a restart makes of a file that is not a log of whole entries: a write that was cut short,
  by a full disk or by the end of the process, and entries whose keys or values cannot be read
  back from a tab-separated line. The store is that of \<open>Novoht\<close>; \<open>restart\<close> opens its file again.
\<close>

section \<open>Restarting\<close>

definition restart :: "novoht \<Rightarrow> novoht" where
  "restart nv =
     (case fst (with_persistence (nv_db_path nv) (nv_file nv) None None Io_Ok) of
        Inl _ \<Rightarrow> nv
      | Inr nv' \<Rightarrow> nv')"

lemma restart_map: "nv_map (restart nv) = replay (file_content nv)"
  by (simp add: restart_def with_persistence_def nv_flush_def Let_def replay_def file_content_def)

section \<open>A last line without its end\<close>

lemma lines_of_open: "LF \<notin> set t \<Longrightarrow> lines_of t = (if t = [] then [] else [t])"
proof -
  assume "LF \<notin> set t"
  then have "dropWhile (\<lambda>c. c \<noteq> LF) t = []" by (auto simp: dropWhile_eq_Nil_conv)
  then show ?thesis by (simp add: lines_of.simps [of t] del: dropWhile_eq_Nil_conv)
qed

lemma apply_line_Nil [simp]: "apply_line m [] = m"
  by (simp add: apply_line_def)

lemma replay_open:
  assumes "closed_log c" "LF \<notin> set t"
  shows "replay (c @ t) = (if valid_str t then apply_line (replay c) t else replay c)"
proof -
  have "lines_of (c @ t) = lines_of c @ (if t = [] then [] else [t])"
    using assms by (subst lines_of_append) (auto simp: closed_log_def lines_of_open)
  moreover have "\<forall>l \<in> set (lines_of c). valid_str l"
    using assms(1) by (simp add: closed_log_def list_all_iff)
  ultimately show ?thesis
    using assms(1) by (simp add: replay_closed) (simp add: replay_def read_file_def readable_lines_def takeWhile_append2)
qed

text \<open>The front of a key that starts with no white space, alone on its line, is skipped.\<close>

lemma trim_end_prefix: "prefix (trim_end s) s"
proof -
  obtain u where "rev s = u @ strip (map rev ws_tokens) (rev s)" using strip_suffix by blast
  then have "rev (rev s) = trim_end s @ rev u" by (metis rev_append trim_end_def)
  then show ?thesis by (metis prefixI rev_rev_ident)
qed

lemma trim_end_across:
  "trim_end (s @ TAB # w) = (if trim_end w = [] then trim_end s else s @ TAB # trim_end w)"
proof -
  have "rev (s @ TAB # w) = rev w @ CHR 0x09 # rev s" by (simp add: TAB_def)
  then have "trim_end (s @ TAB # w) = rev (if strip (map rev ws_tokens) (rev w) = []
      then strip (map rev ws_tokens) (rev s) else strip (map rev ws_tokens) (rev w) @ CHR 0x09 # rev s)"
    unfolding trim_end_def by (simp only: strip_across [OF tab_rev_tokens])
  then show ?thesis by (simp add: trim_end_def TAB_def)
qed

lemma key_starts:
  assumes "storable_key k" "0 < n"
  shows "trim_start (take n k) = take n k" "take n k \<noteq> []" "hd (take n k) \<noteq> CHR ''~''"
    and "TAB \<notin> set (take n k)"
proof -
  from assms(1) have k: "trim k = k" "k \<noteq> []" "TAB \<notin> set k" "hd k \<noteq> CHR ''~''"
    by (simp_all add: storable_key_def)
  show "trim_start (take n k) = take n k"
    using match_tok_take [OF trim_fix(1) [OF k(1)]] by (simp add: trim_start_def strip_none)
  show "take n k \<noteq> []" "hd (take n k) \<noteq> CHR ''~''" using k(2,4) assms(2) by simp_all
  show "TAB \<notin> set (take n k)" using k(3) by (meson in_set_takeD)
qed

lemma apply_key_only:
  assumes "trim_start s = s" "s \<noteq> []" "hd s \<noteq> CHR ''~''" "TAB \<notin> set s"
  shows "apply_line m s = m"
proof -
  obtain z where z: "s = trim_end s @ z" using trim_end_prefix by (metis prefixE)
  then have "TAB \<notin> set (trim_end s)" using assms(4) by (metis Un_iff set_append)
  moreover have "\<not> starts_with (trim_end s) ''~''"
  proof
    assume "starts_with (trim_end s) ''~''"
    then obtain r where "trim_end s = CHR ''~'' # r"
      by (cases "trim_end s") (auto simp: starts_with_def)
    with z have "hd s = CHR ''~''" by (metis append_Cons list.sel(1))
    with assms(3) show False by simp
  qed
  ultimately show ?thesis using assms(1) by (simp add: apply_line_def trim_def Let_def split_on_none)
qed

text \<open>A key, a tab, and whatever follows it up to the end of the line.\<close>

lemma apply_key_value:
  assumes "trim_start s = s" "trim_end s = s" "s \<noteq> []" "hd s \<noteq> CHR ''~''" "TAB \<notin> set s"
    and "TAB \<notin> set (trim_end w)"
  shows "apply_line m (s @ TAB # w) = (if trim_end w = [] then m else hm_insert s (trim_end w) m)"
proof -
  have "trim_start (s @ TAB # w) = s @ TAB # w"
    using trim_start_tab [OF assms(1,3)] by (simp add: TAB_def)
  then have t: "trim (s @ TAB # w) = (if trim_end w = [] then s else s @ TAB # trim_end w)"
    using assms(2) by (simp add: trim_def trim_end_across)
  have nt: "\<not> starts_with s ''~''" using assms(3,4) by (cases s) (simp_all add: starts_with_def)
  show ?thesis
    using assms(3,5,6) nt by (simp add: apply_line_def t Let_def split_on_sep split_on_none)
qed

section \<open>A put that is cut short\<close>

lemma key_whole:
  assumes "storable_key k"
  shows "trim_start k = k" "trim_end k = k" "k \<noteq> []" "hd k \<noteq> CHR ''~''" "TAB \<notin> set k"
  using assms trim_fix [of k] by (simp_all add: storable_key_def trim_start_def strip_none)

lemma torn_entry:
  assumes "closed_log c" "storable_key k" "storable_value v"
  shows "replay (c @ take n (entry_line k v)) = replay c \<or>
    (\<exists>v'. prefix v' v \<and> v' \<noteq> [] \<and> replay (c @ take n (entry_line k v)) = hm_insert k v' (replay c))"
proof (cases "n \<le> length (entry_line k v) - 1")
  case False
  then have "take n (entry_line k v) = entry_line k v" by simp
  with replay_entry(2) [OF assms] assms(3) show ?thesis
    by (auto simp: storable_value_def)
next
  case True
  let ?t = "take n (k @ TAB # v @ [TAB])"
  have "entry_line k v = (k @ TAB # v @ [TAB]) @ [LF]" by (simp add: entry_line_def)
  then have t: "take n (entry_line k v) = ?t" using True by (simp only: take_append) simp
  have "LF \<notin> set (k @ TAB # v @ [TAB])"
    using assms(2,3) by (simp add: storable_key_def storable_value_def TAB_def LF_def)
  then have "LF \<notin> set ?t" by (meson in_set_takeD)
  note replay = replay_open [OF assms(1) this]
  consider "n = 0" | "0 < n" "n \<le> length k" | "length k < n" by linarith
  then show ?thesis
  proof cases
    case 2
    then have "?t = take n k" by simp
    from replay [unfolded this] apply_key_only [OF key_starts [OF assms(2) 2(1)]] this
    show ?thesis by (simp only: t) simp
  next
    case 3
    define w where "w = take (n - Suc (length k)) (v @ [TAB])"
    have w: "?t = k @ TAB # w" using 3 by (simp add: w_def take_Cons')
    have "trim_end (v @ [TAB]) = v"
      using assms(3) by (simp add: trim_end_snoc_tab TAB_def storable_value_def)
    moreover have "w = v @ [TAB] \<or> prefix w v"
      by (cases "n - Suc (length k) \<le> length v") (simp_all add: w_def take_is_prefix)
    ultimately have p: "prefix (trim_end w) v"
      using trim_end_prefix [of w] prefix_order.trans by auto
    then have "TAB \<notin> set (trim_end w)"
      using assms(3) by (meson set_mono_prefix storable_value_def subsetD)
    from apply_key_value [OF key_whole [OF assms(2)] this] p show ?thesis
      unfolding t replay [unfolded w] w by auto
  qed (simp add: t replay)
qed

text \<open>Any entry that an operation writes, and what is left of it.\<close>

lemma durable_file:
  assumes "durable nv"
  obtains c where "nv_persistent nv" "nv_file nv = Some c" "closed_log c"
    "hm_get (replay c) = hm_get (nv_map nv)"
  using assms by (auto simp: durable_def)

lemma torn_write:
  assumes "durable nv" "storable_key k" "storable_value v"
  shows "hm_get (nv_map (restart (snd (write_entry (Io_Write_Err n e) k v (nv\<lparr>nv_map := m\<rparr>))))) = hm_get (nv_map nv) \<or>
    (\<exists>v'. prefix v' v \<and> v' \<noteq> [] \<and>
      hm_get (nv_map (restart (snd (write_entry (Io_Write_Err n e) k v (nv\<lparr>nv_map := m\<rparr>)))))
        = (hm_get (nv_map nv))(k \<mapsto> v'))"
proof -
  obtain c where c: "nv_persistent nv" "nv_file nv = Some c" "closed_log c"
      "hm_get (replay c) = hm_get (nv_map nv)"
    using assms(1) by (rule durable_file)
  have "nv_map (restart (snd (write_entry (Io_Write_Err n e) k v (nv\<lparr>nv_map := m\<rparr>))))
      = replay (c @ take n (entry_line k v))"
    by (simp add: restart_map write_entry_def file_content_def c(1,2))
  then show ?thesis
    using torn_entry [OF c(3) assms(2,3), of n] by (auto simp: c(4))
qed

section \<open>A removal that is cut short\<close>

lemma apply_removal_open:
  assumes "storable_key k"
  shows "apply_line m (CHR ''~'' # k) = hm_remove k m"
proof -
  have "\<forall>t \<in> set ws_tokens. t \<noteq> [] \<and> hd t \<noteq> CHR ''~''" by code_simp
  then have "trim_start (CHR ''~'' # s) = CHR ''~'' # s" for s
    unfolding trim_start_def by (intro strip_nonws) blast
  then have "trim (CHR ''~'' # k @ [TAB]) = trim (CHR ''~'' # k)"
    using trim_end_snoc_tab [of "CHR ''~'' # k"] by (simp add: trim_def TAB_def)
  then have "apply_line m (CHR ''~'' # k) = apply_line m (CHR ''~'' # k @ [TAB])"
    by (simp only: apply_line_def)
  then show ?thesis by (simp only: apply_removal_line [OF assms])
qed

section \<open>Entries that do not read back\<close>

text \<open>A put that reaches the file, after which the file is opened again.\<close>

lemma restart_put:
  assumes "durable nv" "key \<noteq> []" "nv_file nv = Some c"
  shows "nv_map (restart (snd (nv_put Io_Ok key value nv))) = replay (c @ entry_line key value)"
  using assms by (simp add: restart_map nv_put_def write_entry_def file_content_def durable_def)

lemma value_no_cr: "storable_value v \<Longrightarrow> strip_cr (s @ v) = s @ v"
  using trimmed_last [of v] by (auto simp: strip_cr_def storable_value_def)

lemma value_whole:
  assumes "storable_value v"
  shows "trim_end v = v" "v \<noteq> []" "TAB \<notin> set v" "LF \<notin> set v" "valid_str v"
  using assms by (simp_all add: storable_value_def)

lemma key_text:
  assumes "storable_key k"
  shows "LF \<notin> set k" "valid_str k"
  using assms by (simp_all add: storable_key_def)

lemma valid_parts: "valid_str s \<Longrightarrow> valid_str t \<Longrightarrow> valid_str (s @ TAB # t)"
  by (intro valid_str_append) (simp_all add: TAB_ascii)

lemma read_tilde:
  assumes "closed_log c" "storable_key k" "storable_value v"
  shows "replay (c @ entry_line (''~'' @ k) v) = hm_remove k (replay c)"
proof -
  let ?l = "CHR ''~'' # k @ TAB # v @ [TAB]"
  have w: "\<forall>t \<in> set ws_tokens. t \<noteq> [] \<and> hd t \<noteq> CHR ''~''" by code_simp
  have "trim_start ?l = ?l"
    unfolding trim_start_def by (rule strip_nonws) (use w in blast)
  moreover have "trim_end ?l = CHR ''~'' # k @ TAB # v"
    using trim_end_tab [OF value_whole(1,2) [OF assms(3)], of "CHR ''~'' # k"] by (simp add: TAB_def)
  ultimately have t: "trim ?l = CHR ''~'' # k @ TAB # v" by (simp add: trim_def)
  have "TAB \<notin> set (CHR ''~'' # k)" using key_whole(5) [OF assms(2)] by (simp add: TAB_def)
  then have s: "split_on TAB (CHR ''~'' # k @ TAB # v) = [CHR ''~'' # k, v]"
    using split_on_sep [of TAB "CHR ''~'' # k" v] value_whole(3) [OF assms(3)] by (simp add: split_on_none)
  have "apply_line m ?l = hm_remove k m" for m
    unfolding apply_line_def t Let_def s by (simp add: starts_with_def)
  moreover have "LF \<notin> set ?l" "valid_str ?l" "strip_cr ?l = ?l"
    using key_text [OF assms(2)] value_whole [OF assms(3)] strip_cr_tab [of "CHR ''~'' # k @ TAB # v"]
    by (simp_all add: TAB_def LF_def valid_str_append TAB_ascii)
  ultimately show ?thesis using replay_line(2) [OF assms(1), of ?l] by (simp add: entry_line_def)
qed

lemma read_empty:
  assumes "closed_log c" "storable_key k"
  shows "replay (c @ entry_line k []) = replay c"
proof -
  let ?l = "k @ TAB # [TAB]"
  have "trim_end [TAB] = []" using trim_end_snoc_tab [of "[]"] by (simp add: TAB_def)
  with apply_key_value [OF key_whole [OF assms(2)], of "[TAB]"] have "apply_line m ?l = m" for m by simp
  moreover have "LF \<notin> set ?l" "valid_str ?l" "strip_cr ?l = ?l"
    using key_text [OF assms(2)] strip_cr_tab [of "k @ [TAB]"]
    by (simp_all add: TAB_def LF_def valid_str_append TAB_ascii)
  ultimately show ?thesis using replay_line(2) [OF assms(1), of ?l] by (simp add: entry_line_def)
qed

lemma read_tabbed:
  assumes "closed_log c" "storable_key k" "storable_value v" "storable_value w"
  shows "replay (c @ entry_line k (v @ TAB # w)) = hm_insert k (v @ '':'' @ w) (replay c)"
proof -
  let ?l = "k @ TAB # v @ TAB # w @ [TAB]"
  have "trim_start ?l = ?l"
    using trim_start_tab [OF key_whole(1,3) [OF assms(2)]] by (simp add: TAB_def)
  moreover have "trim_end ?l = k @ TAB # v @ TAB # w"
    using trim_end_tab [OF value_whole(1,2) [OF assms(4)], of "k @ TAB # v"] by (simp add: TAB_def)
  ultimately have t: "trim ?l = k @ TAB # v @ TAB # w" by (simp add: trim_def)
  have s: "split_on TAB (k @ TAB # v @ TAB # w) = [k, v, w]"
    using key_whole(5) [OF assms(2)] value_whole(3) [OF assms(3)] value_whole(3) [OF assms(4)]
    by (simp add: split_on_sep split_on_none)
  have "\<not> starts_with k ''~''"
    using key_whole(3,4) [OF assms(2)] by (cases k) (simp_all add: starts_with_def)
  then have "apply_line m ?l = hm_insert k (v @ '':'' @ w) m" for m
    unfolding apply_line_def t Let_def s using key_whole(3) [OF assms(2)] value_whole(2) [OF assms(4)] by simp
  moreover have "LF \<notin> set ?l" "valid_str ?l" "strip_cr ?l = ?l"
    using key_text [OF assms(2)] value_whole [OF assms(3)] value_whole [OF assms(4)]
      strip_cr_tab [of "k @ TAB # v @ TAB # w"]
    by (simp_all add: TAB_def LF_def valid_str_append TAB_ascii)
  ultimately show ?thesis using replay_line(2) [OF assms(1), of ?l] by (simp add: entry_line_def)
qed

lemma read_injected:
  assumes "closed_log c" "storable_key k" "storable_value v" "storable_key j" "storable_value w"
  shows "replay (c @ entry_line k (v @ LF # j @ TAB # w)) = hm_insert j w (hm_insert k v (replay c))"
proof -
  let ?l = "k @ TAB # v"
  have v: "trim_end v = v" "v \<noteq> []" "TAB \<notin> set (trim_end v)" using value_whole [OF assms(3)] by simp_all
  have "apply_line m ?l = hm_insert k v m" for m
    using apply_key_value [OF key_whole [OF assms(2)] v(3)] v by simp
  moreover have "LF \<notin> set ?l" "valid_str ?l" "strip_cr ?l = ?l"
    using key_text [OF assms(2)] value_whole [OF assms(3)] value_no_cr [OF assms(3), of "k @ [TAB]"]
    by (simp_all add: TAB_def LF_def valid_str_append TAB_ascii)
  note first = replay_line [OF assms(1) this]
  ultimately have "replay ((c @ ?l @ [LF]) @ entry_line j w) = hm_insert j w (hm_insert k v (replay c))"
    using replay_entry(2) [OF first(1) assms(4,5)] first(2) by simp
  then show ?thesis by (simp add: entry_line_def)
qed

text \<open>A store that was opened on no file and then written to.\<close>

definition sample_store :: novoht where
  "sample_store =
     (let nv0 = \<lparr>nv_map = [], nv_db_path = ''db'', nv_persistent = True, nv_file = Some []\<rparr>
      in snd (run_ops nv_step [NPut Io_Ok ''k1'' ''v'', NPut Io_Ok ''k12'' ''w''] nv0))"

lemma sample_tokens: "storable_key ''k1''" "storable_key ''k12''" "storable_key ''kk1''"
  "storable_value ''v''" "storable_value ''w''" "storable_value ''vw''"
  by (simp_all add: storable_key_def storable_value_def TAB_def LF_def scan_eval)

lemma sample_durable: "durable sample_store"
  unfolding sample_store_def Let_def
  by (rule durable_run [OF durable_fresh(2)]) (simp add: sample_tokens)

lemma sample_store_map: "hm_get (nv_map sample_store) = [''k1'' \<mapsto> ''v'', ''k12'' \<mapsto> ''w'']"
  by (auto simp: sample_store_def fun_eq_iff)

section \<open>Properties\<close>

text \<open>
  C6. A write that is cut short harms its own key only, if the key and the value are such that
  a line of the file can carry them: the key is not empty, does not start with a tilde or with
  white space nor end with it, the value is not empty and does not end with white space, and
  neither has a tab or a line feed. When the write of a put, an append or a compare-and-swap
  of such a key and value stops after any number of bytes, in a store whose file is the log of
  its map, the call is answered as if it had succeeded; and after a restart every other key
  has the value it had, while the key has its old value or a non-empty beginning of the value
  it was given.
\<close>

theorem torn_write_is_local:
  fixes nv :: novoht and key new expected e err :: string and n :: nat and x :: nv_op
  defines "after \<equiv> snd (nv_step x nv)"
  assumes "durable nv" "storable_key key" "storable_value new"
    and "x \<in> {NPut (Io_Write_Err n err) key new, NAppend (Io_Write_Err n err) key new,
           NCas (Io_Write_Err n err) key expected new}"
  shows "fst (nv_step x nv) = fst (kv_step x (nv_abs nv)) \<and>
    (hm_get (nv_map (restart after)) = hm_get (nv_map nv) \<or>
     (\<exists>new_value part. hm_get (nv_map after) key = Some new_value \<and> prefix part new_value \<and> part \<noteq> [] \<and>
        hm_get (nv_map (restart after)) = (hm_get (nv_map nv))(key \<mapsto> part)))"
proof -
  have ne: "key \<noteq> []" and per: "nv_persistent nv" and inv: "nv_inv nv"
    using assms(2,3) by (auto simp: storable_key_def durable_def nv_inv_def)
  have old: "storable_value v" if "hm_get (nv_map nv) key = Some v" for v
    using durable_storable_value [OF assms(2) that] .
  define written where "written = (if x = NPut (Io_Write_Err n err) key new then new
    else if x = NAppend (Io_Write_Err n err) key new then appended (hm_get (nv_map nv) key) new
    else swapped (hm_get (nv_map nv) key) expected new)"
  have storable: "storable_value written"
    using assms(4) old by (auto simp: written_def appended_def swapped_def split: option.split intro: storable_append')
  have "hm_get (nv_map after) key = Some written"
    "\<exists>m. after = snd (write_entry (Io_Write_Err n err) key written (nv\<lparr>nv_map := m\<rparr>))"
    using assms(5) ne per
    by (auto simp: after_def written_def nv_put_def nv_append_def nv_compare_swap_def appended_def swapped_def
        Let_def split: option.split) (rule exI [of _ "nv_map nv"], simp)
  with torn_write [OF assms(2,3) storable, of n err] have
    "hm_get (nv_map (restart after)) = hm_get (nv_map nv) \<or>
     (\<exists>new_value part. hm_get (nv_map after) key = Some new_value \<and> prefix part new_value \<and> part \<noteq> [] \<and>
        hm_get (nv_map (restart after)) = (hm_get (nv_map nv))(key \<mapsto> part))" by metis
  moreover have "fst (nv_step x nv) = fst (kv_step x (nv_abs nv))"
    using nv.commutes [OF inv, of x] by (simp add: map_prod_pair)
  ultimately show ?thesis by blast
qed

theorem torn_write_is_local_witness:
  fixes x :: nv_op and after :: novoht
  defines "x \<equiv> NAppend (Io_Write_Err 5 ''disk full'') ''k1'' ''w''"
    and "after \<equiv> snd (nv_step (NAppend (Io_Write_Err 5 ''disk full'') ''k1'' ''w'') sample_store)"
  shows "fst (nv_step x sample_store) = OUnit (Inr ()) \<and>
    (hm_get (nv_map (restart after)) = [''k1'' \<mapsto> ''v'', ''k12'' \<mapsto> ''w''] \<or>
     (\<exists>new_value part. hm_get (nv_map after) ''k1'' = Some new_value \<and> prefix part new_value \<and> part \<noteq> [] \<and>
        hm_get (nv_map (restart after)) = [''k1'' \<mapsto> part, ''k12'' \<mapsto> ''w'']))"
proof -
  have "fst (kv_step x (nv_abs sample_store)) = OUnit (Inr ())"
    by (simp add: x_def nv_abs_def)
  with torn_write_is_local [OF sample_durable sample_tokens(1,5), of x 5 "''disk full''" "[]"] show ?thesis
    by (simp add: x_def after_def sample_store_map fun_upd_twist)
qed

text \<open>
  An entry that follows a torn one is lost. When the write of a put stops inside its key, the
  next put is answered with success and its entry is written in full, but onto the same line:
  after a restart the value is found under the torn beginning of the first key joined with the
  second key, and under no other.
\<close>

lemma torn_write_swallows_next:
  fixes nv :: novoht and k v j w e :: string and n :: nat
  defines "after \<equiv> snd (nv_put Io_Ok j w (snd (nv_put (Io_Write_Err n e) k v nv)))"
  assumes "durable nv" "k \<noteq> []" "j \<noteq> []" "n \<le> length k"
    and "storable_key (take n k @ j)" "storable_value w"
  shows "fst (nv_put Io_Ok j w (snd (nv_put (Io_Write_Err n e) k v nv))) = Inr () \<and>
    nv_get j after = Inr w \<and>
    hm_get (nv_map (restart after)) = (hm_get (nv_map nv))(take n k @ j \<mapsto> w)"
proof -
  obtain c where c: "nv_persistent nv" "nv_file nv = Some c" "closed_log c"
      "hm_get (replay c) = hm_get (nv_map nv)"
    using assms(2) by (rule durable_file)
  have "take n (entry_line k v) = take n k" using assms(5) by (simp add: entry_line_def)
  then have "file_content after = c @ entry_line (take n k @ j) w"
    using c(1,2) assms(3,4) by (simp add: after_def nv_put_def write_entry_def file_content_def entry_line_def)
  with replay_entry(2) [OF c(3) assms(6,7)] c(4)
  have "hm_get (nv_map (restart after)) = (hm_get (nv_map nv))(take n k @ j \<mapsto> w)"
    by (simp add: restart_map)
  moreover have "nv_get j after = Inr w" using assms(4) by (simp add: after_def nv_get_def)
  ultimately show ?thesis using assms(4) by (simp add: nv_answers)
qed

text \<open>
  A removal that is cut short removes another key. When the write of a removal stops inside
  its key, the call is answered with success, and after a restart the key is back and the key
  that is the written part of it is gone.
\<close>

lemma torn_removal_hits_prefix:
  fixes nv :: novoht and p q e :: string
  defines "after \<equiv> snd (nv_remove (Io_Write_Err (Suc (length p)) e) (p @ q) nv)"
  assumes "durable nv" "hm_contains (nv_map nv) (p @ q)" "storable_key p"
  shows "fst (nv_remove (Io_Write_Err (Suc (length p)) e) (p @ q) nv) = Inr () \<and>
    nv_get (p @ q) after = Inl (KeyNotFound (p @ q)) \<and>
    hm_get (nv_map (restart after)) = (hm_get (nv_map nv))(p := None)"
proof -
  obtain c where c: "nv_persistent nv" "nv_file nv = Some c" "closed_log c"
      "hm_get (replay c) = hm_get (nv_map nv)"
    using assms(2) by (rule durable_file)
  have "file_content after = c @ (CHR ''~'' # p)"
    using c(1,2) assms(3) by (simp add: after_def nv_remove_def write_removal_def file_content_def removal_line_def)
  moreover have "LF \<notin> set (CHR ''~'' # p)" "valid_str (CHR ''~'' # p)"
    using key_text [OF assms(4)] by (simp_all add: LF_def TAB_ascii)
  ultimately have "nv_map (restart after) = hm_remove p (replay c)"
    using replay_open [OF c(3)] by (simp add: restart_map apply_removal_open [OF assms(4)])
  moreover have "nv_get (p @ q) after = Inl (KeyNotFound (p @ q))"
    using assms(3) by (simp add: after_def nv_get_def)
  ultimately show ?thesis using assms(3) c(4) by (simp add: nv_answers)
qed

text \<open>
  C35. What a restart makes of entries that no line can carry, although each put was answered with
  success and written in full: a key that starts with a tilde is not there and the key behind the
  tilde is gone; an empty value leaves the value from before; a tab in a value has become a colon;
  and a value that goes on after a line feed with a key, a tab and a value has put an entry of
  its own.
\<close>

theorem restart_changes_map:
  fixes nv :: novoht and k v j w :: string
  defines "m \<equiv> hm_get (nv_map nv)"
    and "reloaded \<equiv> (\<lambda>key value. hm_get (nv_map (restart (snd (nv_put Io_Ok key value nv)))))"
  assumes "durable nv" "storable_key k" "storable_value v" "storable_key j" "storable_value w"
  shows "reloaded (''~'' @ k) v = m(k := None) \<and>
    reloaded k [] = m \<and>
    reloaded k (v @ [TAB] @ w) = m(k \<mapsto> v @ '':'' @ w) \<and>
    reloaded k (v @ [LF] @ j @ [TAB] @ w) = m(k \<mapsto> v, j \<mapsto> w)"
proof -
  obtain c where c: "nv_file nv = Some c" "closed_log c" "hm_get (replay c) = m"
    using durable_file [OF assms(3)] by (metis m_def)
  have ne: "k \<noteq> []" by (rule key_whole(3) [OF assms(4)])
  note put = restart_put [OF assms(3) _ c(1)]
  show ?thesis
    using put [of "''~'' @ k"] put [OF ne] read_tilde [OF c(2) assms(4,5)] read_empty [OF c(2) assms(4)]
      read_tabbed [OF c(2) assms(4,5,7)] read_injected [OF c(2) assms(4-7)]
    by (simp add: reloaded_def c(3))
qed

theorem restart_changes_map_witness:
  fixes reloaded :: "string \<Rightarrow> string \<Rightarrow> string \<rightharpoonup> string"
  defines "reloaded \<equiv> (\<lambda>key value. hm_get (nv_map (restart (snd (nv_put Io_Ok key value sample_store)))))"
  shows "reloaded ''~k1'' ''v'' = [''k12'' \<mapsto> ''w''] \<and>
    reloaded ''k1'' [] = [''k1'' \<mapsto> ''v'', ''k12'' \<mapsto> ''w''] \<and>
    reloaded ''k1'' (''v'' @ [TAB] @ ''w'') = [''k1'' \<mapsto> ''v:w'', ''k12'' \<mapsto> ''w''] \<and>
    reloaded ''k1'' (''v'' @ [LF] @ ''kk1'' @ [TAB] @ ''w'') = [''k1'' \<mapsto> ''v'', ''k12'' \<mapsto> ''w'', ''kk1'' \<mapsto> ''w'']"
  using restart_changes_map [OF sample_durable sample_tokens(1,4,3,5)]
  by (auto simp: reloaded_def sample_store_map fun_upd_twist)

end
