(* ===== verification/Novoht_Torn.thy ===== *)
theory Novoht_Torn
  imports Novoht_Crash
begin

text \<open>
  A write to the file of NoVoHT that stops inside a character, and what is written after it. The
  loading of \<open>zht-storage/src/lib.rs\<close> (\<open>read_file_from_reader\<close>) stops at the first line that is not
  UTF-8, so such a line hides every entry behind it; and opening the file writes it anew, so what
  was hidden is then gone.
\<close>

section \<open>The file behind the torn line\<close>







section \<open>Operations after the torn write\<close>







section \<open>What is lost\<close>




section \<open>Property\<close>



end
