(* ===== verification/Membership.thy ===== *)
theory Membership
  imports Op_Machine Zht_Common
begin

text \<open>
  Section A of \<open>zht-server/src/lib.rs\<close>: \<open>MembershipManager\<close>, the list of the other members of
  the cluster with their health. The write lock makes each operation one step; the time read
  in it is an argument.
\<close>

section \<open>State\<close>

datatype node_state = Alive | Suspect | Dead | Left

fun show_node_state :: "node_state \<Rightarrow> string" where
  "show_node_state Alive = ''Alive''"
| "show_node_state Suspect = ''Suspect''"
| "show_node_state Dead = ''Dead''"
| "show_node_state Left = ''Left''"

record member_entry =
  me_host :: host_entity
  me_state :: node_state
  me_last_heartbeat :: nat
  me_joined_at :: nat

record membership =
  mb_members :: "member_entry list"
  mb_self_node :: host_entity

definition new_entry :: "nat \<Rightarrow> host_entity \<Rightarrow> member_entry" where
  "new_entry now h =
     \<lparr>me_host = h, me_state = Alive, me_last_heartbeat = now, me_joined_at = now\<rparr>"

definition MembershipManager_new :: "nat \<Rightarrow> host_entity \<Rightarrow> host_entity list \<Rightarrow> membership" where
  "MembershipManager_new now self_host initial_members =
     \<lparr>mb_members = map (new_entry now) (filter (\<lambda>h. h \<noteq> self_host) initial_members),
      mb_self_node = self_host\<rparr>"

section \<open>Operations\<close>

definition is_at :: "string \<Rightarrow> u16 \<Rightarrow> member_entry \<Rightarrow> bool" where
  "is_at h p e \<longleftrightarrow> he_host (me_host e) = h \<and> he_port (me_host e) = p"

text \<open>\<open>iter_mut().find(..)\<close> and the update of what it found: the first match only.\<close>

fun update_first :: "('a \<Rightarrow> bool) \<Rightarrow> ('a \<Rightarrow> 'a) \<Rightarrow> 'a list \<Rightarrow> 'a list" where
  "update_first P f [] = []"
| "update_first P f (x # xs) = (if P x then f x # xs else x # update_first P f xs)"

definition member_count :: "membership \<Rightarrow> nat" where
  "member_count mb = length (filter (\<lambda>m. me_state m = Alive) (mb_members mb))"

definition mark_alive :: "nat \<Rightarrow> string \<Rightarrow> u16 \<Rightarrow> membership \<Rightarrow> membership" where
  "mark_alive now h p mb =
     mb\<lparr>mb_members := update_first (is_at h p)
       (\<lambda>e. e\<lparr>me_state := Alive, me_last_heartbeat := now\<rparr>) (mb_members mb)\<rparr>"

definition mark_suspect :: "nat \<Rightarrow> string \<Rightarrow> u16 \<Rightarrow> membership \<Rightarrow> membership" where
  "mark_suspect now h p mb =
     mb\<lparr>mb_members := update_first (is_at h p)
       (\<lambda>e. e\<lparr>me_state := Suspect, me_last_heartbeat := now\<rparr>) (mb_members mb)\<rparr>"

definition mark_dead :: "string \<Rightarrow> u16 \<Rightarrow> membership \<Rightarrow> membership" where
  "mark_dead h p mb =
     mb\<lparr>mb_members := update_first (is_at h p) (\<lambda>e. e\<lparr>me_state := Dead\<rparr>) (mb_members mb)\<rparr>"

definition is_alive :: "string \<Rightarrow> u16 \<Rightarrow> membership \<Rightarrow> bool" where
  "is_alive h p mb \<longleftrightarrow> list_ex (\<lambda>m. is_at h p m \<and> me_state m = Alive) (mb_members mb)"

definition add_member :: "nat \<Rightarrow> host_entity \<Rightarrow> membership \<Rightarrow> membership" where
  "add_member now h mb =
     (if h = mb_self_node mb then mb
      else if list_ex (\<lambda>m. me_host m = h) (mb_members mb) then mb
      else mb\<lparr>mb_members := mb_members mb @ [new_entry now h]\<rparr>)"

definition remove_member :: "string \<Rightarrow> u16 \<Rightarrow> membership \<Rightarrow> membership" where
  "remove_member h p mb = mb\<lparr>mb_members := filter (\<lambda>m. \<not> is_at h p m) (mb_members mb)\<rparr>"

text \<open>\<open>elapsed\<close> does not go below zero.\<close>

definition check_health :: "nat \<Rightarrow> nat \<Rightarrow> membership \<Rightarrow> membership" where
  "check_health now timeout mb =
     mb\<lparr>mb_members := map
       (\<lambda>e. if me_state e = Alive \<and> timeout < now - me_last_heartbeat e
            then e\<lparr>me_state := Suspect\<rparr> else e) (mb_members mb)\<rparr>"

definition active_members :: "membership \<Rightarrow> host_entity list" where
  "active_members mb = map me_host (filter (\<lambda>m. me_state m = Alive) (mb_members mb))"

definition mb_resolve_node :: "membership \<Rightarrow> string \<Rightarrow> host_entity option" where
  "mb_resolve_node mb key =
     (let alive = active_members mb in
      if alive = [] then None else Some (alive ! route_index key (length alive)))"

section \<open>No duplicates, and never the node itself\<close>

definition mb_inv :: "membership \<Rightarrow> bool" where
  "mb_inv mb \<longleftrightarrow>
     distinct (map me_host (mb_members mb)) \<and>
     (\<forall>m \<in> set (mb_members mb). me_host m \<noteq> mb_self_node mb)"

lemma update_first_hosts:
  "(\<And>e. me_host (f e) = me_host e) \<Longrightarrow> map me_host (update_first P f es) = map me_host es"
  by (induction es) auto

lemma me_host_map:
  "(\<And>e. me_host (f e) = me_host e) \<Longrightarrow> map me_host (map f es) = map me_host es"
  by simp

lemma mb_inv_hosts:
  assumes "mb_inv mb" "map me_host es = map me_host (mb_members mb)"
  shows "mb_inv (mb\<lparr>mb_members := es\<rparr>)"
proof -
  have "me_host ` set es = me_host ` set (mb_members mb)"
    using assms(2) by (metis list.set_map)
  then have "\<forall>m \<in> set es. me_host m \<noteq> mb_self_node mb"
    using assms(1) by (force simp: mb_inv_def)
  with assms show ?thesis by (simp add: mb_inv_def)
qed

datatype mb_op =
    MbAlive nat string u16 | MbSuspect nat string u16 | MbDead string u16
  | MbAdd nat host_entity | MbRemove string u16 | MbHealth nat nat

fun mb_step :: "mb_op \<Rightarrow> membership \<Rightarrow> unit \<times> membership" where
  "mb_step (MbAlive now h p) mb = ((), mark_alive now h p mb)"
| "mb_step (MbSuspect now h p) mb = ((), mark_suspect now h p mb)"
| "mb_step (MbDead h p) mb = ((), mark_dead h p mb)"
| "mb_step (MbAdd now h) mb = ((), add_member now h mb)"
| "mb_step (MbRemove h p) mb = ((), remove_member h p mb)"
| "mb_step (MbHealth now timeout) mb = ((), check_health now timeout mb)"

lemma mb_step_inv: "mb_inv mb \<Longrightarrow> mb_inv (snd (mb_step x mb))"
proof (cases x)
  case (MbAdd now h)
  assume "mb_inv mb"
  with MbAdd show ?thesis
    by (auto simp: add_member_def mb_inv_def new_entry_def list_ex_iff)
next
  case (MbRemove h p)
  assume "mb_inv mb"
  with MbRemove show ?thesis
    by (auto simp: remove_member_def mb_inv_def distinct_map_filter)
qed (auto simp: mark_alive_def mark_suspect_def mark_dead_def check_health_def
    intro!: mb_inv_hosts update_first_hosts)

interpretation members: op_machine mb_step mb_inv
  by unfold_locales (rule mb_step_inv)

lemma new_no_self: "m \<in> set (mb_members (MembershipManager_new now self hs)) \<Longrightarrow> me_host m \<noteq> self"
  by (auto simp: MembershipManager_new_def new_entry_def)

lemma new_inv: "distinct hs \<Longrightarrow> mb_inv (MembershipManager_new now self hs)"
  by (auto simp: mb_inv_def MembershipManager_new_def new_entry_def o_def)

section \<open>Who is alive\<close>

lemma is_at_unique:
  "mb_inv mb \<Longrightarrow> m \<in> set (mb_members mb) \<Longrightarrow> m' \<in> set (mb_members mb) \<Longrightarrow>
   is_at h p m \<Longrightarrow> is_at h p m' \<Longrightarrow> m = m'"
  by (auto simp: mb_inv_def is_at_def distinct_map inj_on_def)

lemma update_first_unique:
  assumes "distinct (map me_host es)" "\<And>e. me_host (f e) = me_host e"
  shows "update_first (is_at h p) f es = map (\<lambda>e. if is_at h p e then f e else e) es"
  using assms(1)
proof (induction es)
  case (Cons e es)
  show ?case
  proof (cases "is_at h p e")
    case True
    have "\<not> is_at h p e'" if "e' \<in> set es" for e'
      using that True Cons.prems by (auto simp: is_at_def) (metis host_entity.equality image_eqI old.unit.exhaust)
    then have "map (\<lambda>e. if is_at h p e then f e else e) es = es" by (intro map_idI) auto
    with True show ?thesis by simp
  qed (use Cons in simp)
qed simp

lemma alive_after:
  assumes "mb_inv mb" "m \<in> set (mb_members mb)" "is_at h p m"
  shows "is_alive h p (mark_alive now h p mb)" "\<not> is_alive h p (mark_suspect now h p mb)"
    and "\<not> is_alive h p (mark_dead h p mb)" "\<not> is_alive h p (remove_member h p mb)"
proof -
  have d: "distinct (map me_host (mb_members mb))" using assms(1) by (simp add: mb_inv_def)
  let ?f = "\<lambda>e :: member_entry. e\<lparr>me_state := Alive, me_last_heartbeat := now\<rparr>"
  have u: "update_first (is_at h p) ?f (mb_members mb) = map (\<lambda>e. if is_at h p e then ?f e else e) (mb_members mb)"
    by (rule update_first_unique [OF d]) simp
  have "(if is_at h p m then ?f m else m) \<in> set (map (\<lambda>e. if is_at h p e then ?f e else e) (mb_members mb))"
    unfolding set_map using assms(2) by (rule imageI)
  then have "?f m \<in> set (update_first (is_at h p) ?f (mb_members mb))"
    unfolding u using assms(3) by simp
  then have mem: "?f m \<in> set (mb_members (mark_alive now h p mb))" by (simp add: mark_alive_def)
  have "is_at h p (?f m) \<and> me_state (?f m) = Alive" using assms(3) by (simp add: is_at_def)
  then show "is_alive h p (mark_alive now h p mb)"
    unfolding is_alive_def list_ex_iff using mem by (rule bexI)
  have none: "\<not> list_ex (\<lambda>e. is_at h p e \<and> me_state e = Alive) (update_first (is_at h p) f (mb_members mb))"
    if f: "\<And>e. me_host (f e) = me_host e" "\<And>e. me_state (f e) \<noteq> Alive" for f :: "member_entry \<Rightarrow> member_entry"
  proof -
    have "\<not> (is_at h p (if is_at h p e then f e else e) \<and> me_state (if is_at h p e then f e else e) = Alive)" for e
      using f(2) by simp
    then show ?thesis
      unfolding update_first_unique [OF d f(1)] list_ex_iff set_map by blast
  qed
  show "\<not> is_alive h p (mark_suspect now h p mb)" "\<not> is_alive h p (mark_dead h p mb)"
    unfolding is_alive_def mark_suspect_def mark_dead_def by (simp_all add: none)
  show "\<not> is_alive h p (remove_member h p mb)"
    by (auto simp: is_alive_def remove_member_def list_ex_iff)
qed

lemma is_alive_active: "is_alive h p mb \<longleftrightarrow> \<lparr>he_host = h, he_port = p\<rparr> \<in> set (active_members mb)"
proof -
  have "is_at h p m \<longleftrightarrow> me_host m = \<lparr>he_host = h, he_port = p\<rparr>" for m
    by (cases "me_host m") (simp add: is_at_def)
  then show ?thesis by (force simp: is_alive_def active_members_def list_ex_iff)
qed

section \<open>Routing\<close>

lemma member_count_active: "member_count mb = length (active_members mb)"
  by (simp add: member_count_def active_members_def)

lemma mb_resolve_None: "mb_resolve_node mb key = None \<longleftrightarrow> member_count mb = 0"
  by (simp add: mb_resolve_node_def member_count_active Let_def)

lemma mb_resolve_Some: "mb_resolve_node mb key = Some h \<Longrightarrow> h \<in> set (active_members mb)"
  by (auto simp: mb_resolve_node_def Let_def route_index_less split: if_splits)

lemma active_not_self: "mb_inv mb \<Longrightarrow> mb_self_node mb \<notin> set (active_members mb)"
  by (auto simp: mb_inv_def active_members_def)

section \<open>Health states\<close>

text \<open>The transitions of a member's state, and the states it can come to.\<close>

inductive health_step :: "node_state \<Rightarrow> node_state \<Rightarrow> bool" where
  stay: "health_step s s"
| heartbeat: "health_step s Alive"
| missed: "health_step s Suspect"
| declared: "health_step s Dead"

inductive_cases health_step_LeftE: "health_step s Left"

definition member_state :: "membership \<Rightarrow> host_entity \<Rightarrow> node_state option" where
  "member_state mb h = map_of (map (\<lambda>m. (me_host m, me_state m)) (mb_members mb)) h"

lemma member_state_mem: "member_state mb h = Some s \<Longrightarrow> \<exists>m \<in> set (mb_members mb). me_host m = h \<and> me_state m = s"
  unfolding member_state_def by (drule map_of_SomeD) auto

text \<open>Only the four transitions occur; a new member starts alive.\<close>

definition moved_from :: "member_entry list \<Rightarrow> member_entry \<Rightarrow> bool" where
  "moved_from es m' \<longleftrightarrow>
     (\<exists>m \<in> set es. me_host m = me_host m' \<and> health_step (me_state m) (me_state m'))"

lemma moved_same: "m' \<in> set es \<Longrightarrow> moved_from es m'"
  by (auto simp: moved_from_def intro: stay)

lemma moved_missed: "m \<in> set es \<Longrightarrow> moved_from es (m\<lparr>me_state := Suspect\<rparr>)"
  unfolding moved_from_def by (rule bexI [of _ m]) (simp_all add: missed)

lemma moved_first:
  assumes "m' \<in> set (update_first P f es)"
    and "\<And>e. me_host (f e) = me_host e" "\<And>e. health_step (me_state e) (me_state (f e))"
  shows "moved_from es m'"
  using assms(1)
  by (induction es) (auto simp: moved_from_def assms(2,3) intro: stay split: if_splits)

lemma health_transitions:
  assumes "m' \<in> set (mb_members (snd (mb_step x mb)))"
  shows "moved_from (mb_members mb) m' \<or> me_state m' = Alive"
proof (cases x)
  case (MbAlive now h p)
  with assms have "m' \<in> set (update_first (is_at h p)
      (\<lambda>e. e\<lparr>me_state := Alive, me_last_heartbeat := now\<rparr>) (mb_members mb))"
    by (simp add: mark_alive_def)
  from moved_first [OF this] show ?thesis by (simp add: heartbeat)
next
  case (MbSuspect now h p)
  with assms have "m' \<in> set (update_first (is_at h p)
      (\<lambda>e. e\<lparr>me_state := Suspect, me_last_heartbeat := now\<rparr>) (mb_members mb))"
    by (simp add: mark_suspect_def)
  from moved_first [OF this] show ?thesis by (simp add: missed)
next
  case (MbDead h p)
  with assms have "m' \<in> set (update_first (is_at h p) (\<lambda>e. e\<lparr>me_state := Dead\<rparr>) (mb_members mb))"
    by (simp add: mark_dead_def)
  from moved_first [OF this] show ?thesis by (simp add: declared)
next
  case (MbAdd now h)
  with assms show ?thesis
    by (auto simp: add_member_def new_entry_def intro: moved_same split: if_splits)
next
  case (MbRemove h p)
  with assms show ?thesis by (auto simp: remove_member_def intro: moved_same)
next
  case (MbHealth now timeout)
  with assms show ?thesis
    by (auto simp: check_health_def intro: moved_same moved_missed split: if_splits)
qed

definition no_left :: "membership \<Rightarrow> bool" where
  "no_left mb \<longleftrightarrow> (\<forall>m \<in> set (mb_members mb). me_state m \<noteq> Left)"

lemma no_left_step: "no_left mb \<Longrightarrow> no_left (snd (mb_step x mb))"
  unfolding no_left_def
  by (metis health_step_LeftE health_transitions moved_from_def node_state.distinct(5))

interpretation graceful: op_machine mb_step no_left
  by unfold_locales (rule no_left_step)

text \<open>The states in the order of decline.\<close>

primrec state_rank :: "node_state \<Rightarrow> nat" where
  "state_rank Alive = 0"
| "state_rank Suspect = 1"
| "state_rank Dead = 2"
| "state_rank Left = 3"

lemma state_rank_inject: "state_rank s = state_rank s' \<longleftrightarrow> s = s'"
  by (cases s; cases s') simp_all

instantiation node_state :: linorder
begin

definition less_eq_node_state :: "node_state \<Rightarrow> node_state \<Rightarrow> bool" where
  "less_eq_node_state s s' \<longleftrightarrow> state_rank s \<le> state_rank s'"

definition less_node_state :: "node_state \<Rightarrow> node_state \<Rightarrow> bool" where
  "less_node_state s s' \<longleftrightarrow> state_rank s < state_rank s'"

instance
  by standard (auto simp: less_eq_node_state_def less_node_state_def state_rank_inject)

end

lemma state_order [simp]: "Alive \<le> s" "s \<le> Alive \<longleftrightarrow> s = Alive" "Suspect \<le> s \<longleftrightarrow> s \<noteq> Alive"
  by (cases s; simp add: less_eq_node_state_def)+

text \<open>
  Health checks, deaths and removals only let members decline: without a report that a node
  lives, is suspect or has joined, nobody comes back to an earlier state, so nobody comes back
  to life. (\<open>mark_suspect\<close> takes a dead member back to suspect.)
\<close>

fun declining :: "mb_op \<Rightarrow> bool" where
  "declining (MbDead h p) = True"
| "declining (MbRemove h p) = True"
| "declining (MbHealth now timeout) = True"
| "declining x = False"

definition declined :: "member_entry list \<Rightarrow> member_entry list \<Rightarrow> bool" where
  "declined es es' \<longleftrightarrow>
     (\<forall>m' \<in> set es'. \<exists>m \<in> set es. me_host m = me_host m' \<and> me_state m \<le> me_state m')"

lemma declined_refl: "declined es es"
  by (auto simp: declined_def)

lemma declined_trans: "declined es es' \<Longrightarrow> declined es' es'' \<Longrightarrow> declined es es''"
  unfolding declined_def by (metis (no_types, lifting) order.trans)

lemma update_first_mem: "m' \<in> set (update_first P f es) \<Longrightarrow> m' \<in> set es \<or> (\<exists>m \<in> set es. m' = f m)"
  by (induction es) (auto split: if_splits)

lemma declined_dead:
  assumes "no_left mb"
  shows "declined (mb_members mb) (mb_members (mark_dead h p mb))"
proof -
  have low: "me_state m \<le> Dead" if "m \<in> set (mb_members mb)" for m
    using assms that by (cases "me_state m") (auto simp: no_left_def less_eq_node_state_def)
  have "\<exists>m \<in> set (mb_members mb). me_host m = me_host m' \<and> me_state m \<le> me_state m'"
    if "m' \<in> set (mb_members (mark_dead h p mb))" for m'
  proof -
    from that update_first_mem [of m' "is_at h p" "\<lambda>e. e\<lparr>me_state := Dead\<rparr>" "mb_members mb"]
    consider "m' \<in> set (mb_members mb)" | m where "m \<in> set (mb_members mb)" "m' = m\<lparr>me_state := Dead\<rparr>"
      by (auto simp: mark_dead_def)
    then show ?thesis
    proof cases
      case 2
      with low show ?thesis by (intro bexI [of _ m]) simp_all
    qed auto
  qed
  then show ?thesis by (simp add: declined_def)
qed

lemma declined_step:
  assumes "no_left mb" "declining x"
  shows "declined (mb_members mb) (mb_members (snd (mb_step x mb)))"
proof (cases x)
  case (MbDead h p)
  with assms(1) show ?thesis by (simp add: declined_dead)
next
  case (MbRemove h p)
  then show ?thesis by (auto simp: remove_member_def declined_def)
next
  case (MbHealth now timeout)
  then show ?thesis by (auto simp: check_health_def declined_def)
qed (use assms(2) in simp_all)

lemma declined_run:
  "no_left mb \<Longrightarrow> list_all declining xs \<Longrightarrow> declined (mb_members mb) (mb_members (snd (run_ops mb_step xs mb)))"
proof (induction xs arbitrary: mb)
  case (Cons x xs)
  then have "declined (mb_members mb) (mb_members (snd (mb_step x mb)))"
    "declined (mb_members (snd (mb_step x mb))) (mb_members (snd (run_ops mb_step xs (snd (mb_step x mb)))))"
    using Cons.IH [OF no_left_step [OF Cons.prems(1)]] by (simp_all add: declined_step)
  from declined_trans [OF this] show ?case by (simp add: case_prod_beta Let_def)
qed (simp add: declined_refl)

lemma no_revival:
  assumes "no_left mb" "list_all declining xs" "h \<in> set (active_members (snd (run_ops mb_step xs mb)))"
  shows "h \<in> set (active_members mb)"
proof -
  from assms(3) obtain m' where m': "m' \<in> set (mb_members (snd (run_ops mb_step xs mb)))"
      "me_host m' = h" "me_state m' = Alive"
    by (auto simp: active_members_def)
  with declined_run [OF assms(1,2)] obtain m where
      "m \<in> set (mb_members mb)" "me_host m = h" "me_state m \<le> Alive"
    unfolding declined_def by metis
  then show ?thesis by (auto simp: active_members_def)
qed

text \<open>A health check suspects exactly the stale ones.\<close>

lemma check_health_alive:
  "active_members (check_health now timeout mb) =
     map me_host (filter (\<lambda>m. me_state m = Alive \<and> now - me_last_heartbeat m \<le> timeout) (mb_members mb))"
proof -
  have "map me_host (filter (\<lambda>m. me_state m = Alive)
      (map (\<lambda>e. if me_state e = Alive \<and> timeout < now - me_last_heartbeat e
            then e\<lparr>me_state := Suspect\<rparr> else e) es))
    = map me_host (filter (\<lambda>m. me_state m = Alive \<and> now - me_last_heartbeat m \<le> timeout) es)" for es
    by (induction es) auto
  then show ?thesis by (simp add: active_members_def check_health_def)
qed

section \<open>Properties\<close>

lemma self_node_run: "mb_self_node (snd (run_ops mb_step xs mb)) = mb_self_node mb"
proof (induction xs arbitrary: mb)
  case (Cons x xs)
  have "mb_self_node (snd (mb_step x mb)) = mb_self_node mb"
    by (cases x) (simp_all add: mark_alive_def mark_suspect_def mark_dead_def add_member_def
        remove_member_def check_health_def)
  with Cons show ?case by simp
qed simp

text \<open>
  C11. The member list stays sound: made from distinct hosts, then changed by any operations in
  any order, it names each host once and never the node itself, so a key is never routed to
  the node that asks; and no member is ever in the state \<open>Left\<close>.
\<close>

theorem members_stay_sound:
  assumes "distinct hs"
  shows "mb_inv (snd (run_ops mb_step xs (MembershipManager_new now self hs))) \<and>
    self \<notin> set (active_members (snd (run_ops mb_step xs (MembershipManager_new now self hs)))) \<and>
    no_left (snd (run_ops mb_step xs (MembershipManager_new now self hs)))"
proof -
  let ?start = "MembershipManager_new now self hs"
  have inv: "mb_inv (snd (run_ops mb_step xs ?start))"
    by (rule members.run_inv [OF new_inv [OF assms]])
  have "no_left ?start" by (auto simp: no_left_def MembershipManager_new_def new_entry_def)
  then have "no_left (snd (run_ops mb_step xs ?start))" by (rule graceful.run_inv)
  moreover have "mb_self_node (snd (run_ops mb_step xs ?start)) = self"
    by (simp add: self_node_run MembershipManager_new_def)
  ultimately show ?thesis using inv active_not_self by metis
qed

theorem members_stay_sound_witness:
  fixes a b :: host_entity
  defines "a \<equiv> \<lparr>he_host = ''a'', he_port = 1\<rparr>" and "b \<equiv> \<lparr>he_host = ''b'', he_port = 2\<rparr>"
    and "xs \<equiv> [MbAdd 1 \<lparr>he_host = ''a'', he_port = 1\<rparr>, MbDead ''b'' 2, MbHealth 90 60]"
  shows "mb_inv (snd (run_ops mb_step xs (MembershipManager_new 0 a [a, b]))) \<and>
    a \<notin> set (active_members (snd (run_ops mb_step xs (MembershipManager_new 0 a [a, b])))) \<and>
    no_left (snd (run_ops mb_step xs (MembershipManager_new 0 a [a, b])))"
  by (rule members_stay_sound) (simp add: a_def b_def)

text \<open>
  A report about a node decides whether it counts as alive and changes nothing about any
  other: for a known member, \<open>mark_alive\<close> makes it alive, and \<open>mark_suspect\<close>, \<open>mark_dead\<close> and
  \<open>remove_member\<close> make it not alive.
\<close>

lemma reports_decide_liveness:
  assumes "mb_inv mb" "list_ex (is_at h p) (mb_members mb)"
  shows "(is_alive a q (mark_alive now h p mb) \<longleftrightarrow> (a, q) = (h, p) \<or> is_alive a q mb) \<and>
    (is_alive a q (mark_suspect now h p mb) \<longleftrightarrow> (a, q) \<noteq> (h, p) \<and> is_alive a q mb) \<and>
    (is_alive a q (mark_dead h p mb) \<longleftrightarrow> (a, q) \<noteq> (h, p) \<and> is_alive a q mb) \<and>
    (is_alive a q (remove_member h p mb) \<longleftrightarrow> (a, q) \<noteq> (h, p) \<and> is_alive a q mb)"
proof (cases "(a, q) = (h, p)")
  case True
  from assms(2) obtain m where "m \<in> set (mb_members mb)" "is_at h p m" by (auto simp: list_ex_iff)
  from alive_after [OF assms(1) this] True show ?thesis by simp
next
  case False
  have d: "distinct (map me_host (mb_members mb))" using assms(1) by (simp add: mb_inv_def)
  have other: "is_at a q m \<Longrightarrow> \<not> is_at h p m" for m using False by (auto simp: is_at_def)
  have upd: "is_alive a q (mb\<lparr>mb_members := update_first (is_at h p) f (mb_members mb)\<rparr>) \<longleftrightarrow> is_alive a q mb"
    if f: "\<And>e. me_host (f e) = me_host e" for f
  proof -
    have "is_at a q (if is_at h p e then f e else e) \<and> me_state (if is_at h p e then f e else e) = Alive \<longleftrightarrow>
        is_at a q e \<and> me_state e = Alive" for e
      using other [of e] f [of e] by (auto simp: is_at_def)
    moreover have "list_ex Q (map g es) \<longleftrightarrow> list_ex (\<lambda>e. Q (g e)) es"
      for Q :: "member_entry \<Rightarrow> bool" and g and es :: "member_entry list"
      by (induction es) simp_all
    moreover have "mb_members (mb\<lparr>mb_members := es\<rparr>) = es" for es by simp
    ultimately show ?thesis
      by (simp only: is_alive_def update_first_unique [OF d f])
  qed
  have "is_alive a q (remove_member h p mb) \<longleftrightarrow> is_alive a q mb"
    using other by (auto simp: is_alive_def remove_member_def list_ex_iff)
  with False show ?thesis by (auto simp: mark_alive_def mark_suspect_def mark_dead_def upd)
qed

text \<open>
  C24. After a health check a key goes to a fresh member only: the candidates are exactly the
  alive members heard from within the timeout, in their order, and the key's hash picks one;
  with no such member there is no node for the key.
\<close>

theorem routing_after_health_check:
  "mb_resolve_node (check_health now timeout mb) key =
     (let fresh = map me_host (filter
            (\<lambda>m. me_state m = Alive \<and> now - me_last_heartbeat m \<le> timeout) (mb_members mb))
      in if fresh = [] then None
         else Some (fresh ! (unat (gen_hash_str key) mod length fresh)))"
  by (simp add: mb_resolve_node_def check_health_alive route_index_def Let_def del: map_is_Nil_conv)

end
