(* ===== verification/Replication.thy ===== *)
theory Replication
  imports Membership Tcp_Proxy
begin

text \<open>
  Section B of \<open>zht-server/src/lib.rs\<close>: \<open>ReplicationManager\<close>. The membership and the proxy it
  shares with the rest of the server are arguments; the network during the sends is \<open>envs\<close>, one
  per send. Failures to send are only logged.
\<close>

record replication =
  rp_num_replicas :: nat
  rp_replication_type :: nat

definition ReplicationManager_new :: "nat \<Rightarrow> nat \<Rightarrow> replication" where
  "ReplicationManager_new n t = \<lparr>rp_num_replicas = n, rp_replication_type = t\<rparr>"

definition is_replication_enabled :: "replication \<Rightarrow> bool" where
  "is_replication_enabled rp \<longleftrightarrow> 0 < rp_replication_type rp \<and> 0 < rp_num_replicas rp"

definition get_replica_nodes :: "replication \<Rightarrow> membership \<Rightarrow> string \<Rightarrow> host_entity list" where
  "get_replica_nodes rp mb key =
     (let alive = active_members mb in
      if alive = [] \<or> rp_num_replicas rp = 0 then []
      else
        let primary_index = route_index key (length alive); n = rp_num_replicas rp
        in map (\<lambda>offset. alive ! ((primary_index + offset) mod length alive)) [1..<Suc n])"

definition write_request :: "string \<Rightarrow> string \<Rightarrow> u8 list \<Rightarrow> zpack" where
  "write_request opcode key val =
     ZPack_default\<lparr>zp_opcode := as_bytes opcode, zp_key := as_bytes key, zp_val := val\<rparr>"

text \<open>The loop over the replicas.\<close>

fun send_to_all ::
  "encoder \<Rightarrow> (nat \<Rightarrow> tcp_env) \<Rightarrow> nat \<Rightarrow> zpack \<Rightarrow> host_entity list \<Rightarrow> tcp_proxy \<Rightarrow> tcp_proxy"
where
  "send_to_all enc envs i request [] px = px"
| "send_to_all enc envs i request (h # hs) px =
     send_to_all enc envs (Suc i) request hs
       (snd (tcp_send_only enc (envs i) (he_host h) (he_port h) request px))"

definition replicate_insert ::
  "encoder \<Rightarrow> (nat \<Rightarrow> tcp_env) \<Rightarrow> replication \<Rightarrow> membership \<Rightarrow> string \<Rightarrow> u8 list \<Rightarrow> tcp_proxy \<Rightarrow> tcp_proxy"
where
  "replicate_insert enc envs rp mb key value px =
     (if \<not> is_replication_enabled rp then px
      else send_to_all enc envs 0 (write_request OPC_INSERT key value) (get_replica_nodes rp mb key) px)"

definition replicate_remove ::
  "encoder \<Rightarrow> (nat \<Rightarrow> tcp_env) \<Rightarrow> replication \<Rightarrow> membership \<Rightarrow> string \<Rightarrow> tcp_proxy \<Rightarrow> tcp_proxy"
where
  "replicate_remove enc envs rp mb key px =
     (if \<not> is_replication_enabled rp then px
      else send_to_all enc envs 0 (write_request OPC_REMOVE key []) (get_replica_nodes rp mb key) px)"

definition replicate_append ::
  "encoder \<Rightarrow> (nat \<Rightarrow> tcp_env) \<Rightarrow> replication \<Rightarrow> membership \<Rightarrow> string \<Rightarrow> u8 list \<Rightarrow> tcp_proxy \<Rightarrow> tcp_proxy"
where
  "replicate_append enc envs rp mb key value px =
     (if \<not> is_replication_enabled rp then px
      else send_to_all enc envs 0 (write_request OPC_APPEND key value) (get_replica_nodes rp mb key) px)"

section \<open>Which nodes\<close>

lemma replicas_active: "h \<in> set (get_replica_nodes rp mb key) \<Longrightarrow> h \<in> set (active_members mb)"
proof -
  assume h: "h \<in> set (get_replica_nodes rp mb key)"
  then have "0 < length (active_members mb)" by (auto simp: get_replica_nodes_def Let_def split: if_splits)
  with h show ?thesis by (auto simp: get_replica_nodes_def Let_def split: if_splits)
qed

lemma length_replicas:
  "active_members mb \<noteq> [] \<Longrightarrow> length (get_replica_nodes rp mb key) = rp_num_replicas rp"
  by (simp add: get_replica_nodes_def Let_def)

lemma offset_inj:
  fixes n :: nat
  assumes "a < n" "b < n" "(p + a) mod n = (p + b) mod n"
  shows "a = b"
  using assms
proof (induction a b rule: linorder_wlog)
  case (le a b)
  then have "n dvd (p + b) - (p + a)"
    by (metis mod_eq_dvd_iff_nat nat_add_left_cancel_le)
  with le show ?case by (auto dest: dvd_imp_le)
qed simp

lemma active_distinct: "mb_inv mb \<Longrightarrow> distinct (active_members mb)"
  by (auto simp: mb_inv_def active_members_def intro: distinct_map_filter)

text \<open>The members that follow the primary, one after the other, are distinct for one turn of the list.\<close>

lemma following_distinct:
  assumes "distinct xs" "n \<le> length xs"
  shows "distinct (map (\<lambda>offset. xs ! ((p + offset) mod length xs)) [1..<Suc n])"
proof (cases "xs = []")
  case False
  have "a = b" if "a \<in> {1..<Suc n}" "b \<in> {1..<Suc n}"
      "xs ! ((p + a) mod length xs) = xs ! ((p + b) mod length xs)" for a b
  proof -
    have "(p + a) mod length xs = (p + b) mod length xs"
      using that(3) assms(1) False by (simp add: nth_eq_iff_index_eq)
    moreover have "p + a = Suc p + (a - 1)" "p + b = Suc p + (b - 1)" using that(1,2) by simp_all
    moreover have "a - 1 < length xs" "b - 1 < length xs" using that(1,2) assms(2) by auto
    ultimately have "a - 1 = b - 1" by (metis offset_inj)
    moreover have "0 < a" "0 < b" using that(1,2) by simp_all
    ultimately show "a = b" by linarith
  qed
  then show ?thesis unfolding distinct_map by (auto simp: inj_on_def simp del: upt_Suc)
qed (use assms(2) in simp)

text \<open>Which they are: fewer than the members, without the primary; as many or more, all of them.\<close>

lemma replicas_distinct_iff:
  assumes "mb_inv mb" "active_members mb \<noteq> []"
  shows "distinct (get_replica_nodes rp mb key) \<longleftrightarrow> rp_num_replicas rp \<le> member_count mb"
proof
  assume "distinct (get_replica_nodes rp mb key)"
  then have "rp_num_replicas rp = card (set (get_replica_nodes rp mb key))"
    using length_replicas [OF assms(2), of rp key] by (simp add: distinct_card)
  also have "\<dots> \<le> card (set (active_members mb))"
    using replicas_active by (intro card_mono) auto
  also have "\<dots> \<le> member_count mb" by (simp add: member_count_active card_length)
  finally show "rp_num_replicas rp \<le> member_count mb" .
next
  assume "rp_num_replicas rp \<le> member_count mb"
  then show "distinct (get_replica_nodes rp mb key)"
    using following_distinct [OF active_distinct [OF assms(1)]]
    by (simp add: get_replica_nodes_def Let_def member_count_active del: upt_Suc)
qed

lemma replicas_all:
  assumes "mb_inv mb" "active_members mb \<noteq> []" "member_count mb \<le> rp_num_replicas rp"
  shows "set (get_replica_nodes rp mb key) = set (active_members mb)"
proof (rule card_subset_eq)
  let ?alive = "active_members mb"
  let ?f = "\<lambda>offset. ?alive ! ((route_index key (length ?alive) + offset) mod length ?alive)"
  have d: "distinct ?alive" using assms(1) by (rule active_distinct)
  have "0 < length ?alive" using assms(2) by simp
  then have "0 < rp_num_replicas rp" using assms(3) by (simp only: member_count_active)
  then have "set (map ?f [1..<Suc (length ?alive)]) \<subseteq> set (get_replica_nodes rp mb key)"
    using assms(2,3) by (auto simp: get_replica_nodes_def Let_def member_count_active simp del: upt_Suc)
  then have "card (set (map ?f [1..<Suc (length ?alive)])) \<le> card (set (get_replica_nodes rp mb key))"
    by (intro card_mono) auto
  then have "length ?alive \<le> card (set (get_replica_nodes rp mb key))"
    unfolding distinct_card [OF following_distinct [OF d order_refl]] by (simp del: upt_Suc)
  moreover have "card (set (get_replica_nodes rp mb key)) \<le> card (set ?alive)"
    using replicas_active by (intro card_mono) auto
  ultimately show "card (set (get_replica_nodes rp mb key)) = card (set ?alive)"
    using distinct_card [OF d] by simp
qed (use replicas_active in auto)

lemma replicas_without_primary:
  assumes "mb_inv mb" "rp_num_replicas rp < member_count mb" "mb_resolve_node mb key = Some h"
  shows "h \<notin> set (get_replica_nodes rp mb key)"
proof
  let ?alive = "active_members mb" and ?p = "route_index key (length (active_members mb))"
  assume "h \<in> set (get_replica_nodes rp mb key)"
  then obtain k where k: "1 \<le> k" "k \<le> rp_num_replicas rp" "h = ?alive ! ((?p + k) mod length ?alive)"
    by (auto simp: get_replica_nodes_def Let_def less_Suc_eq_le simp del: upt_Suc split: if_splits)
  have "k < length ?alive" using assms(2) k(2) by (simp add: member_count_active)
  moreover from this have "0 < length ?alive" by linarith
  ultimately have pos: "0 < length ?alive" "k < length ?alive" by simp_all
  have "h = ?alive ! ((?p + 0) mod length ?alive)"
    using assms(3) route_index_less [OF pos(1), of key]
    by (auto simp: mb_resolve_node_def Let_def split: if_splits)
  with k(3) have "(?p + k) mod length ?alive = (?p + 0) mod length ?alive"
    using active_distinct [OF assms(1)] pos(1) by (simp add: nth_eq_iff_index_eq)
  from offset_inj [OF pos(2,1) this] k(1) show False by simp
qed

section \<open>What is sent\<close>

text \<open>A network on which connecting and writing always work.\<close>

definition all_through :: "tcp_env \<Rightarrow> bool" where
  "all_through env \<longleftrightarrow>
     (\<forall>i. te_send env i = Wio_Ok \<and>
       (case te_connect env i of Inl _ \<Rightarrow> False | Inr s \<Rightarrow> rs_bytes s = []))"

lemma send_only_through:
  assumes "all_through env"
  shows "\<exists>px'. tcp_send_only enc env host port z px = (Inr (), px') \<and>
     tp_wire px' = tp_wire px @ [(gen_base host port, encode_message enc z)]"
proof -
  let ?env = "env\<lparr>te_cut := None\<rparr>" and ?addr = "gen_base host port"
  have "gets_through ?env ?addr 0 px" "te_cut ?env = None"
    using assms by (auto simp: all_through_def gets_through_def)
  then obtain entry px1 where "send_only_attempt enc ?env host port z 0 px =
      (Done (Inr ()), put_entry ?addr entry (wrote ?addr (encode_message enc z) px1))"
    "tp_wire px1 = tp_wire px"
    using send_stage_through [where cont = "\<lambda>entry px'. (Done (Inr ()), px')" and enc = enc and z = z]
    unfolding send_only_attempt_def by metis
  then show ?thesis by (simp add: tcp_send_only_def retry_loop_twice)
qed

lemma sent_to_all:
  assumes "\<And>j. all_through (envs j)"
  shows "tp_wire (send_to_all enc envs i req hs px)
     = tp_wire px @ map (\<lambda>h. (address h, encode_message enc req)) hs"
proof (induction hs arbitrary: i px)
  case (Cons h hs)
  obtain px' where "tcp_send_only enc (envs i) (he_host h) (he_port h) req px = (Inr (), px')"
    "tp_wire px' = tp_wire px @ [(gen_base (he_host h) (he_port h), encode_message enc req)]"
    using send_only_through [OF assms] by metis
  with Cons.IH show ?case by (simp add: gen_base_address)
qed simp

text \<open>Whatever the network does, only replicas are written to, at most twice each.\<close>

lemma send_to_all_writes:
  "\<exists>ws. tp_wire (send_to_all enc envs i req hs px) = tp_wire px @ ws \<and>
     fst ` set ws \<subseteq> address ` set hs \<and> length ws \<le> 2 * length hs"
proof (induction hs arbitrary: i px)
  case (Cons h hs)
  let ?px1 = "snd (tcp_send_only enc (envs i) (he_host h) (he_port h) req px)"
  obtain ws1 where 1: "length ws1 \<le> 2" "\<forall>w \<in> set ws1. fst w = gen_base (he_host h) (he_port h)"
    "tp_wire ?px1 = tp_wire px @ ws1"
    using retry_loop_writes(1) [of "gen_base (he_host h) (he_port h)"
        "send_only_attempt enc ((envs i)\<lparr>te_cut := None\<rparr>) (he_host h) (he_port h) req" px,
        OF attempt_contained(2)]
    unfolding tcp_send_only_def by blast
  from Cons.IH [of "Suc i" ?px1] obtain ws2 where
    "tp_wire (send_to_all enc envs (Suc i) req hs ?px1) = tp_wire ?px1 @ ws2"
    "fst ` set ws2 \<subseteq> address ` set hs" "length ws2 \<le> 2 * length hs" by blast
  then have "tp_wire (send_to_all enc envs i req (h # hs) px) = tp_wire px @ (ws1 @ ws2)"
    "fst ` set (ws1 @ ws2) \<subseteq> address ` set (h # hs)" "length (ws1 @ ws2) \<le> 2 * length (h # hs)"
    using 1 by (auto simp: address_def gen_base_def simp del: address_inject)
  then show ?case by blast
qed simp

section \<open>Properties\<close>

text \<open>
  C25. Where the replicas of a key are: alive members, as many as the setting says. Below the
  number of alive members they are distinct, and the key's primary, the member that the list
  names for it, is not among them. From that number on the list has wrapped round: the
  replicas are all the alive members, the primary among them; and above that number, and only
  then, some member is there more than once.
\<close>

theorem replica_placement:
  assumes "mb_inv mb" "mb_resolve_node mb key = Some primary"
  shows "length (get_replica_nodes rp mb key) = rp_num_replicas rp \<and>
    (if rp_num_replicas rp < member_count mb
     then set (get_replica_nodes rp mb key) \<subseteq> set (active_members mb) - {primary}
     else set (get_replica_nodes rp mb key) = set (active_members mb)) \<and>
    primary \<in> set (active_members mb) \<and>
    (distinct (get_replica_nodes rp mb key) \<longleftrightarrow> rp_num_replicas rp \<le> member_count mb)"
proof -
  have ne: "active_members mb \<noteq> []" and "primary \<in> set (active_members mb)"
    using assms(2) by (auto simp: mb_resolve_node_def Let_def route_index_less split: if_splits)
  with replicas_active [of _ rp mb key] replicas_all [OF assms(1) ne, of rp key]
    replicas_distinct_iff [OF assms(1) ne, of rp key] length_replicas [OF ne, of rp key]
    replicas_without_primary [OF assms(1) _ assms(2), of rp] show ?thesis by auto
qed

theorem replica_placement_witness:
  fixes mb :: membership and rp :: "nat \<Rightarrow> replication"
  defines "mb \<equiv> MembershipManager_new 0 \<lparr>he_host = ''s'', he_port = 9\<rparr>
      (map (\<lambda>h. \<lparr>he_host = h, he_port = 1\<rparr>) [''a'', ''b'', ''c''])"
    and "rp \<equiv> \<lambda>n. ReplicationManager_new n 1"
  shows "\<exists>primary. mb_resolve_node mb ''key'' = Some primary \<and>
    primary \<notin> set (get_replica_nodes (rp 2) mb ''key'') \<and> distinct (get_replica_nodes (rp 2) mb ''key'') \<and>
    primary \<in> set (get_replica_nodes (rp 4) mb ''key'') \<and> \<not> distinct (get_replica_nodes (rp 4) mb ''key'')"
proof -
  have "mb_inv mb" unfolding mb_def by (rule new_inv) simp
  moreover obtain primary where "mb_resolve_node mb ''key'' = Some primary"
    by (simp add: mb_def MembershipManager_new_def new_entry_def mb_resolve_node_def active_members_def Let_def)
  moreover have "member_count mb = 3"
    by (simp add: member_count_active mb_def MembershipManager_new_def new_entry_def active_members_def)
  ultimately show ?thesis
    using replica_placement [of mb "''key''" primary "rp 2"] replica_placement [of mb "''key''" primary "rp 4"]
    by (auto simp: rp_def ReplicationManager_new_def)
qed

end
