(* ===== verification/Migration.thy ===== *)
theory Migration
  imports Replication Novoht
begin

text \<open>
  Section C of \<open>zht-server/src/lib.rs\<close>: \<open>MigrationManager\<close>, which moves keys to the nodes that
  own them. The membership, the store and the proxy are the server's; the network during each
  request is \<open>envs\<close>, and \<open>ios\<close> is what the file system answers when a key is removed. The
  order in which a hash map is iterated is that of its list of entries.
\<close>

section \<open>State and ownership\<close>

record migration =
  mg_migration_enabled :: bool
  mg_migrating :: bool

definition MigrationManager_new :: "bool \<Rightarrow> migration" where
  "MigrationManager_new enabled = \<lparr>mg_migration_enabled = enabled, mg_migrating = False\<rparr>"

record migration_action =
  ma_target_host :: host_entity
  ma_keys :: "string list"

definition resolve_owner_against :: "string \<Rightarrow> host_entity list \<Rightarrow> host_entity option" where
  "resolve_owner_against key members =
     (if members = [] then None else Some (members ! route_index key (length members)))"

definition resolve_owner :: "string \<Rightarrow> host_entity list \<Rightarrow> host_entity option" where
  "resolve_owner key members = resolve_owner_against key members"

lemma resolve_owner [simp]: "resolve_owner key members = resolve_owner_against key members"
  by (simp add: resolve_owner_def)

definition get_keys_for_node :: "membership \<Rightarrow> novoht \<Rightarrow> string \<Rightarrow> u16 \<Rightarrow> string list" where
  "get_keys_for_node mb st h p =
     (let target = HostEntity_new h p; alive = active_members mb
      in filter (\<lambda>key. case resolve_owner key alive of None \<Rightarrow> False | Some t \<Rightarrow> t = target)
           (nv_keys st))"

text \<open>\<open>entry(addr).or_insert(..)\<close> and the push that follows.\<close>

definition add_to_group ::
  "string \<Rightarrow> host_entity \<Rightarrow> (string, migration_action) hashmap \<Rightarrow> (string, migration_action) hashmap"
where
  "add_to_group key target m =
     (let addr = address target;
          action = (case hm_get m addr of
            None \<Rightarrow> \<lparr>ma_target_host = target, ma_keys = []\<rparr> | Some a \<Rightarrow> a)
      in hm_insert addr (action\<lparr>ma_keys := ma_keys action @ [key]\<rparr>) m)"

definition plan_key ::
  "host_entity \<Rightarrow> host_entity list \<Rightarrow> host_entity list \<Rightarrow> (string, migration_action) hashmap \<Rightarrow> string
    \<Rightarrow> (string, migration_action) hashmap"
where
  "plan_key self_host old_members new_members plan key =
     (let old_owner = resolve_owner_against key old_members;
          new_owner = resolve_owner_against key new_members
      in if old_owner \<noteq> new_owner then
           (case new_owner of
              Some target \<Rightarrow> if target \<noteq> self_host then add_to_group key target plan else plan
            | None \<Rightarrow> plan)
         else plan)"

definition calculate_migration_plan ::
  "membership \<Rightarrow> novoht \<Rightarrow> host_entity list \<Rightarrow> host_entity list \<Rightarrow> migration_action list"
where
  "calculate_migration_plan mb st old_members new_members =
     (if old_members = [] \<or> new_members = [] then []
      else map snd (foldl (plan_key (mb_self_node mb) old_members new_members) [] (nv_keys st)))"

text \<open>The values stored, and what the file system answers to each.\<close>

fun receive_migrated_keys :: "(io \<times> string \<times> string) list \<Rightarrow> novoht \<Rightarrow> novoht" where
  "receive_migrated_keys [] st = st"
| "receive_migrated_keys ((io, key, value) # kvs) st =
     receive_migrated_keys kvs (snd (nv_put io key value st))"

section \<open>Moving keys\<close>

definition MIGRATION_TIMEOUT_MS :: nat where "MIGRATION_TIMEOUT_MS = 5000"

text \<open>
  The loop of \<open>migrate_keys_for_node\<close> over the entries of the store: the keys asked for are
  sent, an answer is counted if its status is a success, and an error ends the loop.
\<close>

fun migrate_entries ::
  "encoder \<Rightarrow> decoder \<Rightarrow> (nat \<Rightarrow> tcp_env) \<Rightarrow> nat \<Rightarrow> host_entity \<Rightarrow> string list
    \<Rightarrow> (string \<times> string) list \<Rightarrow> nat \<Rightarrow> tcp_proxy \<Rightarrow> (string + nat) \<times> nat \<times> tcp_proxy"
where
  "migrate_entries enc dec envs i target keys [] migrated px = (Inr migrated, i, px)"
| "migrate_entries enc dec envs i target keys ((key, value) # entries) migrated px =
     (if key \<notin> set keys then migrate_entries enc dec envs i target keys entries migrated px
      else
        let request = write_request OPC_INSERT key (as_bytes value);
            r = sendrecv_with_timeout enc dec (envs i) (he_host target) (he_port target) request
                  MIGRATION_TIMEOUT_MS px
        in case fst r of
             Inr resp \<Rightarrow>
               let status = from_utf8_lossy (zp_lease resp) in
               if starts_with status REC_SUCC
               then migrate_entries enc dec envs (Suc i) target keys entries (migrated + 1) (snd r)
               else migrate_entries enc dec envs (Suc i) target keys entries migrated (snd r)
           | Inl e \<Rightarrow>
               (Inl (''Failed to migrate key '' @ quoted key @ '': '' @ show_zht_error e), Suc i, snd r))"

definition migrate_keys_for_node ::
  "encoder \<Rightarrow> decoder \<Rightarrow> (nat \<Rightarrow> tcp_env) \<Rightarrow> nat \<Rightarrow> host_entity \<Rightarrow> string list \<Rightarrow> novoht \<Rightarrow> tcp_proxy
    \<Rightarrow> (string + nat) \<times> nat \<times> tcp_proxy"
where
  "migrate_keys_for_node enc dec envs i target keys st px =
     (if keys = [] then (Inr 0, i, px)
      else migrate_entries enc dec envs i target keys (nv_entries st) 0 px)"

fun remove_keys :: "(string \<Rightarrow> io) \<Rightarrow> string list \<Rightarrow> novoht \<Rightarrow> novoht" where
  "remove_keys ios [] st = st"
| "remove_keys ios (key # keys) st = remove_keys ios keys (snd (nv_remove (ios key) key st))"

text \<open>The loop over the targets: the keys of a target are removed once it answered for them all.\<close>

fun migrate_groups ::
  "encoder \<Rightarrow> decoder \<Rightarrow> (nat \<Rightarrow> tcp_env) \<Rightarrow> (string \<Rightarrow> io) \<Rightarrow> nat \<Rightarrow> (string \<times> migration_action) list
    \<Rightarrow> nat \<Rightarrow> novoht \<Rightarrow> tcp_proxy \<Rightarrow> nat \<times> novoht \<times> tcp_proxy"
where
  "migrate_groups enc dec envs ios i [] migrated st px = (migrated, st, px)"
| "migrate_groups enc dec envs ios i ((addr, action) # groups) migrated st px =
     (let r = migrate_keys_for_node enc dec envs i (ma_target_host action) (ma_keys action) st px;
          i1 = fst (snd r); px1 = snd (snd r)
      in case fst r of
           Inr count \<Rightarrow>
             migrate_groups enc dec envs ios i1 groups (migrated + count)
               (remove_keys ios (ma_keys action) st) px1
         | Inl e \<Rightarrow> migrate_groups enc dec envs ios i1 groups migrated st px1)"

text \<open>The keys this node does not own, with their owners.\<close>

definition misplaced_key ::
  "host_entity \<Rightarrow> host_entity list \<Rightarrow> (string, host_entity) hashmap \<Rightarrow> string \<Rightarrow> (string, host_entity) hashmap"
where
  "misplaced_key self_host alive m key =
     (case resolve_owner key alive of
        Some target \<Rightarrow> if target \<noteq> self_host then hm_insert key target m else m
      | None \<Rightarrow> m)"

definition keys_to_migrate :: "membership \<Rightarrow> novoht \<Rightarrow> (string, host_entity) hashmap" where
  "keys_to_migrate mb st =
     foldl (misplaced_key (mb_self_node mb) (active_members mb)) [] (nv_keys st)"

definition check_and_migrate ::
  "encoder \<Rightarrow> decoder \<Rightarrow> (nat \<Rightarrow> tcp_env) \<Rightarrow> (string \<Rightarrow> io) \<Rightarrow> migration \<Rightarrow> membership \<Rightarrow> novoht \<Rightarrow> tcp_proxy
    \<Rightarrow> nat \<times> migration \<times> novoht \<times> tcp_proxy"
where
  "check_and_migrate enc dec envs ios mg mb st px =
     (if \<not> mg_migration_enabled mg \<or> mg_migrating mg then (0, mg, st, px)
      else
        let moving = keys_to_migrate mb st in
        if moving = [] then (0, mg, st, px)
        else
          let by_target = foldl (\<lambda>m (key, target). add_to_group key target m) [] moving;
              r = migrate_groups enc dec envs ios 0 by_target 0 st px
          in (fst r, mg\<lparr>mg_migrating := False\<rparr>, fst (snd r), snd (snd r)))"

section \<open>Grouping by owner\<close>

text \<open>The group of an address: the keys owned there, in order, if there are any.\<close>

definition group_at :: "(string \<times> host_entity) list \<Rightarrow> string \<Rightarrow> migration_action option" where
  "group_at kts addr =
     (case filter (\<lambda>(k, t). address t = addr) kts of
        [] \<Rightarrow> None
      | (k, t) # rest \<Rightarrow> Some \<lparr>ma_target_host = t, ma_keys = k # map fst rest\<rparr>)"

lemma group_at_snoc:
  "group_at (kts @ [(k, t)]) =
     (group_at kts)(address t \<mapsto> (let a = (case group_at kts (address t) of
        None \<Rightarrow> \<lparr>ma_target_host = t, ma_keys = []\<rparr> | Some a \<Rightarrow> a) in a\<lparr>ma_keys := ma_keys a @ [k]\<rparr>))"
  by (rule ext) (auto simp: group_at_def Let_def split: list.split)

lemma grouped:
  "hm_wf (foldl (\<lambda>m (key, target). add_to_group key target m) [] kts) \<and>
   hm_get (foldl (\<lambda>m (key, target). add_to_group key target m) [] kts) = group_at kts"
proof (induction kts rule: rev_induct)
  case Nil
  show ?case by (auto simp: group_at_def)
next
  case (snoc kt kts)
  obtain k t where "kt = (k, t)" by (cases kt)
  with snoc group_at_snoc [of kts k t] show ?case by (simp add: add_to_group_def Let_def)
qed

lemma group_at_Some:
  "group_at kts addr = Some a \<Longrightarrow>
   address (ma_target_host a) = addr \<and> ma_keys a = map fst (filter (\<lambda>(k, t). t = ma_target_host a) kts)"
proof -
  assume g: "group_at kts addr = Some a"
  then obtain k t rest where f: "filter (\<lambda>(k, t). address t = addr) kts = (k, t) # rest"
    and a: "a = \<lparr>ma_target_host = t, ma_keys = k # map fst rest\<rparr>"
    by (auto simp: group_at_def split: list.splits)
  then have "(k, t) \<in> set (filter (\<lambda>(k, t). address t = addr) kts)" by simp
  then have t: "address t = addr" by simp
  then have "filter (\<lambda>(k, t'). t' = t) kts = filter (\<lambda>(k, t). address t = addr) kts"
    by (metis (no_types, lifting) address_inject)
  with f a t show ?thesis by simp
qed

lemma group_at_None: "group_at kts addr = None \<longleftrightarrow> (\<forall>(k, t) \<in> set kts. address t \<noteq> addr)"
proof -
  have "group_at kts addr = None \<longleftrightarrow> filter (\<lambda>(k, t). address t = addr) kts = []"
    by (auto simp: group_at_def split: list.split)
  then show ?thesis by (auto simp: filter_empty_conv)
qed

section \<open>The keys that move\<close>

definition owner_elsewhere :: "host_entity \<Rightarrow> host_entity list \<Rightarrow> string \<Rightarrow> host_entity option" where
  "owner_elsewhere self_host alive key =
     (case resolve_owner_against key alive of
        Some t \<Rightarrow> if t \<noteq> self_host then Some t else None
      | None \<Rightarrow> None)"

lemma misplaced_fold:
  "hm_wf m \<Longrightarrow> hm_wf (foldl (misplaced_key self alive) m keys) \<and>
   hm_get (foldl (misplaced_key self alive) m keys) =
     (\<lambda>k. if k \<in> set keys \<and> owner_elsewhere self alive k \<noteq> None then owner_elsewhere self alive k
          else hm_get m k)"
proof (induction keys arbitrary: m)
  case (Cons key keys)
  have w: "hm_wf (misplaced_key self alive m key)"
    using Cons.prems by (simp add: misplaced_key_def split: option.split)
  have g: "hm_get (misplaced_key self alive m key) =
     (\<lambda>k. if k = key \<and> owner_elsewhere self alive k \<noteq> None then owner_elsewhere self alive k else hm_get m k)"
    by (auto simp: misplaced_key_def owner_elsewhere_def fun_eq_iff split: option.splits)
  from Cons.IH [OF w] show ?case by (auto simp: g fun_eq_iff)
qed simp

lemma keys_to_migrate_get:
  "hm_wf (keys_to_migrate mb st)"
  "hm_get (keys_to_migrate mb st) k =
     (if hm_get (nv_map st) k \<noteq> None then owner_elsewhere (mb_self_node mb) (active_members mb) k
      else None)"
  using misplaced_fold [of "[]" "mb_self_node mb" "active_members mb" "nv_keys st"]
  by (auto simp: keys_to_migrate_def nv_keys_def)

section \<open>What moving does to the store\<close>

lemma remove_keys_get:
  "hm_get (nv_map (remove_keys ios keys st)) = (\<lambda>k. if k \<in> set keys then None else hm_get (nv_map st) k)"
proof (induction keys arbitrary: st)
  case (Cons key keys)
  have "hm_get (nv_map (snd (nv_remove (ios key) key st))) = (hm_get (nv_map st))(key := None)"
    by (auto simp: hm_contains_def)
  with Cons.IH show ?case by auto
qed simp

lemma remove_keys_wf: "hm_wf (nv_map st) \<Longrightarrow> hm_wf (nv_map (remove_keys ios keys st))"
  by (induction keys arbitrary: st) (simp_all add: nv_wf(2) del: nv_remove_map)

lemma timeout_writes:
  "\<exists>ws. tp_wire (snd (sendrecv_with_timeout enc dec env h p z ms px)) = tp_wire px @ ws"
  using retry_loop_writes(1) [of "gen_base h p" "sendrecv_attempt enc dec (env\<lparr>te_timeout_ms := ms\<rparr>) h p z" px,
      OF attempt_contained(1)]
  unfolding sendrecv_with_timeout_def by blast

lemma address_gen_base': "address t = gen_base (he_host t) (he_port t)"
  by (simp add: address_def gen_base_def)

text \<open>An answered request was written in full to its node.\<close>

lemma send_stage_done:
  assumes "fst (send_stage enc env h p z i cont px) = Done (Inr a)"
    and "\<And>entry px'. tp_wire (snd (cont entry px')) = tp_wire px'"
  shows "(gen_base h p, encode_message enc z) \<in> set (tp_wire (snd (send_stage enc env h p z i cont px)))"
  using assms
  by (auto simp: send_stage_def Let_def timed_out_def connection_failed_def send_message_def
      split: if_splits sum.splits option.splits cut.splits wio.splits)

lemma attempt_done:
  assumes "sendrecv_attempt enc dec env h p z i px = (Done (Inr resp), px')"
  shows "(gen_base h p, encode_message enc z) \<in> set (tp_wire px')"
  using send_stage_done [of enc env h p z i "recv_stage enc dec env i (gen_base h p)" px resp]
    assms unfolding sendrecv_attempt_def by (simp add: recv_stage_frame)

lemma answered_written:
  assumes "sendrecv_with_timeout enc dec env h p z ms px = (Inr resp, px')"
  shows "(gen_base h p, encode_message enc z) \<in> set (tp_wire px')"
  using assms unfolding sendrecv_with_timeout_def
  by (auto simp: retry_loop_twice split: prod.splits outcome.splits dest: attempt_done)

lemma migrate_entries_writes:
  "\<exists>ws. tp_wire (snd (snd (migrate_entries enc dec envs i target keys entries n px))) = tp_wire px @ ws"
proof (induction entries arbitrary: i n px)
  case (Cons e entries)
  obtain k v where e: "e = (k, v)" by (cases e)
  let ?r = "sendrecv_with_timeout enc dec (envs i) (he_host target) (he_port target)
      (write_request OPC_INSERT k (as_bytes v)) MIGRATION_TIMEOUT_MS px"
  obtain ws where w: "tp_wire (snd ?r) = tp_wire px @ ws" using timeout_writes by blast
  have "\<exists>ws'. tp_wire (snd (snd (migrate_entries enc dec envs j target keys entries m (snd ?r))))
      = tp_wire px @ ws'" for j m
    using Cons.IH [of j m "snd ?r"] w by (metis append_assoc)
  with Cons.IH w show ?case by (auto simp: e Let_def split: sum.split)
qed simp

text \<open>A group that is answered for: each of its stored keys was sent to the target.\<close>

lemma migrate_entries_sent:
  assumes "migrate_entries enc dec envs i target keys entries n px = (Inr m, j, px')"
    and "(k, v) \<in> set entries" "k \<in> set keys"
  shows "(address target, encode_message enc (write_request OPC_INSERT k (as_bytes v))) \<in> set (tp_wire px')"
  using assms(1,2)
proof (induction entries arbitrary: i n px)
  case (Cons e entries)
  obtain k' v' where e: "e = (k', v')" by (cases e)
  show ?case
  proof (cases "k' \<in> set keys")
    case False
    with Cons.prems assms(3) e have "(k, v) \<in> set entries" by auto
    with Cons False e show ?thesis by simp
  next
    case True
    let ?r = "sendrecv_with_timeout enc dec (envs i) (he_host target) (he_port target)
        (write_request OPC_INSERT k' (as_bytes v')) MIGRATION_TIMEOUT_MS px"
    from Cons.prems(1) True e obtain resp n' where resp: "fst ?r = Inr resp"
      and rest: "migrate_entries enc dec envs (Suc i) target keys entries n' (snd ?r) = (Inr m, j, px')"
      by (auto simp: Let_def split: sum.splits if_splits)
    show ?thesis
    proof (cases "(k, v) \<in> set entries")
      case True
      from Cons.IH [OF rest this] show ?thesis .
    next
      case False
      with Cons.prems(2) e have "k' = k" "v' = v" by auto
      moreover have "sendrecv_with_timeout enc dec (envs i) (he_host target) (he_port target)
          (write_request OPC_INSERT k' (as_bytes v')) MIGRATION_TIMEOUT_MS px = (Inr resp, snd ?r)"
        using resp by (metis prod.collapse)
      from answered_written [OF this] have
        "(address target, encode_message enc (write_request OPC_INSERT k' (as_bytes v'))) \<in> set (tp_wire (snd ?r))"
        by (simp only: address_gen_base')
      moreover obtain ws where "tp_wire px' = tp_wire (snd ?r) @ ws"
        using migrate_entries_writes [of enc dec envs "Suc i" target keys entries n' "snd ?r"] rest by auto
      ultimately show ?thesis by simp
    qed
  qed
qed simp

section \<open>No key is dropped unsent\<close>

lemma migrate_keys_sent:
  assumes "migrate_keys_for_node enc dec envs i target keys st px = (Inr m, j, px')"
    and "hm_wf (nv_map st)" "hm_get (nv_map st) k = Some v" "k \<in> set keys"
  shows "(address target, encode_message enc (write_request OPC_INSERT k (as_bytes v))) \<in> set (tp_wire px')"
proof -
  have "(k, v) \<in> set (nv_entries st)"
    using assms(2,3) by (simp add: nv_entries_def hm_entry_iff)
  from migrate_entries_sent [OF _ this assms(4)] assms(1,4) show ?thesis
    by (auto simp: migrate_keys_for_node_def split: if_splits)
qed

lemma migrate_keys_writes:
  "\<exists>ws. tp_wire (snd (snd (migrate_keys_for_node enc dec envs i target keys st px))) = tp_wire px @ ws"
  by (simp add: migrate_keys_for_node_def migrate_entries_writes)

lemma migrate_groups_writes:
  "\<exists>ws. tp_wire (snd (snd (migrate_groups enc dec envs ios i groups n st px))) = tp_wire px @ ws"
proof (induction groups arbitrary: i n st px)
  case (Cons g groups)
  obtain addr a where g: "g = (addr, a)" by (cases g)
  let ?r = "migrate_keys_for_node enc dec envs i (ma_target_host a) (ma_keys a) st px"
  obtain ws where w: "tp_wire (snd (snd ?r)) = tp_wire px @ ws" using migrate_keys_writes by blast
  have "\<exists>ws'. tp_wire (snd (snd (migrate_groups enc dec envs ios j groups m st' (snd (snd ?r)))))
      = tp_wire px @ ws'" for j m st'
    using Cons.IH [of j m st' "snd (snd ?r)"] w by (metis append_assoc)
  then show ?case by (auto simp: g Let_def split: sum.split)
qed simp

text \<open>
  Every key is still there with its value, or it is gone and was sent, with its value, to the
  target of its group.
\<close>

definition kept_or_sent ::
  "encoder \<Rightarrow> (string \<times> migration_action) list \<Rightarrow> novoht \<Rightarrow> novoht \<Rightarrow> tcp_proxy \<Rightarrow> bool"
where
  "kept_or_sent enc groups st st' px' \<longleftrightarrow>
     (\<forall>k. hm_get (nv_map st') k = hm_get (nv_map st) k \<or>
       hm_get (nv_map st') k = None \<and>
       (\<forall>v. hm_get (nv_map st) k = Some v \<longrightarrow>
         (\<exists>a \<in> snd ` set groups. k \<in> set (ma_keys a) \<and>
           (address (ma_target_host a), encode_message enc (write_request OPC_INSERT k (as_bytes v)))
             \<in> set (tp_wire px'))))"

lemma kept_or_sent_more:
  "kept_or_sent enc groups st st' px' \<Longrightarrow> kept_or_sent enc (g # groups) st st' px'"
  unfolding kept_or_sent_def list.set image_insert by blast

lemma migrate_groups_safe:
  "hm_wf (nv_map st) \<Longrightarrow>
   kept_or_sent enc groups st (fst (snd (migrate_groups enc dec envs ios i groups n st px)))
     (snd (snd (migrate_groups enc dec envs ios i groups n st px)))"
proof (induction groups arbitrary: i n st px)
  case Nil
  show ?case by (simp add: kept_or_sent_def)
next
  case (Cons g groups)
  obtain addr a where g: "g = (addr, a)" by (cases g)
  let ?r = "migrate_keys_for_node enc dec envs i (ma_target_host a) (ma_keys a) st px"
  let ?px1 = "snd (snd ?r)" and ?i1 = "fst (snd ?r)"
  show ?case
  proof (cases "fst ?r")
    case (Inl e)
    with kept_or_sent_more [OF Cons.IH [OF Cons.prems, of ?i1 n ?px1], of g] show ?thesis
      by (simp add: g Let_def)
  next
    case (Inr c)
    let ?st1 = "remove_keys ios (ma_keys a) st"
    let ?rest = "migrate_groups enc dec envs ios ?i1 groups (n + c) ?st1 ?px1"
    have IH: "kept_or_sent enc groups ?st1 (fst (snd ?rest)) (snd (snd ?rest))"
      by (rule Cons.IH) (rule remove_keys_wf [OF Cons.prems])
    obtain ws where ws: "tp_wire (snd (snd ?rest)) = tp_wire ?px1 @ ws"
      using migrate_groups_writes by blast
    have r: "?r = (Inr c, ?i1, ?px1)" using Inr by (metis prod.collapse)
    have sent: "(address (ma_target_host a), encode_message enc (write_request OPC_INSERT k (as_bytes v)))
        \<in> set (tp_wire (snd (snd ?rest)))"
      if "hm_get (nv_map st) k = Some v" "k \<in> set (ma_keys a)" for k v
      using migrate_keys_sent [OF r Cons.prems that] ws by simp
    have "kept_or_sent enc (g # groups) st (fst (snd ?rest)) (snd (snd ?rest))"
      unfolding kept_or_sent_def
    proof
      fix k
      show "hm_get (nv_map (fst (snd ?rest))) k = hm_get (nv_map st) k \<or>
        hm_get (nv_map (fst (snd ?rest))) k = None \<and>
        (\<forall>v. hm_get (nv_map st) k = Some v \<longrightarrow>
          (\<exists>a \<in> snd ` set (g # groups). k \<in> set (ma_keys a) \<and>
            (address (ma_target_host a), encode_message enc (write_request OPC_INSERT k (as_bytes v)))
              \<in> set (tp_wire (snd (snd ?rest)))))"
      proof (cases "k \<in> set (ma_keys a)")
        case True
        then have "hm_get (nv_map ?st1) k = None" by (simp add: remove_keys_get)
        then have "hm_get (nv_map (fst (snd ?rest))) k = None"
          using IH unfolding kept_or_sent_def by metis
        with sent [OF _ True] True show ?thesis by (auto simp: g)
      next
        case False
        then have "hm_get (nv_map ?st1) k = hm_get (nv_map st) k" by (simp add: remove_keys_get)
        with kept_or_sent_more [OF IH, of g] show ?thesis unfolding kept_or_sent_def by metis
      qed
    qed
    with Inr show ?thesis by (simp add: g Let_def)
  qed
qed

text \<open>The groups of \<open>check_and_migrate\<close>: each key with its owner, who is another node.\<close>

lemma groups_owner:
  assumes "(addr, a) \<in> set (foldl (\<lambda>m (key, target). add_to_group key target m) [] (keys_to_migrate mb st))"
    and "k \<in> set (ma_keys a)"
  shows "owner_elsewhere (mb_self_node mb) (active_members mb) k = Some (ma_target_host a)"
proof -
  let ?kts = "keys_to_migrate mb st"
  have "hm_wf (foldl (\<lambda>m (key, target). add_to_group key target m) [] ?kts)"
    using grouped [of ?kts] by (rule conjunct1)
  then have "hm_get (foldl (\<lambda>m (key, target). add_to_group key target m) [] ?kts) addr = Some a"
    using assms(1) by (simp add: hm_entry_iff)
  then have "group_at ?kts addr = Some a" using grouped [of ?kts] by simp
  from group_at_Some [OF this] assms(2) have "(k, ma_target_host a) \<in> set ?kts" by auto
  then have "hm_get ?kts k = Some (ma_target_host a)"
    using keys_to_migrate_get(1) [of mb st] by (simp add: hm_entry_iff)
  then show ?thesis by (simp add: keys_to_migrate_get split: if_splits)
qed

lemma check_and_migrate_cases:
  fixes enc dec envs ios mb st px
  defines "r \<equiv> migrate_groups enc dec envs ios 0
     (foldl (\<lambda>m (key, target). add_to_group key target m) [] (keys_to_migrate mb st)) 0 st px"
  shows "check_and_migrate enc dec envs ios mg mb st px = (0, mg, st, px) \<or>
     check_and_migrate enc dec envs ios mg mb st px
       = (fst r, mg\<lparr>mg_migrating := False\<rparr>, fst (snd r), snd (snd r))"
  unfolding check_and_migrate_def Let_def r_def [symmetric]
  by (cases "\<not> mg_migration_enabled mg \<or> mg_migrating mg"; cases "keys_to_migrate mb st = []")
    (simp_all only: if_True if_False simp_thms)

lemma migration_safe:
  assumes "hm_wf (nv_map st)"
    and "check_and_migrate enc dec envs ios mg mb st px = (n, mg', st', px')"
  shows "hm_get (nv_map st') k = hm_get (nv_map st) k \<or>
     (\<exists>v owner. hm_get (nv_map st) k = Some v \<and> hm_get (nv_map st') k = None \<and>
       owner_elsewhere (mb_self_node mb) (active_members mb) k = Some owner \<and>
       (address owner, encode_message enc (write_request OPC_INSERT k (as_bytes v))) \<in> set (tp_wire px'))"
proof -
  let ?groups = "foldl (\<lambda>m (key, target). add_to_group key target m) [] (keys_to_migrate mb st)"
  let ?r = "migrate_groups enc dec envs ios 0 ?groups 0 st px"
  consider "st' = st" | "st' = fst (snd ?r)" "px' = snd (snd ?r)"
    using check_and_migrate_cases [of enc dec envs ios mg mb st px] unfolding assms(2) by blast
  then show ?thesis
  proof cases
    case 2
    have "kept_or_sent enc ?groups st st' px'"
      unfolding 2 by (rule migrate_groups_safe [OF assms(1)])
    then have k: "hm_get (nv_map st') k = hm_get (nv_map st) k \<or>
      hm_get (nv_map st') k = None \<and>
      (\<forall>v. hm_get (nv_map st) k = Some v \<longrightarrow>
        (\<exists>a \<in> snd ` set ?groups. k \<in> set (ma_keys a) \<and>
          (address (ma_target_host a), encode_message enc (write_request OPC_INSERT k (as_bytes v)))
            \<in> set (tp_wire px')))"
      unfolding kept_or_sent_def by blast
    show ?thesis
    proof (cases "hm_get (nv_map st') k = hm_get (nv_map st) k")
      case False
      with k obtain v where v: "hm_get (nv_map st) k = Some v" "hm_get (nv_map st') k = None" by fastforce
      with k False obtain addr a where a: "(addr, a) \<in> set ?groups" "k \<in> set (ma_keys a)"
        "(address (ma_target_host a), encode_message enc (write_request OPC_INSERT k (as_bytes v)))
            \<in> set (tp_wire px')"
        by auto
      from groups_owner [OF a(1,2)] a(3) v show ?thesis by blast
    qed simp
  qed simp
qed

section \<open>Properties\<close>

text \<open>
  C10. No key leaves the store unsent: whatever the network and the file system do, after
  \<open>check_and_migrate\<close> each key has the value it had, or it is gone, was owned by another member,
  and its value was written in an insert request to that member's address.
\<close>

theorem no_key_dropped_unsent:
  assumes "hm_wf (nv_map st)"
    and "check_and_migrate enc dec envs ios mg mb st px = (n, mg', st', px')"
  shows "hm_get (nv_map st') k = hm_get (nv_map st) k \<or>
     (\<exists>v owner. hm_get (nv_map st) k = Some v \<and> hm_get (nv_map st') k = None \<and>
       owner_elsewhere (mb_self_node mb) (active_members mb) k = Some owner \<and>
       (address owner, encode_message enc (write_request OPC_INSERT k (as_bytes v))) \<in> set (tp_wire px'))"
  using assms by (rule migration_safe)

theorem no_key_dropped_unsent_witness:
  fixes st st' :: novoht and r :: "nat \<times> migration \<times> novoht \<times> tcp_proxy" and mb :: membership
  defines "mb \<equiv> MembershipManager_new 0 \<lparr>he_host = ''s'', he_port = 9\<rparr> [\<lparr>he_host = ''a'', he_port = 1\<rparr>]"
    and "st \<equiv> NoVoHT_new\<lparr>nv_map := [(''k'', ''v'')]\<rparr>"
    and "r \<equiv> check_and_migrate sample_enc sample_dec (\<lambda>_. sample_net []) (\<lambda>_. Io_Ok)
      (MigrationManager_new True) mb (NoVoHT_new\<lparr>nv_map := [(''k'', ''v'')]\<rparr>) TcpProxy_new"
    and "st' \<equiv> fst (snd (snd r))"
  shows "hm_get (nv_map st') ''k'' = hm_get (nv_map st) ''k'' \<or>
     (\<exists>v owner. hm_get (nv_map st) ''k'' = Some v \<and> hm_get (nv_map st') ''k'' = None \<and>
       owner_elsewhere (mb_self_node mb) (active_members mb) ''k'' = Some owner \<and>
       (address owner, encode_message sample_enc (write_request OPC_INSERT ''k'' (as_bytes v)))
         \<in> set (tp_wire (snd (snd (snd r)))))"
proof -
  have "hm_wf (nv_map st)" by (simp add: st_def hm_wf_def)
  moreover have "check_and_migrate sample_enc sample_dec (\<lambda>_. sample_net []) (\<lambda>_. Io_Ok)
      (MigrationManager_new True) mb st TcpProxy_new = (fst r, fst (snd r), st', snd (snd (snd r)))"
    by (simp add: r_def st_def st'_def)
  ultimately show ?thesis by (rule no_key_dropped_unsent)
qed

end
