(* ===== verification/Migration_Effect.thy ===== *)
theory Migration_Effect
  imports Migration
begin

text \<open>
  What a migration achieves when the network works: every key owned elsewhere leaves, whatever
  its new node answered; what a migration plan says; and the keys a node owns.
\<close>

section \<open>Every answer counts\<close>

text \<open>A network on which each request is answered, by the message \<open>resp\<close>.\<close>

definition answering :: "encoder \<Rightarrow> decoder \<Rightarrow> tcp_env \<Rightarrow> zpack \<Rightarrow> bool" where
  "answering enc dec env resp \<longleftrightarrow>
     all_through env \<and> te_cut env = None \<and>
     rs_bytes (te_reply env 0) = encode_message enc resp \<and> clean_codec enc dec resp"

definition quiet :: "tcp_proxy \<Rightarrow> bool" where
  "quiet px \<longleftrightarrow> (\<forall>a. unread px a = [])"

lemma answering_exchange:
  assumes "answering enc dec env resp" "quiet px"
  shows "\<exists>px'. sendrecv_with_timeout enc dec env h p z ms px = (Inr resp, px') \<and> quiet px'"
proof -
  let ?env = "env\<lparr>te_timeout_ms := ms\<rparr>" and ?addr = "gen_base h p"
  have "gets_through ?env ?addr 0 px" "te_cut ?env = None"
    "unread px ?addr @ rs_bytes (te_reply ?env 0) = encode_message enc resp @ []"
    "clean_codec enc dec resp"
    using assms by (auto simp: answering_def all_through_def gets_through_def quiet_def)
  from attempt_answered [OF this, of z] obtain px' where
    a: "sendrecv_attempt enc dec ?env h p z 0 px = (Done (Inr resp), px')"
    and u: "unread px' ?addr = []"
      "\<forall>a. a \<noteq> ?addr \<longrightarrow> hm_get (tp_connections px') a = hm_get (tp_connections px) a"
    by blast
  have "unread px' a = []" for a
    using u assms(2) by (cases "a = ?addr") (simp_all add: unread_def quiet_def)
  then show ?thesis
    by (simp add: sendrecv_with_timeout_def retry_loop_twice a quiet_def)
qed

lemma migrate_entries_answered:
  assumes "\<And>j. \<exists>resp. answering enc dec (envs j) resp" "quiet px"
  shows "\<exists>m j px'. migrate_entries enc dec envs i target keys entries n px = (Inr m, j, px') \<and> quiet px'"
  using assms(2)
proof (induction entries arbitrary: i n px)
  case (Cons e entries)
  obtain k v where e: "e = (k, v)" by (cases e)
  show ?case
  proof (cases "k \<in> set keys")
    case True
    obtain resp px1 where r: "sendrecv_with_timeout enc dec (envs i) (he_host target) (he_port target)
        (write_request OPC_INSERT k (as_bytes v)) MIGRATION_TIMEOUT_MS px = (Inr resp, px1)" and "quiet px1"
      using assms(1) [of i] answering_exchange [OF _ Cons.prems] by metis
    from Cons.IH [OF this(2)] show ?thesis
      by (cases "starts_with (from_utf8_lossy (zp_lease resp)) REC_SUCC") (simp_all add: e True r Let_def)
  qed (use Cons e in simp)
qed simp

lemma migrate_keys_answered:
  assumes "\<And>j. \<exists>resp. answering enc dec (envs j) resp" "quiet px"
  obtains m j px' where "migrate_keys_for_node enc dec envs i target keys st px = (Inr m, j, px')"
    and "quiet px'"
proof (cases "keys = []")
  case True
  with assms(2) show ?thesis by (intro that) (simp_all add: migrate_keys_for_node_def)
next
  case False
  with migrate_entries_answered [of enc dec envs px i target keys "nv_entries st" 0, OF assms] that
  show ?thesis by (auto simp: migrate_keys_for_node_def)
qed

lemma migrate_groups_answered:
  assumes "\<And>j. \<exists>resp. answering enc dec (envs j) resp" "quiet px"
  shows "hm_get (nv_map (fst (snd (migrate_groups enc dec envs ios i groups n st px)))) =
     (\<lambda>k. if \<exists>a \<in> snd ` set groups. k \<in> set (ma_keys a) then None else hm_get (nv_map st) k)"
  using assms(2)
proof (induction groups arbitrary: i n st px)
  case (Cons g groups)
  obtain addr a where g: "g = (addr, a)" by (cases g)
  obtain m j px' where r: "migrate_keys_for_node enc dec envs i (ma_target_host a) (ma_keys a) st px
      = (Inr m, j, px')" and q: "quiet px'"
    by (rule migrate_keys_answered [OF assms(1) Cons.prems])
  have step: "migrate_groups enc dec envs ios i (g # groups) n st px =
      migrate_groups enc dec envs ios j groups (n + m) (remove_keys ios (ma_keys a) st) px'"
    unfolding g migrate_groups.simps Let_def r by simp
  have ex: "(\<exists>a \<in> snd ` set (g # groups). k \<in> set (ma_keys a)) \<longleftrightarrow>
      k \<in> set (ma_keys a) \<or> (\<exists>a \<in> snd ` set groups. k \<in> set (ma_keys a))" for k
    by (simp add: g)
  show ?case
    unfolding step Cons.IH [OF q] remove_keys_get ex by (rule ext) simp
qed simp

text \<open>Every key with an owner elsewhere is in a group.\<close>

lemma owner_in_groups:
  assumes "owner_elsewhere (mb_self_node mb) (active_members mb) k = Some owner"
    and "hm_get (nv_map st) k \<noteq> None"
  shows "\<exists>a \<in> snd ` set (foldl (\<lambda>m (key, target). add_to_group key target m) [] (keys_to_migrate mb st)).
     k \<in> set (ma_keys a)"
proof -
  let ?kts = "keys_to_migrate mb st"
  let ?groups = "foldl (\<lambda>m (key, target). add_to_group key target m) [] ?kts"
  have "hm_get ?kts k = Some owner" using assms by (simp add: keys_to_migrate_get)
  then have mem: "(k, owner) \<in> set ?kts" using keys_to_migrate_get(1) by (simp add: hm_entry_iff)
  then have "group_at ?kts (address owner) \<noteq> None" by (auto simp: group_at_None)
  then obtain a where a: "group_at ?kts (address owner) = Some a" by blast
  from group_at_Some [OF this] mem have k: "k \<in> set (ma_keys a)" by force
  have "hm_get ?groups (address owner) = Some a" "hm_wf ?groups"
    using grouped [of ?kts] a by simp_all
  then have "(address owner, a) \<in> set ?groups" by (simp add: hm_entry_iff)
  with k show ?thesis by force
qed

lemma migration_moves:
  assumes "hm_wf (nv_map st)" "mg_migration_enabled mg" "\<not> mg_migrating mg"
    and "\<And>j. \<exists>resp. answering enc dec (envs j) resp" "quiet px"
    and "check_and_migrate enc dec envs ios mg mb st px = (n, mg', st', px')"
  shows "hm_get (nv_map st') k =
     (if owner_elsewhere (mb_self_node mb) (active_members mb) k = None then hm_get (nv_map st) k else None)"
proof -
  let ?kts = "keys_to_migrate mb st"
  let ?groups = "foldl (\<lambda>m (key, target). add_to_group key target m) [] ?kts"
  have "st' = fst (snd (migrate_groups enc dec envs ios 0 ?groups 0 st px))"
  proof (cases "?kts = []")
    case True
    then have g: "?groups = []" by simp
    have "check_and_migrate enc dec envs ios mg mb st px = (0, mg, st, px)"
      unfolding check_and_migrate_def Let_def using assms(2,3) True by simp
    with assms(6) show ?thesis unfolding g by simp
  next
    case False
    then have "check_and_migrate enc dec envs ios mg mb st px =
       (fst (migrate_groups enc dec envs ios 0 ?groups 0 st px), mg\<lparr>mg_migrating := False\<rparr>,
        fst (snd (migrate_groups enc dec envs ios 0 ?groups 0 st px)),
        snd (snd (migrate_groups enc dec envs ios 0 ?groups 0 st px)))"
      unfolding check_and_migrate_def Let_def using assms(2,3) by (simp only: if_False simp_thms)
    with assms(6) show ?thesis by simp
  qed
  then have get: "hm_get (nv_map st') k =
     (if \<exists>a \<in> snd ` set ?groups. k \<in> set (ma_keys a) then None else hm_get (nv_map st) k)"
    using migrate_groups_answered [OF assms(4,5)] by simp
  have "owner_elsewhere (mb_self_node mb) (active_members mb) k \<noteq> None"
    if "\<exists>a \<in> snd ` set ?groups. k \<in> set (ma_keys a)"
    using that groups_owner by fastforce
  moreover have "\<exists>a \<in> snd ` set ?groups. k \<in> set (ma_keys a)"
    if "owner_elsewhere (mb_self_node mb) (active_members mb) k \<noteq> None" "hm_get (nv_map st) k \<noteq> None"
    using that owner_in_groups by blast
  ultimately show ?thesis using get by (cases "hm_get (nv_map st) k") auto
qed

text \<open>The node itself is not a member, so it owns nothing: with any member alive all keys leave.\<close>

lemma owner_never_self:
  "mb_inv mb \<Longrightarrow> active_members mb \<noteq> [] \<Longrightarrow>
   owner_elsewhere (mb_self_node mb) (active_members mb) k \<noteq> None"
proof -
  assume inv: "mb_inv mb" and ne: "active_members mb \<noteq> []"
  then have "active_members mb ! route_index k (length (active_members mb)) \<in> set (active_members mb)"
    by (simp add: route_index_less)
  then have "active_members mb ! route_index k (length (active_members mb)) \<noteq> mb_self_node mb"
    using active_not_self [OF inv] by metis
  with ne show ?thesis by (simp add: owner_elsewhere_def resolve_owner_against_def)
qed

section \<open>Migration plans\<close>

definition planned_owner ::
  "host_entity \<Rightarrow> host_entity list \<Rightarrow> host_entity list \<Rightarrow> string \<Rightarrow> host_entity option"
where
  "planned_owner self old new key =
     (if resolve_owner_against key old \<noteq> resolve_owner_against key new
      then owner_elsewhere self new key else None)"

definition planned :: "host_entity \<Rightarrow> host_entity list \<Rightarrow> host_entity list \<Rightarrow> string list \<Rightarrow> (string \<times> host_entity) list" where
  "planned self old new keys =
     map (\<lambda>k. (k, the (planned_owner self old new k))) (filter (\<lambda>k. planned_owner self old new k \<noteq> None) keys)"

lemma plan_fold:
  "foldl (plan_key self old new) m keys =
     foldl (\<lambda>m (key, target). add_to_group key target m) m (planned self old new keys)"
proof (induction keys arbitrary: m)
  case (Cons key keys)
  have "plan_key self old new m key =
     (case planned_owner self old new key of None \<Rightarrow> m | Some t \<Rightarrow> add_to_group key t m)"
    by (simp add: plan_key_def planned_owner_def owner_elsewhere_def Let_def split: option.split)
  with Cons show ?case by (auto simp: planned_def split: option.split)
qed (simp add: planned_def)

lemma planned_mem:
  "(k, t) \<in> set (planned self old new keys) \<longleftrightarrow> k \<in> set keys \<and> planned_owner self old new k = Some t"
  by (auto simp: planned_def)

text \<open>
  The plan sends exactly the stored keys whose owner changed to another node, each to its new
  owner.
\<close>

lemma plan_correct:
  assumes "old \<noteq> []" "new \<noteq> []"
  shows "(\<exists>a \<in> set (calculate_migration_plan mb st old new). ma_target_host a = t \<and> k \<in> set (ma_keys a))
     \<longleftrightarrow> hm_get (nv_map st) k \<noteq> None \<and> t \<noteq> mb_self_node mb \<and>
       resolve_owner_against k new = Some t \<and> resolve_owner_against k old \<noteq> Some t"
proof -
  let ?kts = "planned (mb_self_node mb) old new (nv_keys st)"
  let ?groups = "foldl (\<lambda>m (key, target). add_to_group key target m) [] ?kts"
  have plan: "set (calculate_migration_plan mb st old new) = snd ` set ?groups"
    using assms by (simp add: calculate_migration_plan_def plan_fold)
  have wf: "hm_wf ?groups" and get: "hm_get ?groups = group_at ?kts" using grouped by blast+
  have "a \<in> snd ` set ?groups \<longleftrightarrow> (\<exists>addr. group_at ?kts addr = Some a)" for a
    using wf by (auto simp: image_iff hm_entry_iff get Bex_def)
  moreover have "ma_target_host a = t \<and> k \<in> set (ma_keys a) \<Longrightarrow> group_at ?kts addr = Some a \<Longrightarrow> (k, t) \<in> set ?kts"
    for a addr using group_at_Some [of ?kts addr a] by auto
  moreover have "\<exists>a addr. group_at ?kts addr = Some a \<and> ma_target_host a = t \<and> k \<in> set (ma_keys a)"
    if mem: "(k, t) \<in> set ?kts"
  proof -
    from mem have "group_at ?kts (address t) \<noteq> None" by (auto simp: group_at_None)
    then obtain a where a: "group_at ?kts (address t) = Some a" by blast
    from group_at_Some [OF a] mem have "ma_target_host a = t" "k \<in> set (ma_keys a)" by force+
    with a show ?thesis by blast
  qed
  ultimately have "(\<exists>a \<in> set (calculate_migration_plan mb st old new). ma_target_host a = t \<and> k \<in> set (ma_keys a))
     \<longleftrightarrow> (k, t) \<in> set ?kts" unfolding plan by blast
  also have "\<dots> \<longleftrightarrow> hm_get (nv_map st) k \<noteq> None \<and> planned_owner (mb_self_node mb) old new k = Some t"
    by (auto simp: planned_mem nv_keys_def)
  also have "\<dots> \<longleftrightarrow> hm_get (nv_map st) k \<noteq> None \<and> t \<noteq> mb_self_node mb \<and>
       resolve_owner_against k new = Some t \<and> resolve_owner_against k old \<noteq> Some t"
    by (auto simp: planned_owner_def owner_elsewhere_def split: option.split)
  finally show ?thesis .
qed

section \<open>The keys of a node\<close>

lemma keys_for_node:
  "k \<in> set (get_keys_for_node mb st h p) \<longleftrightarrow>
     hm_get (nv_map st) k \<noteq> None \<and>
     resolve_owner_against k (active_members mb) = Some \<lparr>he_host = h, he_port = p\<rparr>"
  by (auto simp: get_keys_for_node_def HostEntity_new_def nv_keys_def Let_def split: option.splits)

lemma received_keys:
  "hm_get (nv_map (receive_migrated_keys kvs st)) =
     hm_get (nv_map st) ++ map_of (rev (map snd (filter (\<lambda>(io, k, v). k \<noteq> []) kvs)))"
proof (induction kvs arbitrary: st)
  case (Cons e kvs)
  obtain io k v where "e = (io, k, v)" by (cases e)
  with Cons show ?case by (auto simp: map_add_def fun_eq_iff split: option.split)
qed simp

section \<open>Properties\<close>

text \<open>
  C22. A migration run on a sound member list with one alive member empties the store: the list
  never names the node itself, so every key is owned elsewhere, and a key is removed once its
  request was answered, whatever the answer says, a refusal included.
\<close>

theorem migration_empties_store:
  assumes "hm_wf (nv_map st)" "mg_migration_enabled mg" "\<not> mg_migrating mg"
    and "mb_inv mb" "active_members mb \<noteq> []"
    and "\<And>j. \<exists>resp. answering enc dec (envs j) resp" "quiet px"
  shows "nv_map (fst (snd (snd (check_and_migrate enc dec envs ios mg mb st px)))) = []"
proof -
  obtain n mg' st' px' where r: "check_and_migrate enc dec envs ios mg mb st px = (n, mg', st', px')"
    by (metis prod.exhaust)
  have "hm_get (nv_map st') k = None" for k
    using migration_moves [OF assms(1-3,6,7) r, of k] owner_never_self [OF assms(4,5), of k] by simp
  then have "hm_get (nv_map st') = Map.empty" by (rule ext)
  with r show ?thesis by (simp add: hm_empty_iff)
qed

theorem migration_empties_store_witness:
  fixes mb :: membership
  defines "mb \<equiv> MembershipManager_new 0 \<lparr>he_host = ''s'', he_port = 9\<rparr> [\<lparr>he_host = ''a'', he_port = 1\<rparr>]"
  shows "nv_map (fst (snd (snd (check_and_migrate sample_enc sample_dec
      (\<lambda>_. sample_net (encode_message sample_enc (ZPack_default\<lparr>zp_lease := as_bytes REC_SRVFAIL\<rparr>)))
      (\<lambda>_. Io_Ok) (MigrationManager_new True) mb
      (NoVoHT_new\<lparr>nv_map := [(''k'', ''v''), (''j'', ''w'')]\<rparr>) TcpProxy_new)))) = []"
proof (rule migration_empties_store)
  show "mb_inv mb" by (simp add: mb_def new_inv)
  show "active_members mb \<noteq> []"
    by (simp add: mb_def MembershipManager_new_def active_members_def new_entry_def)
  show "\<exists>resp. answering sample_enc sample_dec
      (sample_net (encode_message sample_enc (ZPack_default\<lparr>zp_lease := as_bytes REC_SRVFAIL\<rparr>))) resp"
    by (rule exI [of _ "ZPack_default\<lparr>zp_lease := as_bytes REC_SRVFAIL\<rparr>"])
      (simp add: answering_def all_through_def sample_net_def ZPack_default_def REC_SRVFAIL_def)
qed (simp_all add: hm_wf_def MigrationManager_new_def quiet_def unread_def TcpProxy_new_def)

text \<open>
  C23. A migration plan says exactly which stored keys move and where: a key is planned for a
  node precisely when the node is its owner among the new members, was not among the old ones,
  and is not the node that plans, provided that there were old members. With none, nothing is
  planned: a node whose member list was empty, as it is before the first other node joins, plans
  no move at all.
\<close>

theorem plan_is_exact:
  "(\<exists>a \<in> set (calculate_migration_plan mb st old new). ma_target_host a = t \<and> k \<in> set (ma_keys a))
     \<longleftrightarrow> old \<noteq> [] \<and> hm_get (nv_map st) k \<noteq> None \<and> t \<noteq> mb_self_node mb \<and>
       resolve_owner_against k new = Some t \<and> resolve_owner_against k old \<noteq> Some t"
proof (cases "old = [] \<or> new = []")
  case True
  then show ?thesis by (auto simp: calculate_migration_plan_def resolve_owner_against_def)
next
  case False
  then show ?thesis using plan_correct [of old new mb st t k] by simp
qed

text \<open>One key, that moves from one member to another; and the same when no member was there before.\<close>

theorem plan_is_exact_witness:
  fixes a b :: host_entity and mb :: membership and st :: novoht
  defines "a \<equiv> \<lparr>he_host = ''a'', he_port = 1\<rparr>" and "b \<equiv> \<lparr>he_host = ''b'', he_port = 1\<rparr>"
    and "mb \<equiv> MembershipManager_new 0 \<lparr>he_host = ''s'', he_port = 9\<rparr> []"
    and "st \<equiv> NoVoHT_new\<lparr>nv_map := [(''k'', ''v'')]\<rparr>"
  shows "(\<exists>p \<in> set (calculate_migration_plan mb st [a] [b]). ma_target_host p = b \<and> ''k'' \<in> set (ma_keys p)) \<and>
    \<not> (\<exists>p \<in> set (calculate_migration_plan mb st [] [b]). ma_target_host p = b \<and> ''k'' \<in> set (ma_keys p))"
proof -
  have "hm_get (nv_map st) ''k'' \<noteq> None \<and> b \<noteq> mb_self_node mb \<and>
      resolve_owner_against ''k'' [b] = Some b \<and> resolve_owner_against ''k'' [a] \<noteq> Some b"
    by (simp add: st_def mb_def a_def b_def MembershipManager_new_def resolve_owner_against_def
        route_index_def hm_get_map_of)
  then show ?thesis unfolding plan_is_exact by simp
qed

end
