(* ===== verification/Zht_Server.thy ===== *)
theory Zht_Server
  imports Migration_Effect Tcp_Server Zht_Config
begin

text \<open>
  Sections D to F of \<open>zht-server/src/lib.rs\<close>: the server's counters, the worker that replicates
  its writes, and \<open>ZHTServer\<close>, which owns the store, the worker, the membership, replication,
  migration and the proxy, accepts connections and serves them with the worker.
\<close>

section \<open>ServerMetrics\<close>

record server_metrics =
  sm_start_time :: nat
  sm_connections_total :: u64
  sm_connections_active :: u64
  sm_connections_accepted :: u64
  sm_connections_rejected :: u64
  sm_bytes_received :: u64
  sm_bytes_sent :: u64
  sm_worker_metrics :: worker_metrics

definition ServerMetrics_new :: "nat \<Rightarrow> server_metrics" where
  "ServerMetrics_new now =
     \<lparr>sm_start_time = now, sm_connections_total = 0, sm_connections_active = 0,
      sm_connections_accepted = 0, sm_connections_rejected = 0, sm_bytes_received = 0,
      sm_bytes_sent = 0, sm_worker_metrics = worker_metrics_default\<rparr>"

definition record_connection_accepted :: "server_metrics \<Rightarrow> server_metrics" where
  "record_connection_accepted m =
     m\<lparr>sm_connections_accepted := sm_connections_accepted m + 1,
       sm_connections_total := sm_connections_total m + 1,
       sm_connections_active := sm_connections_active m + 1\<rparr>"

definition record_connection_closed :: "server_metrics \<Rightarrow> server_metrics" where
  "record_connection_closed m = m\<lparr>sm_connections_active := sm_connections_active m - 1\<rparr>"

definition record_bytes_received :: "u64 \<Rightarrow> server_metrics \<Rightarrow> server_metrics" where
  "record_bytes_received n m = m\<lparr>sm_bytes_received := sm_bytes_received m + n\<rparr>"

definition record_bytes_sent :: "u64 \<Rightarrow> server_metrics \<Rightarrow> server_metrics" where
  "record_bytes_sent n m = m\<lparr>sm_bytes_sent := sm_bytes_sent m + n\<rparr>"

definition record_connection_rejected :: "server_metrics \<Rightarrow> server_metrics" where
  "record_connection_rejected m = m\<lparr>sm_connections_rejected := sm_connections_rejected m + 1\<rparr>"

definition update_worker_metrics :: "worker_metrics \<Rightarrow> server_metrics \<Rightarrow> server_metrics" where
  "update_worker_metrics wm m = m\<lparr>sm_worker_metrics := wm\<rparr>"

record server_snapshot =
  ss_uptime :: nat
  ss_connections_total :: u64
  ss_connections_active :: u64
  ss_connections_accepted :: u64
  ss_connections_rejected :: u64
  ss_bytes_received :: u64
  ss_bytes_sent :: u64
  ss_storage_entries :: nat
  ss_worker_metrics :: worker_metrics
  ss_member_count :: nat
  ss_alive_members :: nat

definition snapshot :: "nat \<Rightarrow> nat \<Rightarrow> nat \<Rightarrow> nat \<Rightarrow> server_metrics \<Rightarrow> server_snapshot" where
  "snapshot now storage_entries members alive m =
     \<lparr>ss_uptime = now - sm_start_time m, ss_connections_total = sm_connections_total m,
      ss_connections_active = sm_connections_active m,
      ss_connections_accepted = sm_connections_accepted m,
      ss_connections_rejected = sm_connections_rejected m,
      ss_bytes_received = sm_bytes_received m, ss_bytes_sent = sm_bytes_sent m,
      ss_storage_entries = storage_entries, ss_worker_metrics = sm_worker_metrics m,
      ss_member_count = members, ss_alive_members = alive\<rparr>"

section \<open>ReplicatedHTWorker\<close>

text \<open>
  The answer, the worker, and the replication spawned in the background, which is what it will
  do to the proxy. The membership is the one it finds when it runs.
\<close>

definition process_with_replication ::
  "encoder \<Rightarrow> (nat \<Rightarrow> tcp_env) \<Rightarrow> replication \<Rightarrow> serve_env \<Rightarrow> zpack \<Rightarrow> htworker
    \<Rightarrow> (zpack \<times> htworker \<times> (membership \<Rightarrow> tcp_proxy \<Rightarrow> tcp_proxy)) option"
where
  "process_with_replication enc envs rp env request w =
     (case process env request w of
        None \<Rightarrow> None
      | Some (response, w1) \<Rightarrow>
          let status = from_utf8_lossy (zp_lease response);
              opcode = from_utf8_lossy (zp_opcode request);
              key = from_utf8_lossy (zp_key request);
              val = zp_val request
          in if \<not> starts_with status REC_SUCC then Some (response, w1, \<lambda>mb px. px)
             else if key = [] then Some (response, w1, \<lambda>mb px. px)
             else Some (response, w1,
               \<lambda>mb px.
                 if opcode = OPC_INSERT then replicate_insert enc envs rp mb key val px
                 else if opcode = OPC_REMOVE then replicate_remove enc envs rp mb key px
                 else if opcode = OPC_APPEND then replicate_append enc envs rp mb key val px
                 else px))"

section \<open>ZHTServer\<close>

record zht_server =
  sv_config :: "app_config option"
  sv_store :: novoht
  sv_worker :: htworker
  sv_membership :: membership
  sv_replication :: replication
  sv_migration :: migration
  sv_metrics :: server_metrics
  sv_cancelled :: bool
  sv_proxy :: tcp_proxy

definition new_with_store ::
  "nat \<Rightarrow> novoht \<Rightarrow> host_entity \<Rightarrow> host_entity list \<Rightarrow> nat \<Rightarrow> nat \<Rightarrow> bool \<Rightarrow> zht_server"
where
  "new_with_store now store self_host initial_members replicas repl_type migrate =
     \<lparr>sv_config = None, sv_store = store, sv_worker = HTWorker_new NoVoHT_new,
      sv_membership = MembershipManager_new now self_host initial_members,
      sv_replication = ReplicationManager_new replicas repl_type,
      sv_migration = MigrationManager_new migrate,
      sv_metrics = ServerMetrics_new now, sv_cancelled = False, sv_proxy = TcpProxy_new\<rparr>"

definition ZHTServer_new :: "nat \<Rightarrow> app_config \<Rightarrow> novoht \<Rightarrow> zht_server" where
  "ZHTServer_new now config store =
     (let self_host = HostEntity_new ''0.0.0.0'' (port (ac_zht config));
          initial_members = filter (\<lambda>n. n \<noteq> self_host) (nc_neighbors (ac_neighbors config))
      in new_with_store now store self_host initial_members
           (num_replicas (ac_zht config)) (replication_type (ac_zht config)) True)"

definition shutdown :: "zht_server \<Rightarrow> zht_server" where
  "shutdown sv = sv\<lparr>sv_cancelled := True\<rparr>"

definition server_health_check :: "zht_server \<Rightarrow> bool" where
  "server_health_check sv \<longleftrightarrow>
     0 < member_count (sv_membership sv) \<or> mb_members (sv_membership sv) = []"

definition status :: "nat \<Rightarrow> zht_server \<Rightarrow> server_snapshot \<times> zht_server" where
  "status now sv =
     (let member_list = mb_members (sv_membership sv);
          alive = length (filter (\<lambda>m. me_state m = Alive) member_list);
          m = update_worker_metrics (hw_metrics (sv_worker sv)) (sv_metrics sv)
      in (snapshot now (nv_len (sv_store sv)) (length member_list) alive m, sv\<lparr>sv_metrics := m\<rparr>))"

text \<open>The task of \<open>spawn_health_checker\<close>: the times at which it ticks before it is cancelled.\<close>

fun health_checker :: "nat \<Rightarrow> nat list \<Rightarrow> zht_server \<Rightarrow> zht_server" where
  "health_checker timeout [] sv = sv"
| "health_checker timeout (now # ticks) sv =
     health_checker timeout ticks (sv\<lparr>sv_membership := check_health now timeout (sv_membership sv)\<rparr>)"

section \<open>Serving\<close>

function metrics_loop ::
  "encoder \<Rightarrow> decoder \<Rightarrow> (nat \<Rightarrow> serve_env) \<Rightarrow> (nat \<Rightarrow> wio) \<Rightarrow> nat \<Rightarrow> rstream
    \<Rightarrow> htworker \<Rightarrow> server_metrics \<Rightarrow> u8 list \<Rightarrow> (u8 list \<times> htworker \<times> server_metrics) option"
where
  "metrics_loop enc dec envs ws i s w m out =
     (if \<exists>e. fst (recv_message dec s) = Inl e then Some (out, w, m)
      else
        let request = projr (fst (recv_message dec s));
            m1 = record_bytes_received (of_nat (4 + length (enc request))) m
        in case process (envs i) request w of
             None \<Rightarrow> None
           | Some (response, w1) \<Rightarrow>
               let m2 = record_bytes_sent (of_nat (4 + length (enc response))) m1;
                   sent = send_message enc (ws i) response out
               in (case fst sent of
                     Inl e \<Rightarrow> Some (snd sent, w1, m2)
                   | Inr _ \<Rightarrow>
                       metrics_loop enc dec envs ws (Suc i) (snd (recv_message dec s)) w1 m2 (snd sent)))"
  by pat_completeness auto
termination
  by (relation "measure (\<lambda>(enc, dec, envs, ws, i, s, w, m, out). length (rs_bytes s))")
    (auto, metis old.sum.exhaust recv_message_shrinks)

declare metrics_loop.simps [simp del]

text \<open>An error of the socket option returns at once, with \<open>anyhow\<close>'s text of it.\<close>

definition handle_connection_with_metrics ::
  "encoder \<Rightarrow> decoder \<Rightarrow> string option \<Rightarrow> (nat \<Rightarrow> serve_env) \<Rightarrow> (nat \<Rightarrow> wio) \<Rightarrow> rstream
    \<Rightarrow> htworker \<Rightarrow> server_metrics \<Rightarrow> ((string + unit) \<times> u8 list \<times> htworker \<times> server_metrics) option"
where
  "handle_connection_with_metrics enc dec nodelay envs ws s w m =
     (case nodelay of
        Some e \<Rightarrow> Some (Inl e, [], w, m)
      | None \<Rightarrow>
          (case metrics_loop enc dec envs ws 0 s w m [] of
             None \<Rightarrow> None
           | Some (out, w1, m1) \<Rightarrow> Some (Inr (), out, w1, record_connection_closed m1)))"

text \<open>
  \<open>start\<close>: a bad address or a failing bind, or the accept loop. A connection is given by all the
  network and the file system do while it is served; handlers are run in the order the
  connections are accepted. The result is None while the loop goes on.
\<close>

record connection =
  co_nodelay :: "string option"
  co_envs :: "nat \<Rightarrow> serve_env"
  co_writes :: "nat \<Rightarrow> wio"
  co_stream :: rstream

definition serve_connection ::
  "encoder \<Rightarrow> decoder \<Rightarrow> connection \<Rightarrow> zht_server \<Rightarrow> (u8 list \<times> zht_server) option"
where
  "serve_connection enc dec c sv =
     map_option (\<lambda>(_, out, w, m). (out, sv\<lparr>sv_worker := w, sv_metrics := m\<rparr>))
       (handle_connection_with_metrics enc dec (co_nodelay c) (co_envs c) (co_writes c) (co_stream c)
          (sv_worker sv) (record_connection_accepted (sv_metrics sv)))"

fun serve_events ::
  "encoder \<Rightarrow> decoder \<Rightarrow> connection server_event list \<Rightarrow> zht_server
    \<Rightarrow> ((string + unit) option \<times> u8 list list \<times> zht_server) option"
where
  "serve_events enc dec [] sv = Some (None, [], sv)"
| "serve_events enc dec (Ev_Accept c # evs) sv =
     (case serve_connection enc dec c sv of
        None \<Rightarrow> None
      | Some (out, sv1) \<Rightarrow>
          map_option (\<lambda>(r, outs, sv2). (r, out # outs, sv2)) (serve_events enc dec evs sv1))"
| "serve_events enc dec (Ev_Accept_Err e # evs) sv = Some (Some (Inl (''Accept error: '' @ e)), [], sv)"
| "serve_events enc dec (Ev_Cancelled # evs) sv = Some (Some (Inr ()), [], sv)"

definition start ::
  "encoder \<Rightarrow> decoder \<Rightarrow> string \<Rightarrow> string option \<Rightarrow> connection server_event list \<Rightarrow> zht_server
    \<Rightarrow> ((string + unit) option \<times> u8 list list \<times> zht_server) option"
where
  "start enc dec addr bind_err evs sv =
     (case parse_socket_addr addr of
        Inl e \<Rightarrow> Some (Some (Inl (''Invalid bind address '' @ quoted addr @ '': '' @ e)), [], sv)
      | Inr socket_addr \<Rightarrow>
          (case bind_err of
             Some e \<Rightarrow> Some (Some (Inl (''Failed to bind to '' @ addr @ '': '' @ e)), [], sv)
           | None \<Rightarrow> serve_events enc dec evs sv))"

section \<open>Replication follows the primary\<close>

lemma replication_same_answer:
  assumes "process_with_replication enc envs rp env req w = Some (resp, w1, task)"
  shows "process env req w = Some (resp, w1)"
  using assms by (auto simp: process_with_replication_def Let_def split: option.splits if_splits)

text \<open>
  The request a replica gets changes the replica's map as the client's request changes the
  primary's.
\<close>

lemma replica_same_change:
  assumes "from_utf8_lossy (zp_opcode req) = opcode" "opcode \<in> {OPC_INSERT, OPC_APPEND}"
  shows "snd (node_answer (write_request opcode (from_utf8_lossy (zp_key req)) (zp_val req)) m)
     = snd (node_answer req m)"
proof -
  have "from_utf8_lossy (as_bytes opcode) = opcode"
    using assms(2) by (auto intro!: from_utf8_lossy_as_bytes simp: opcode_defs)
  with assms show ?thesis
    by (auto simp: node_answer_def write_request_def ZPack_default_def Let_def)
qed

lemma replica_same_removal:
  assumes "from_utf8_lossy (zp_opcode req) = OPC_REMOVE"
  shows "snd (node_answer (write_request OPC_REMOVE (from_utf8_lossy (zp_key req)) []) m)
     = snd (node_answer req m)"
proof -
  have "from_utf8_lossy (as_bytes OPC_REMOVE) = OPC_REMOVE"
    by (rule from_utf8_lossy_as_bytes) (simp add: opcode_defs)
  with assms show ?thesis
    by (auto simp: node_answer_def write_request_def ZPack_default_def Let_def)
qed

text \<open>Nothing but a successful insert, remove or append is sent.\<close>

lemma replication_silent:
  assumes "process_with_replication enc envs rp env req w = Some (resp, w1, task)"
    and "\<not> starts_with (from_utf8_lossy (zp_lease resp)) REC_SUCC \<or>
       from_utf8_lossy (zp_opcode req) \<notin> {OPC_INSERT, OPC_REMOVE, OPC_APPEND}"
  shows "task mb px = px"
  using assms by (auto simp: process_with_replication_def Let_def split: option.splits if_splits)

section \<open>The handler with counters\<close>

lemma metrics_loop_agrees:
  "map_option (\<lambda>(out, w, m). (out, w)) (metrics_loop enc dec envs ws i s w m out) =
     connection_loop enc dec envs ws i s w out"
proof (induction enc dec envs ws i s w m out rule: metrics_loop.induct)
  case (1 enc dec envs ws i s w m out)
  show ?case
  proof (cases "\<exists>e. fst (recv_message dec s) = Inl e")
    case True
    then show ?thesis by (subst metrics_loop.simps, subst connection_loop.simps) simp
  next
    case False
    show ?thesis
    proof (cases "process (envs i) (projr (fst (recv_message dec s))) w")
      case None
      with False show ?thesis
        by (subst metrics_loop.simps, subst connection_loop.simps) (simp add: Let_def)
    next
      case (Some rw)
      obtain response w1 where rw: "rw = (response, w1)" by (cases rw)
      with 1 False Some show ?thesis
        by (subst metrics_loop.simps, subst connection_loop.simps)
          (auto simp: Let_def split: sum.split)
    qed
  qed
qed

text \<open>Serving touches the worker and the counters, and nothing else of the server.\<close>

lemma serve_connection_frame:
  assumes "serve_connection enc dec c sv = Some (out, sv1)"
  shows "sv_store sv1 = sv_store sv \<and> sv_proxy sv1 = sv_proxy sv \<and> sv_membership sv1 = sv_membership sv"
  using assms by (auto simp: serve_connection_def)

lemma serve_events_frame:
  "serve_events enc dec evs sv = Some (r, outs, sv1) \<Longrightarrow>
     sv_store sv1 = sv_store sv \<and> sv_proxy sv1 = sv_proxy sv \<and> sv_membership sv1 = sv_membership sv"
proof (induction evs arbitrary: sv r outs)
  case (Cons ev evs)
  show ?case
  proof (cases ev)
    case (Ev_Accept c)
    with Cons.prems obtain out sv2 outs2 where "serve_connection enc dec c sv = Some (out, sv2)"
      and "serve_events enc dec evs sv2 = Some (r, outs2, sv1)"
      by (auto split: option.splits)
    with Cons.IH serve_connection_frame show ?thesis by metis
  qed (use Cons.prems in simp_all)
qed simp

lemma start_frame:
  "start enc dec addr bind_err evs sv = Some (r, outs, sv1) \<Longrightarrow>
     sv_store sv1 = sv_store sv \<and> sv_proxy sv1 = sv_proxy sv \<and> sv_membership sv1 = sv_membership sv"
  by (auto simp: start_def dest: serve_events_frame split: option.splits sum.splits)

text \<open>
  The counter of active connections: a served connection leaves it as it was, unless the socket
  option failed, when the connection stays counted.
\<close>

lemma metrics_loop_active:
  "metrics_loop enc dec envs ws i s w m out = Some (out', w', m') \<Longrightarrow>
     sm_connections_active m' = sm_connections_active m"
proof (induction enc dec envs ws i s w m out rule: metrics_loop.induct)
  case (1 enc dec envs ws i s w m out)
  let ?m1 = "record_bytes_received (of_nat (4 + length (enc (projr (fst (recv_message dec s)))))) m"
  have eq: "metrics_loop enc dec envs ws i s w m out = Some (out', w', m')" by (rule 1(2))
  show ?case
  proof (cases "\<exists>e. fst (recv_message dec s) = Inl e")
    case True
    then have "metrics_loop enc dec envs ws i s w m out = Some (out, w, m)"
      by (subst metrics_loop.simps) simp
    with eq show ?thesis by simp
  next
    case False
    show ?thesis
    proof (cases "process (envs i) (projr (fst (recv_message dec s))) w")
      case None
      with False have "metrics_loop enc dec envs ws i s w m out = None"
        by (subst metrics_loop.simps) (simp add: Let_def)
      with eq show ?thesis by simp
    next
      case (Some rw)
      obtain response w1 where rw: "rw = (response, w1)" by (cases rw)
      let ?m2 = "record_bytes_sent (of_nat (4 + length (enc response))) ?m1"
      let ?sent = "send_message enc (ws i) response out"
      have m2: "sm_connections_active ?m2 = sm_connections_active m"
        by (simp add: record_bytes_received_def record_bytes_sent_def)
      have step: "metrics_loop enc dec envs ws i s w m out =
          (case fst ?sent of
             Inl e \<Rightarrow> Some (snd ?sent, w1, ?m2)
           | Inr _ \<Rightarrow> metrics_loop enc dec envs ws (Suc i) (snd (recv_message dec s)) w1 ?m2 (snd ?sent))"
        using False Some rw by (subst metrics_loop.simps) (simp add: Let_def split: sum.split)
      show ?thesis
      proof (cases "fst ?sent")
        case (Inl e)
        with step eq have "m' = ?m2" by simp
        with m2 show ?thesis by simp
      next
        case (Inr u)
        with step eq have "metrics_loop enc dec envs ws (Suc i) (snd (recv_message dec s)) w1 ?m2 (snd ?sent)
            = Some (out', w', m')" by simp
        from "1.IH" [OF False refl refl Some rw [symmetric] refl refl Inr this] m2 show ?thesis by simp
      qed
    qed
  qed
qed

lemma active_after_serving:
  assumes "handle_connection_with_metrics enc dec nodelay envs ws s w m = Some (r, out, w1, m1)"
  shows "sm_connections_active m1 =
     (if nodelay = None then sm_connections_active m - 1 else sm_connections_active m)"
  using assms metrics_loop_active
  by (auto simp: handle_connection_with_metrics_def record_connection_closed_def split: option.splits)

text \<open>On a network that carries the frames, each replica is sent one.\<close>

lemma replicate_through:
  assumes "is_replication_enabled rp" "\<And>j. all_through (envs j)"
  shows "tp_wire (replicate_insert enc envs rp mb key val px) =
      tp_wire px @ map (\<lambda>h. (address h, encode_message enc (write_request OPC_INSERT key val))) (get_replica_nodes rp mb key)"
    and "tp_wire (replicate_remove enc envs rp mb key px) =
      tp_wire px @ map (\<lambda>h. (address h, encode_message enc (write_request OPC_REMOVE key []))) (get_replica_nodes rp mb key)"
    and "tp_wire (replicate_append enc envs rp mb key val px) =
      tp_wire px @ map (\<lambda>h. (address h, encode_message enc (write_request OPC_APPEND key val))) (get_replica_nodes rp mb key)"
  using assms(1) sent_to_all [OF assms(2)]
  by (simp_all add: replicate_insert_def replicate_remove_def replicate_append_def)

lemma successful_write_has_key:
  assumes "process env req w = Some (resp, w1)" "starts_with (from_utf8_lossy (zp_lease resp)) REC_SUCC"
  shows "from_utf8_lossy (zp_key req) \<noteq> []"
proof
  assume "from_utf8_lossy (zp_key req) = []"
  with assms(1) have "zp_lease resp = as_bytes REC_EMPTYKEY"
    by (auto simp: process_def Let_def)
  moreover have "from_utf8_lossy (as_bytes REC_EMPTYKEY) = REC_EMPTYKEY"
    by (rule from_utf8_lossy_as_bytes) (simp add: status_defs)
  ultimately show False using assms(2) by (simp add: status_defs starts_with_def)
qed

text \<open>A connection that sends one request, and a server gets through it.\<close>

definition sample_connection :: "zpack \<Rightarrow> connection" where
  "sample_connection req =
     \<lparr>co_nodelay = None,
      co_envs = (\<lambda>_. \<lparr>se_io = Io_Ok, se_views = (\<lambda>_. NoVoHT_new), se_clock = (\<lambda>_. 0)\<rparr>),
      co_writes = (\<lambda>_. Wio_Ok),
      co_stream = \<lparr>rs_bytes = encode_message sample_enc req, rs_end = ''early eof''\<rparr>\<rparr>"

lemma sample_connection_served:
  assumes "\<not> is_sccb req" "clean_codec sample_enc sample_dec req"
  shows "\<exists>out sv1. serve_connection sample_enc sample_dec (sample_connection req) sv = Some (out, sv1)"
proof -
  let ?c = "sample_connection req"
  have "serve_all (co_envs ?c) 0 [req] w \<noteq> None" for w
    by (rule process_refines [OF assms(1), of "co_envs ?c 0" w]) simp
  moreover have "connection_loop sample_enc sample_dec (co_envs ?c) (co_writes ?c) 0 (co_stream ?c) w [] =
      map_option (\<lambda>(resps, w'). ([] @ concat (map (encode_message sample_enc) resps), w'))
        (serve_all (co_envs ?c) 0 [req] w)" for w
    by (rule connection_serves [where rest = "[]"])
      (use assms(2) in \<open>simp_all add: sample_connection_def recv_at_end del: sample_clean\<close>)
  ultimately have "connection_loop sample_enc sample_dec (co_envs ?c) (co_writes ?c) 0 (co_stream ?c) w [] \<noteq> None" for w
    by (simp only: map_option_is_None) simp
  then have "metrics_loop sample_enc sample_dec (co_envs ?c) (co_writes ?c) 0 (co_stream ?c) w m [] \<noteq> None" for w m
    using metrics_loop_agrees [of sample_enc sample_dec "co_envs ?c" "co_writes ?c" 0 "co_stream ?c" w m "[]"]
    by (metis option.map_disc_iff)
  then show ?thesis
    by (auto simp: serve_connection_def handle_connection_with_metrics_def sample_connection_def
        split: option.splits)
qed

section \<open>Properties\<close>

text \<open>
  C12. Replication repeats the primary's change: every request is answered as without
  replication. After a successful insert, remove or append, on a network that carries the
  frames, one request goes to each replica of the key, in order, and it changes any node's map
  exactly as the client's request does; after anything else nothing is sent.
\<close>

theorem replicas_follow_primary:
  assumes "process_with_replication enc envs rp env req w = Some (resp, w1, task)"
    and "is_replication_enabled rp" "\<And>j. all_through (envs j)"
  shows "process env req w = Some (resp, w1) \<and>
    (if starts_with (from_utf8_lossy (zp_lease resp)) REC_SUCC \<and>
        from_utf8_lossy (zp_opcode req) \<in> {OPC_INSERT, OPC_REMOVE, OPC_APPEND}
     then \<exists>r. tp_wire (task mb px) = tp_wire px @ map (\<lambda>h. (address h, encode_message enc r))
           (get_replica_nodes rp mb (from_utf8_lossy (zp_key req))) \<and>
         (\<forall>m. snd (node_answer r m) = snd (node_answer req m))
     else task mb px = px)"
proof -
  let ?op = "from_utf8_lossy (zp_opcode req)" and ?key = "from_utf8_lossy (zp_key req)"
  let ?succ = "starts_with (from_utf8_lossy (zp_lease resp)) REC_SUCC"
  note same = replication_same_answer [OF assms(1)]
  have sends: "\<exists>r. tp_wire (task mb px) = tp_wire px @ map (\<lambda>h. (address h, encode_message enc r))
        (get_replica_nodes rp mb ?key) \<and> (\<forall>m. snd (node_answer r m) = snd (node_answer req m))"
    if succ: "?succ" and op: "?op \<in> {OPC_INSERT, OPC_REMOVE, OPC_APPEND}"
  proof -
    have task: "task mb px =
        (if ?op = OPC_INSERT then replicate_insert enc envs rp mb ?key (zp_val req) px
         else if ?op = OPC_REMOVE then replicate_remove enc envs rp mb ?key px
         else replicate_append enc envs rp mb ?key (zp_val req) px)"
      using assms(1) succ op successful_write_has_key [OF same succ]
      by (auto simp: process_with_replication_def Let_def split: option.splits if_splits)
    note wire = replicate_through [OF assms(2,3)]
    have change: "snd (node_answer (write_request ?op ?key (zp_val req)) m) = snd (node_answer req m)"
      if "?op \<in> {OPC_INSERT, OPC_APPEND}" for m
      using refl that by (rule replica_same_change)
    consider "?op = OPC_INSERT" | "?op = OPC_REMOVE" | "?op = OPC_APPEND" using op by blast
    then show ?thesis
      using task wire change replica_same_removal [of req] by cases auto
  qed
  then show ?thesis using same replication_silent [OF assms(1)] by auto
qed

theorem replicas_follow_primary_witness:
  fixes mb :: membership and req :: zpack and env :: serve_env
  defines "mb \<equiv> MembershipManager_new 0 \<lparr>he_host = ''s'', he_port = 9\<rparr>
      (map (\<lambda>h. \<lparr>he_host = h, he_port = 1\<rparr>) [''a'', ''b'', ''c''])"
    and "req \<equiv> write_request OPC_APPEND ''k'' [118]"
    and "env \<equiv> \<lparr>se_io = Io_Ok, se_views = (\<lambda>_. NoVoHT_new), se_clock = (\<lambda>_. 0)\<rparr>"
  shows "\<exists>resp w1 task. process_with_replication sample_enc (\<lambda>_. sample_net []) (ReplicationManager_new 2 1)
        env req (HTWorker_new NoVoHT_new) = Some (resp, w1, task) \<and>
     process env req (HTWorker_new NoVoHT_new) = Some (resp, w1) \<and>
     (if starts_with (from_utf8_lossy (zp_lease resp)) REC_SUCC \<and>
        from_utf8_lossy (zp_opcode req) \<in> {OPC_INSERT, OPC_REMOVE, OPC_APPEND}
     then \<exists>r. tp_wire (task mb TcpProxy_new) = tp_wire TcpProxy_new @
           map (\<lambda>h. (address h, encode_message sample_enc r))
           (get_replica_nodes (ReplicationManager_new 2 1) mb (from_utf8_lossy (zp_key req))) \<and>
         (\<forall>m. snd (node_answer r m) = snd (node_answer req m))
     else task mb TcpProxy_new = TcpProxy_new)"
proof -
  have "from_utf8_lossy (as_bytes OPC_APPEND) = OPC_APPEND"
    by (rule from_utf8_lossy_as_bytes) (simp add: opcode_defs)
  then have "\<not> is_sccb req"
    by (simp add: is_sccb_def req_def write_request_def ZPack_default_def opcode_defs)
  then obtain resp w1 where "process env req (HTWorker_new NoVoHT_new) = Some (resp, w1)"
    using process_refines by metis
  then have "\<exists>task. process_with_replication sample_enc (\<lambda>_. sample_net []) (ReplicationManager_new 2 1)
        env req (HTWorker_new NoVoHT_new) = Some (resp, w1, task)"
    unfolding process_with_replication_def Let_def by (simp split: if_split)
  then obtain task where task: "process_with_replication sample_enc (\<lambda>_. sample_net []) (ReplicationManager_new 2 1)
        env req (HTWorker_new NoVoHT_new) = Some (resp, w1, task)"
    by blast
  have "is_replication_enabled (ReplicationManager_new 2 1)"
    by (simp add: is_replication_enabled_def ReplicationManager_new_def)
  from replicas_follow_primary [OF task this, of mb TcpProxy_new] task show ?thesis
    by (auto simp: all_through_def sample_net_def)
qed

text \<open>
  C20. The server's handler with counters serves a connection exactly as the transport's plain
  handler does, byte for byte and with the same worker. It closes the connection in the
  counters unless setting the socket option failed, when the connection stays counted as active
  for good.
\<close>

theorem counted_handler_agrees:
  assumes "handle_connection_with_metrics enc dec nodelay envs ws s w m = Some (r, out, w1, m1)"
  shows "\<exists>r'. handle_connection enc dec peer nodelay envs ws s w = Some (r', out, w1) \<and> (isl r \<longleftrightarrow> isl r') \<and>
    sm_connections_active m1 =
      (if nodelay = None then sm_connections_active m - 1 else sm_connections_active m)"
proof (cases nodelay)
  case None
  with assms obtain m2 where l: "metrics_loop enc dec envs ws 0 s w m [] = Some (out, w1, m2)" and "r = Inr ()"
    by (auto simp: handle_connection_with_metrics_def split: option.splits)
  then show ?thesis
    using metrics_loop_agrees [of enc dec envs ws 0 s w m "[]", symmetric] active_after_serving [OF assms] None
    by (simp add: handle_connection_def)
qed (use assms active_after_serving [OF assms] in
  \<open>auto simp: handle_connection_with_metrics_def handle_connection_def\<close>)

theorem counted_handler_agrees_witness:
  fixes w :: htworker and m :: server_metrics and s :: rstream and envs :: "nat \<Rightarrow> serve_env"
  defines "w \<equiv> HTWorker_new NoVoHT_new" and "m \<equiv> record_connection_accepted (ServerMetrics_new 0)"
    and "s \<equiv> \<lparr>rs_bytes = [0, 0, 0], rs_end = ''early eof''\<rparr>"
    and "envs \<equiv> \<lambda>_. \<lparr>se_io = Io_Ok, se_views = (\<lambda>_. NoVoHT_new), se_clock = (\<lambda>_. 0)\<rparr>"
  shows "\<exists>r'. handle_connection sample_enc sample_dec (SA_V4 (Ipv4 10 0 0 1) 1) None envs (\<lambda>_. Wio_Ok) s w = Some (r', [], w) \<and>
     (isl (Inr () :: string + unit) \<longleftrightarrow> isl r') \<and>
     sm_connections_active (record_connection_closed m) =
       (if (None :: string option) = None then sm_connections_active m - 1 else sm_connections_active m)"
proof (rule counted_handler_agrees)
  have "\<exists>e. fst (recv_message sample_dec s) = Inl e"
    by (simp add: recv_message_def read_exact_def s_def)
  then have "metrics_loop sample_enc sample_dec envs (\<lambda>_. Wio_Ok) 0 s w m [] = Some ([], w, m)"
    by (subst metrics_loop.simps) simp
  then show "handle_connection_with_metrics sample_enc sample_dec None envs (\<lambda>_. Wio_Ok) s w m
      = Some (Inr (), [], w, record_connection_closed m)"
    by (simp add: handle_connection_with_metrics_def)
qed

end
