(* ===== verification/Zht_Main.thy ===== *)
theory Zht_Main
  imports Zht_Server Novoht_Log
begin

text \<open>
  \<open>zht-server/src/main.rs\<close>: the program \<open>zhtserver\<close>. It loads the settings, checks the protocol,
  opens the store, builds the server, serves until the shutdown, and flushes the store. Logging
  is left out. The health checker changes the member list only, which serving does not touch, so
  its ticks are applied after the accept loop.
\<close>

record server_args =
  sa_zht_conf :: string
  sa_neighbor_conf :: string
  sa_port :: "u16 option"
  sa_db_file :: "string option"

text \<open>The database file: what is at its path, and what the file system answers.\<close>

record db_env =
  db_content :: "string option"
  db_open_err :: "string option"
  db_read_fail :: "nat option"
  db_load_io :: io
  db_flush_io :: io

datatype main_error = Me_Context string zht_error | Me_Addr string string | Me_Zht zht_error | Me_Msg string

definition check_protocol :: "app_config \<Rightarrow> main_error + unit" where
  "check_protocol config =
     (let prot = protocol (ac_zht config) in
      if prot \<noteq> PROTO_VAL_TCP \<and> prot \<noteq> PROTO_VAL_UDP \<and> prot \<noteq> PROTO_VAL_MPI
      then Inl (Me_Msg (''Unsupported protocol '' @ quoted prot @ ''. Must be one of: TCP, UDP, MPI''))
      else Inr ())"

definition effective_port :: "server_args \<Rightarrow> app_config \<Rightarrow> u16" where
  "effective_port args config = (case sa_port args of Some p \<Rightarrow> p | None \<Rightarrow> port (ac_zht config))"

definition open_store :: "server_args \<Rightarrow> db_env \<Rightarrow> main_error + novoht" where
  "open_store args db =
     (case sa_db_file args of
        None \<Rightarrow> Inr NoVoHT_new
      | Some path \<Rightarrow>
          (case fst (with_persistence path (db_content db) (db_open_err db) (db_read_fail db) (db_load_io db)) of
             Inl e \<Rightarrow> Inl (Me_Zht e)
           | Inr store \<Rightarrow> Inr store))"

definition build_server :: "nat \<Rightarrow> server_args \<Rightarrow> app_config \<Rightarrow> novoht \<Rightarrow> zht_server" where
  "build_server now args config store =
     (let self_host = HostEntity_new ''0.0.0.0'' (effective_port args config);
          initial_members = filter (\<lambda>n. n \<noteq> self_host) (nc_neighbors (ac_neighbors config))
      in new_with_store now store self_host initial_members
           (num_replicas (ac_zht config)) (replication_type (ac_zht config)) True)"

text \<open>The timeout of the health checker, in the unit of the clock.\<close>

definition heartbeat_timeout :: nat where "heartbeat_timeout = 60 * 10 ^ 9"

text \<open>After the accept loop: the final status, and the flush, whose error is only logged.\<close>

definition wind_up ::
  "server_args \<Rightarrow> db_env \<Rightarrow> nat \<Rightarrow> nat list \<Rightarrow> zht_server \<Rightarrow> server_snapshot \<times> zht_server"
where
  "wind_up args db finish ticks sv =
     (let (snap, sv1) = status finish (health_checker heartbeat_timeout ticks sv)
      in (snap,
          if sa_db_file args \<noteq> None
          then sv1\<lparr>sv_store := snd (nv_flush (db_flush_io db) (sv_store sv1))\<rparr> else sv1))"

text \<open>
  The program: an error, or the bytes sent on each connection, the final status and the server
  at the end. None while it runs.
\<close>

definition zhtserver_main ::
  "encoder \<Rightarrow> decoder \<Rightarrow> file_env \<Rightarrow> server_args \<Rightarrow> db_env \<Rightarrow> nat \<Rightarrow> nat \<Rightarrow> nat list \<Rightarrow> string option
    \<Rightarrow> connection server_event list
    \<Rightarrow> (main_error + u8 list list \<times> server_snapshot \<times> zht_server) option"
where
  "zhtserver_main enc dec fs args db now finish ticks bind_err evs =
     (case AppConfig_load fs (sa_zht_conf args) (sa_neighbor_conf args) of
        Inl e \<Rightarrow> Some (Inl (Me_Context ''Failed to load configuration'' e))
      | Inr config \<Rightarrow>
     (case check_protocol config of
        Inl e \<Rightarrow> Some (Inl e)
      | Inr _ \<Rightarrow>
     (case open_store args db of
        Inl e \<Rightarrow> Some (Inl e)
      | Inr store \<Rightarrow>
          let sv = build_server now args config store in
          (case parse_socket_addr (gen_base ''0.0.0.0'' (effective_port args config)) of
             Inl e \<Rightarrow> Some (Inl (Me_Addr ''Invalid bind address'' e))
           | Inr addr \<Rightarrow>
               (case start enc dec (show_socket_addr addr) bind_err evs sv of
                  Some (Some r, outs, sv1) \<Rightarrow> Some (Inr (outs, wind_up args db finish ticks sv1))
                | _ \<Rightarrow> None)))))"

text \<open>The address the server binds is one, and is handed to \<open>start\<close> as it was built.\<close>

declare show_socket_addr.simps [simp del]

lemma bind_addr [simp]:
  "parse_socket_addr (gen_base ''0.0.0.0'' p) = Inr (SA_V4 (Ipv4 0 0 0 0) p)"
  "show_socket_addr (SA_V4 (Ipv4 0 0 0 0) p) = gen_base ''0.0.0.0'' p"
proof -
  have "show_ipv4 (Ipv4 0 0 0 0) = ''0.0.0.0''" by (simp add: show_nat.simps [of 0])
  then show "parse_socket_addr (gen_base ''0.0.0.0'' p) = Inr (SA_V4 (Ipv4 0 0 0 0) p)"
    and "show_socket_addr (SA_V4 (Ipv4 0 0 0 0) p) = gen_base ''0.0.0.0'' p"
    by (simp_all only: parse_host_v4, simp_all only: show_socket_addr.simps gen_base_def)
qed

section \<open>What serving depends on\<close>

text \<open>Two servers that differ in nothing the handlers use.\<close>

definition same_service :: "zht_server \<Rightarrow> zht_server \<Rightarrow> bool" where
  "same_service sv sv' \<longleftrightarrow> sv_worker sv' = sv_worker sv \<and> sv_metrics sv' = sv_metrics sv"

lemma serve_connection_same:
  assumes "same_service sv sv'" "serve_connection enc dec c sv = Some (out, sv1)"
  shows "\<exists>sv1'. serve_connection enc dec c sv' = Some (out, sv1') \<and> same_service sv1 sv1'"
  using assms by (auto simp: serve_connection_def same_service_def)

lemma serve_events_same:
  "same_service sv sv' \<Longrightarrow> serve_events enc dec evs sv = Some (r, outs, sv1) \<Longrightarrow>
     \<exists>sv1'. serve_events enc dec evs sv' = Some (r, outs, sv1') \<and> same_service sv1 sv1'"
proof (induction evs arbitrary: sv sv' outs)
  case (Cons ev evs)
  show ?case
  proof (cases ev)
    case (Ev_Accept c)
    with Cons.prems(2) obtain out sv2 outs2 where 1: "serve_connection enc dec c sv = Some (out, sv2)"
      and 2: "serve_events enc dec evs sv2 = Some (r, outs2, sv1)" and "outs = out # outs2"
      by (auto split: option.splits)
    moreover obtain sv2' where "serve_connection enc dec c sv' = Some (out, sv2')" "same_service sv2 sv2'"
      using serve_connection_same [OF Cons.prems(1) 1] by blast
    ultimately show ?thesis using Cons.IH [of sv2 sv2' outs2] Ev_Accept by auto
  qed (use Cons.prems in simp_all)
qed simp

lemma start_same:
  assumes "same_service sv sv'" "start enc dec addr bind_err evs sv = Some (r, outs, sv1)"
  shows "\<exists>sv1'. start enc dec addr bind_err evs sv' = Some (r, outs, sv1')"
  using assms serve_events_same [OF assms(1), of enc dec evs r outs sv1]
  by (auto simp: start_def split: option.splits sum.splits)

lemma wind_up_store:
  "sv_store (snd (wind_up args db finish ticks sv)) =
     (if sa_db_file args \<noteq> None then snd (nv_flush (db_flush_io db) (sv_store sv)) else sv_store sv)"
proof -
  have "sv_store (health_checker t ticks sv) = sv_store sv" for t
    by (induction t ticks sv rule: health_checker.induct) simp_all
  then show ?thesis by (simp add: wind_up_def status_def Let_def)
qed

section \<open>Properties\<close>

text \<open>
  C15. The server forgets every write: started on a database file and shut down in order, the
  program answers each connection byte for byte as if it had been started without one, and
  leaves in the file, when the flush succeeds, exactly the entries it read from it. What clients
  wrote is nowhere; what the file holds was never served.
\<close>

theorem server_forgets_writes:
  assumes "sa_db_file args = Some path" "db_flush_io db = Io_Ok"
    and "zhtserver_main enc dec fs args db now finish ticks bind_err evs = Some (Inr (outs, snap, sv))"
  shows "nv_file (sv_store sv) =
      Some (render_map (read_file (db_read_fail db) (case db_content db of None \<Rightarrow> [] | Some c \<Rightarrow> c) [])) \<and>
    (\<exists>snap' sv'. zhtserver_main enc dec fs (args\<lparr>sa_db_file := None\<rparr>) db now finish ticks bind_err evs
      = Some (Inr (outs, snap', sv')))"
proof -
  from assms(3) obtain config store where c: "AppConfig_load fs (sa_zht_conf args) (sa_neighbor_conf args) = Inr config"
      "check_protocol config = Inr ()" and o: "open_store args db = Inr store"
    by (auto simp: zhtserver_main_def split: sum.splits)
  let ?sv0 = "build_server now args config store" and ?addr = "gen_base ''0.0.0.0'' (effective_port args config)"
  from assms(3) c o obtain r sv1 where s: "start enc dec ?addr bind_err evs ?sv0 = Some (Some r, outs, sv1)"
      and w: "(snap, sv) = wind_up args db finish ticks sv1"
    by (auto simp: zhtserver_main_def Let_def split: option.splits)
  have store: "nv_map store = read_file (db_read_fail db) (case db_content db of None \<Rightarrow> [] | Some c \<Rightarrow> c) []"
    "nv_persistent store"
    using o assms(1) by (auto simp: open_store_def with_persistence_def Let_def nv_flush_def
        split: option.splits sum.splits io.splits)
  have "sv_store sv1 = store"
    using start_frame [OF s] by (simp add: build_server_def new_with_store_def Let_def)
  moreover have "sv_store sv = snd (nv_flush Io_Ok (sv_store sv1))"
    using wind_up_store [of args db finish ticks sv1] assms(1,2) by (simp flip: w)
  ultimately have final: "nv_file (sv_store sv) = Some (render_map (nv_map store))"
    using store(2) by (simp add: nv_flush_def)
  let ?args = "args\<lparr>sa_db_file := None\<rparr>"
  have "same_service ?sv0 (build_server now ?args config NoVoHT_new)"
    by (simp add: same_service_def build_server_def new_with_store_def Let_def effective_port_def)
  from start_same [OF this s] c final store(1) show ?thesis
    by (auto simp: zhtserver_main_def open_store_def Let_def effective_port_def)
qed

theorem server_forgets_writes_witness:
  fixes fs :: file_env and args :: server_args and db :: db_env and req :: zpack
  defines "fs \<equiv> \<lambda>_. Some (Inr [])"
    and "args \<equiv> \<lparr>sa_zht_conf = ''zht.conf'', sa_neighbor_conf = ''neighbor.conf'', sa_port = None, sa_db_file = Some ''db''\<rparr>"
    and "db \<equiv> \<lparr>db_content = None, db_open_err = None, db_read_fail = None, db_load_io = Io_Ok, db_flush_io = Io_Ok\<rparr>"
    and "req \<equiv> write_request OPC_INSERT ''k'' [118]"
  shows "\<exists>outs snap sv.
    zhtserver_main sample_enc sample_dec fs args db 0 9 [5] None [Ev_Accept (sample_connection req), Ev_Cancelled]
      = Some (Inr (outs, snap, sv)) \<and>
    nv_file (sv_store sv) =
      Some (render_map (read_file (db_read_fail db) (case db_content db of None \<Rightarrow> [] | Some c \<Rightarrow> c) [])) \<and>
    (\<exists>snap' sv'. zhtserver_main sample_enc sample_dec fs (args\<lparr>sa_db_file := None\<rparr>) db 0 9 [5] None
        [Ev_Accept (sample_connection req), Ev_Cancelled] = Some (Inr (outs, snap', sv')))"
proof -
  let ?evs = "[Ev_Accept (sample_connection req), Ev_Cancelled]"
  have "from_utf8_lossy (as_bytes OPC_INSERT) = OPC_INSERT"
    by (rule from_utf8_lossy_as_bytes) (simp add: opcode_defs)
  then have req: "\<not> is_sccb req" "clean_codec sample_enc sample_dec req"
    by (simp_all add: is_sccb_def req_def write_request_def ZPack_default_def opcode_defs)
  have "\<exists>outs sv1. serve_events sample_enc sample_dec ?evs sv = Some (Some (Inr ()), outs, sv1)" for sv
    using sample_connection_served [OF req, of sv] by auto
  then have start: "\<exists>outs sv1. start sample_enc sample_dec (gen_base ''0.0.0.0'' p) None ?evs sv = Some (Some (Inr ()), outs, sv1)" for p sv
    by (simp add: start_def)
  obtain config where config: "AppConfig_load fs ''zht.conf'' ''neighbor.conf'' = Inr config"
      "protocol (ac_zht config) = ''TCP''"
    by (simp add: fs_def AppConfig_load_def ZhtConfig_load_def NeighborConfig_load_def protocol_def)
  obtain store where store: "open_store args db = Inr store"
    by (simp add: open_store_def args_def db_def durable_fresh)
  let ?sv = "build_server 0 args config store" and ?addr = "gen_base ''0.0.0.0'' (effective_port args config)"
  obtain outs sv1 where "start sample_enc sample_dec ?addr None ?evs ?sv = Some (Some (Inr ()), outs, sv1)"
    using start by blast
  then have "zhtserver_main sample_enc sample_dec fs args db 0 9 [5] None ?evs = Some (Inr (outs, wind_up args db 9 [5] sv1))"
    using config store
    by (simp add: zhtserver_main_def args_def check_protocol_def PROTO_VAL_TCP_def Let_def)
  moreover obtain snap sv where "wind_up args db 9 [5] sv1 = (snap, sv)"
    by (cases "wind_up args db 9 [5] sv1")
  ultimately have main: "zhtserver_main sample_enc sample_dec fs args db 0 9 [5] None ?evs = Some (Inr (outs, snap, sv))"
    by simp
  have "sa_db_file args = Some ''db''" "db_flush_io db = Io_Ok"
    by (simp_all add: args_def db_def)
  from server_forgets_writes [OF this main] main show ?thesis by blast
qed

end
