(* ===== verification/Transport_Metrics.thy ===== *)
theory Transport_Metrics
  imports Rust_Num
begin

text \<open>
  \<open>zht-transport/src/metrics.rs\<close>: the transport counters. Each is an atomic 64-bit word, so an
  increment wraps and no increment is lost. The time of creation is left out, and a snapshot is
  given the time elapsed since; nothing but the uptime it prints depends on it.
\<close>

record transport_metrics =
  tm_messages_sent :: u64
  tm_messages_received :: u64
  tm_bytes_sent :: u64
  tm_bytes_received :: u64
  tm_active_connections :: u64
  tm_connections_opened :: u64
  tm_connections_closed :: u64
  tm_send_errors :: u64
  tm_recv_errors :: u64
  tm_reconnections :: u64
  tm_connections_accepted :: u64
  tm_requests_processed :: u64
  tm_unknown_opcodes :: u64
  tm_chunks_sent :: u64
  tm_chunks_received :: u64

definition TransportMetrics_new :: transport_metrics where
  "TransportMetrics_new =
     \<lparr>tm_messages_sent = 0,
      tm_messages_received = 0,
      tm_bytes_sent = 0,
      tm_bytes_received = 0,
      tm_active_connections = 0,
      tm_connections_opened = 0,
      tm_connections_closed = 0,
      tm_send_errors = 0,
      tm_recv_errors = 0,
      tm_reconnections = 0,
      tm_connections_accepted = 0,
      tm_requests_processed = 0,
      tm_unknown_opcodes = 0,
      tm_chunks_sent = 0,
      tm_chunks_received = 0\<rparr>"

section \<open>Operations\<close>

definition inc_messages_sent :: "transport_metrics \<Rightarrow> transport_metrics" where
  "inc_messages_sent m = m\<lparr>tm_messages_sent := tm_messages_sent m + 1\<rparr>"

definition inc_messages_received :: "transport_metrics \<Rightarrow> transport_metrics" where
  "inc_messages_received m = m\<lparr>tm_messages_received := tm_messages_received m + 1\<rparr>"

definition add_bytes_sent :: "u64 \<Rightarrow> transport_metrics \<Rightarrow> transport_metrics" where
  "add_bytes_sent n m = m\<lparr>tm_bytes_sent := tm_bytes_sent m + n\<rparr>"

definition add_bytes_received :: "u64 \<Rightarrow> transport_metrics \<Rightarrow> transport_metrics" where
  "add_bytes_received n m = m\<lparr>tm_bytes_received := tm_bytes_received m + n\<rparr>"

definition inc_send_errors :: "transport_metrics \<Rightarrow> transport_metrics" where
  "inc_send_errors m = m\<lparr>tm_send_errors := tm_send_errors m + 1\<rparr>"

definition inc_recv_errors :: "transport_metrics \<Rightarrow> transport_metrics" where
  "inc_recv_errors m = m\<lparr>tm_recv_errors := tm_recv_errors m + 1\<rparr>"

definition inc_active_connections :: "transport_metrics \<Rightarrow> transport_metrics" where
  "inc_active_connections m =
     m\<lparr>tm_active_connections := tm_active_connections m + 1,
       tm_connections_opened := tm_connections_opened m + 1\<rparr>"

definition dec_active_connections :: "transport_metrics \<Rightarrow> transport_metrics" where
  "dec_active_connections m =
     m\<lparr>tm_active_connections := tm_active_connections m - 1,
       tm_connections_closed := tm_connections_closed m + 1\<rparr>"

definition inc_reconnections :: "transport_metrics \<Rightarrow> transport_metrics" where
  "inc_reconnections m = m\<lparr>tm_reconnections := tm_reconnections m + 1\<rparr>"

definition set_active_connections :: "u64 \<Rightarrow> transport_metrics \<Rightarrow> transport_metrics" where
  "set_active_connections n m = m\<lparr>tm_active_connections := n\<rparr>"

definition inc_connections_accepted :: "transport_metrics \<Rightarrow> transport_metrics" where
  "inc_connections_accepted m = m\<lparr>tm_connections_accepted := tm_connections_accepted m + 1\<rparr>"

definition inc_requests_processed :: "transport_metrics \<Rightarrow> transport_metrics" where
  "inc_requests_processed m = m\<lparr>tm_requests_processed := tm_requests_processed m + 1\<rparr>"

definition inc_unknown_opcodes :: "transport_metrics \<Rightarrow> transport_metrics" where
  "inc_unknown_opcodes m = m\<lparr>tm_unknown_opcodes := tm_unknown_opcodes m + 1\<rparr>"

definition inc_chunks_sent :: "transport_metrics \<Rightarrow> transport_metrics" where
  "inc_chunks_sent m = m\<lparr>tm_chunks_sent := tm_chunks_sent m + 1\<rparr>"

definition inc_chunks_received :: "transport_metrics \<Rightarrow> transport_metrics" where
  "inc_chunks_received m = m\<lparr>tm_chunks_received := tm_chunks_received m + 1\<rparr>"

record metrics_snapshot =
  ts_messages_sent :: u64
  ts_messages_received :: u64
  ts_bytes_sent :: u64
  ts_bytes_received :: u64
  ts_active_connections :: u64
  ts_connections_opened :: u64
  ts_connections_closed :: u64
  ts_send_errors :: u64
  ts_recv_errors :: u64
  ts_reconnections :: u64
  ts_connections_accepted :: u64
  ts_requests_processed :: u64
  ts_unknown_opcodes :: u64
  ts_chunks_sent :: u64
  ts_chunks_received :: u64
  ts_elapsed :: nat

definition tm_snapshot :: "nat \<Rightarrow> transport_metrics \<Rightarrow> metrics_snapshot" where
  "tm_snapshot elapsed m =
     \<lparr>ts_messages_sent = tm_messages_sent m,
      ts_messages_received = tm_messages_received m,
      ts_bytes_sent = tm_bytes_sent m,
      ts_bytes_received = tm_bytes_received m,
      ts_active_connections = tm_active_connections m,
      ts_connections_opened = tm_connections_opened m,
      ts_connections_closed = tm_connections_closed m,
      ts_send_errors = tm_send_errors m,
      ts_recv_errors = tm_recv_errors m,
      ts_reconnections = tm_reconnections m,
      ts_connections_accepted = tm_connections_accepted m,
      ts_requests_processed = tm_requests_processed m,
      ts_unknown_opcodes = tm_unknown_opcodes m,
      ts_chunks_sent = tm_chunks_sent m,
      ts_chunks_received = tm_chunks_received m,
      ts_elapsed = elapsed\<rparr>"

definition metrics_reset :: "transport_metrics \<Rightarrow> transport_metrics" where
  "metrics_reset m =
     m\<lparr>tm_messages_sent := 0,
       tm_messages_received := 0,
       tm_bytes_sent := 0,
       tm_bytes_received := 0,
       tm_active_connections := 0,
       tm_connections_opened := 0,
       tm_connections_closed := 0,
       tm_send_errors := 0,
       tm_recv_errors := 0,
       tm_reconnections := 0,
       tm_connections_accepted := 0,
       tm_requests_processed := 0,
       tm_unknown_opcodes := 0,
       tm_chunks_sent := 0,
       tm_chunks_received := 0\<rparr>"

text \<open>The report of a snapshot; \<open>uptime\<close> is the elapsed time printed with one decimal.\<close>

definition show_snapshot :: "string \<Rightarrow> metrics_snapshot \<Rightarrow> string" where
  "show_snapshot uptime t =
     (let num = (\<lambda>c :: u64. show_nat (unat c)) in
      ''Transport Metrics (uptime: '' @ uptime @ ''s)'' @ [LF] @
      ''  Messages: '' @ num (ts_messages_sent t) @ '' sent / '' @ num (ts_messages_received t) @ '' received'' @ [LF] @
      ''  Bytes: '' @ num (ts_bytes_sent t) @ '' sent / '' @ num (ts_bytes_received t) @ '' received'' @ [LF] @
      ''  Connections: '' @ num (ts_active_connections t) @ '' active / '' @ num (ts_connections_opened t)
        @ '' opened / '' @ num (ts_connections_closed t) @ '' closed'' @ [LF] @
      ''  Errors: '' @ num (ts_send_errors t) @ '' send / '' @ num (ts_recv_errors t) @ '' recv'' @ [LF] @
      (if 0 < ts_reconnections t then ''  Reconnections: '' @ num (ts_reconnections t) @ [LF] else []) @
      (if 0 < ts_connections_accepted t
       then ''  Server accepted: '' @ num (ts_connections_accepted t) @ '' connections / ''
         @ num (ts_requests_processed t) @ '' requests processed'' @ [LF] else []) @
      (if 0 < ts_chunks_sent t \<or> 0 < ts_chunks_received t
       then ''  Chunks: '' @ num (ts_chunks_sent t) @ '' sent / '' @ num (ts_chunks_received t) @ '' received'' @ [LF]
       else []))"

section \<open>The open connections\<close>

text \<open>
  Opened less closed is active: every operation keeps it but setting the active count. A reset
  keeps it too, since it clears all three.
\<close>

definition connections_balanced :: "transport_metrics \<Rightarrow> bool" where
  "connections_balanced m \<longleftrightarrow>
     tm_active_connections m = tm_connections_opened m - tm_connections_closed m"

lemma balanced_keep:
  "connections_balanced TransportMetrics_new"
  "connections_balanced (metrics_reset m)"
  "connections_balanced m \<Longrightarrow> connections_balanced (inc_active_connections m)"
  "connections_balanced m \<Longrightarrow> connections_balanced (dec_active_connections m)"
  by (simp_all add: connections_balanced_def TransportMetrics_new_def metrics_reset_def
      inc_active_connections_def dec_active_connections_def algebra_simps)

text \<open>A snapshot shows every counter: two of the same time agree when the counters do, and only then.\<close>

lemma snapshot_complete: "tm_snapshot t m = tm_snapshot t m' \<longleftrightarrow> m = m'"
  by (cases m; cases m') (auto simp: tm_snapshot_def)

lemma metrics_reset_new: "metrics_reset m = TransportMetrics_new"
  by (cases m) (simp add: metrics_reset_def TransportMetrics_new_def)

end
