(* ===== verification/Request_Handler.thy ===== *)
theory Request_Handler
  imports Worker_Spec
begin

text \<open>
  The trait \<open>RequestHandler\<close> of \<open>zht-transport/src/traits.rs\<close>, between the servers of \<open>tcp.rs\<close> and
  \<open>udp.rs\<close> and what answers the requests, and \<open>WorkerHandler\<close>, which hands them to an \<open>HTWorker\<close>. What a
  server may rely on is the locale \<open>request_handler\<close>: behind the handler is a map.
\<close>

text \<open>A handler has a state, and may never answer.\<close>

type_synonym 'h handler = "zpack \<Rightarrow> 'h \<Rightarrow> (zpack \<times> 'h) option"

text \<open>The state counts the requests, as each finds surroundings of its own.\<close>

record worker_handler =
  wh_seen :: nat
  wh_worker :: htworker

definition WorkerHandler_new :: "htworker \<Rightarrow> worker_handler" where
  "WorkerHandler_new w = \<lparr>wh_seen = 0, wh_worker = w\<rparr>"

definition WorkerHandler_handle :: "(nat \<Rightarrow> serve_env) \<Rightarrow> worker_handler handler" where
  "WorkerHandler_handle envs request wh =
     map_option (\<lambda>(response, w). (response, \<lparr>wh_seen = Suc (wh_seen wh), wh_worker = w\<rparr>))
       (process (envs (wh_seen wh)) request (wh_worker wh))"

locale request_handler =
  fixes handle :: "zpack \<Rightarrow> 'h \<Rightarrow> (zpack \<times> 'h) option"
    and stored :: "'h \<Rightarrow> (string \<rightharpoonup> string)"
    and sound :: "'h \<Rightarrow> bool"
  assumes handles:
    "sound h \<Longrightarrow> \<not> is_sccb req \<Longrightarrow>
     \<exists>h'. handle req h = Some (fst (node_answer req (stored h)), h') \<and> sound h' \<and>
       stored h' = snd (node_answer req (stored h))"

definition wh_map :: "worker_handler \<Rightarrow> (string \<rightharpoonup> string)" where
  "wh_map wh = node_map (wh_worker wh)"

definition wh_wf :: "worker_handler \<Rightarrow> bool" where
  "wh_wf wh \<longleftrightarrow> node_wf (wh_worker wh)"

interpretation worker_handler: request_handler "WorkerHandler_handle envs" wh_map wh_wf for envs
proof unfold_locales
  fix wh :: worker_handler and req
  assume wf: "wh_wf wh" and req: "\<not> is_sccb req"
  obtain w where p: "process (envs (wh_seen wh)) req (wh_worker wh)
        = Some (fst (node_answer req (node_map (wh_worker wh))), w)"
    and w: "node_map w = snd (node_answer req (node_map (wh_worker wh)))"
      "node_wf (wh_worker wh) \<Longrightarrow> node_wf w"
    using process_refines [OF req] by metis
  have "WorkerHandler_handle envs req wh
      = Some (fst (node_answer req (wh_map wh)), \<lparr>wh_seen = Suc (wh_seen wh), wh_worker = w\<rparr>)"
    by (simp add: WorkerHandler_handle_def wh_map_def p)
  with w wf show "\<exists>h'. WorkerHandler_handle envs req wh = Some (fst (node_answer req (wh_map wh)), h') \<and>
      wh_wf h' \<and> wh_map h' = snd (node_answer req (wh_map wh))"
    by (simp add: wh_map_def wh_wf_def)
qed

end
