(* ===== verification/Framing.thy ===== *)
theory Framing
  imports Wire
begin

text \<open>
  \<open>zht-transport/src/framing.rs\<close>, whose \<open>encode_message\<close> and \<open>decode_message\<close> the transports of
  \<open>tcp.rs\<close> and \<open>udp.rs\<close> import, and \<open>recv_raw\<close> of \<open>tcp.rs\<close>. Each is written again here from its own
  source and shown to be the function of \<open>lib.rs\<close> (\<open>Wire\<close>), so the two ends of a connection agree
  whichever of the two they were built with.
\<close>

definition framing_encode_message :: "encoder \<Rightarrow> zpack \<Rightarrow> u8 list" where
  "framing_encode_message enc zpack =
     (let msg_bytes = enc zpack;
          len = of_nat (length msg_bytes) :: u32;
          buf = to_be_bytes len
      in buf @ msg_bytes)"

definition framing_decode_message :: "decoder \<Rightarrow> u8 list \<Rightarrow> (zpack \<times> u8 list) zht_result" where
  "framing_decode_message dec buf =
     (if length buf < 4
      then Inl (RecvFailed ''Message too short: need at least 4 bytes for length prefix'')
      else
        let len = unat (from_be_bytes (buf ! 0) (buf ! 1) (buf ! 2) (buf ! 3)) in
        if length buf < 4 + len
        then Inl (RecvFailed (''Incomplete message: expected '' @ show_nat (4 + len)
          @ '' bytes, got '' @ show_nat (length buf)))
        else
          case dec (take len (drop 4 buf)) of
            Inl e \<Rightarrow> Inl (ProtobufDecodeError e)
          | Inr zpack \<Rightarrow> Inr (zpack, drop (4 + len) buf))"

definition framing_send_message ::
  "encoder \<Rightarrow> wio \<Rightarrow> zpack \<Rightarrow> u8 list \<Rightarrow> unit zht_result \<times> u8 list"
where
  "framing_send_message enc w zpack out =
     (let data = framing_encode_message enc zpack in
      case w of
        Wio_Write_Err n e \<Rightarrow> (Inl (SendFailed e), out @ take n data)
      | Wio_Flush_Err e \<Rightarrow> (Inl (SendFailed e), out @ data)
      | Wio_Ok \<Rightarrow> (Inr (), out @ data))"

definition framing_recv_message :: "decoder \<Rightarrow> rstream \<Rightarrow> zpack zht_result \<times> rstream" where
  "framing_recv_message dec stream =
     (case read_exact 4 stream of
        (Inl e, s1) \<Rightarrow> (Inl (RecvFailed e), s1)
      | (Inr len_buf, s1) \<Rightarrow>
          let len = unat (from_be_bytes (len_buf ! 0) (len_buf ! 1) (len_buf ! 2) (len_buf ! 3)) in
          (case read_exact len s1 of
             (Inl e, s2) \<Rightarrow> (Inl (RecvFailed e), s2)
           | (Inr msg_buf, s2) \<Rightarrow> (map_sum ProtobufDecodeError id (dec msg_buf), s2)))"

definition recv_raw :: "decoder \<Rightarrow> rstream \<Rightarrow> zpack zht_result \<times> rstream" where
  "recv_raw dec stream =
     (case read_exact 4 stream of
        (Inl e, s1) \<Rightarrow> (Inl (RecvFailed e), s1)
      | (Inr len_buf, s1) \<Rightarrow>
          let len = unat (from_be_bytes (len_buf ! 0) (len_buf ! 1) (len_buf ! 2) (len_buf ! 3)) in
          (case read_exact len s1 of
             (Inl e, s2) \<Rightarrow> (Inl (RecvFailed e), s2)
           | (Inr buf, s2) \<Rightarrow> (map_sum ProtobufDecodeError id (dec buf), s2)))"

section \<open>They are the functions of lib.rs\<close>

lemma framing_encode [simp]: "framing_encode_message = encode_message"
  by (intro ext) (simp add: framing_encode_message_def encode_message_def Let_def)

lemma framing_decode [simp]: "framing_decode_message = decode_message"
  by (intro ext) (simp add: framing_decode_message_def decode_message_def frame_len_def too_short_msg_def
      incomplete_msg_def Let_def)

lemma framing_send [simp]: "framing_send_message = send_message"
  by (intro ext) (simp add: framing_send_message_def send_message_def Let_def split: wio.split)

lemma framing_recv [simp]: "framing_recv_message = recv_message"
  by (intro ext)
    (auto simp: framing_recv_message_def recv_message_def frame_len_def Let_def split: prod.splits sum.splits)

lemma recv_raw_framing [simp]: "recv_raw = recv_message"
  by (intro ext)
    (auto simp: recv_raw_def recv_message_def frame_len_def Let_def split: prod.splits sum.splits)

text \<open>
  A message cut off anywhere is refused, and for which of the two reasons; of what follows a
  whole one nothing is lost.
\<close>

lemma framing_boundaries:
  assumes "clean_codec enc dec z" "n \<le> length (framing_encode_message enc z)"
  shows "framing_decode_message dec (take n (framing_encode_message enc z)) =
     (if n = length (framing_encode_message enc z) then Inr (z, [])
      else Inl (RecvFailed (if n < 4 then too_short_msg else incomplete_msg (4 + length (enc z)) n)))"
  using assms decode_encode [of enc z dec "[]"] decode_prefix [of enc z n dec]
  by (simp add: clean_codec_def)

end
