(* ===== verification/Tcp_Pool.thy ===== *)
theory Tcp_Pool
  imports Tcp_Proxy Transport_Metrics Request_Handler Socket_Addr Framing
begin

text \<open>
  \<open>zht-transport/src/tcp.rs\<close>: the other TCP transport, with a pool that recycles its connections
  and counts them in \<open>TransportMetrics\<close>, and a server that polls a shutdown flag. The network
  during one call is an argument. Clock readings are nanoseconds.
\<close>

section \<open>The pool\<close>

definition MAX_IDLE :: nat where "MAX_IDLE = 300 * 10 ^ 9"
definition MAX_OPS :: u64 where "MAX_OPS = 10000"

record pooled_conn =
  pc_stream :: rstream
  pc_last_used :: nat
  pc_ops :: u64

definition PooledConn_new :: "nat \<Rightarrow> rstream \<Rightarrow> pooled_conn" where
  "PooledConn_new now s = \<lparr>pc_stream = s, pc_last_used = now, pc_ops = 0\<rparr>"

definition pc_touch :: "nat \<Rightarrow> pooled_conn \<Rightarrow> pooled_conn" where
  "pc_touch now c = c\<lparr>pc_last_used := now, pc_ops := pc_ops c + 1\<rparr>"

record tcp_pool =
  tl_conns :: "(string, pooled_conn) hashmap"
  tl_metrics :: transport_metrics
  tl_wire :: "(string \<times> u8 list) list"

definition tl_with_metrics :: "transport_metrics \<Rightarrow> tcp_pool" where
  "tl_with_metrics m = \<lparr>tl_conns = [], tl_metrics = m, tl_wire = []\<rparr>"

definition tl_new :: tcp_pool where
  "tl_new = tl_with_metrics TransportMetrics_new"

text \<open>What connecting, the socket option, writing and reading do, and the clock.\<close>

record pool_env =
  pe_connect :: "string + rstream"
  pe_nodelay_err :: "string option"
  pe_send :: wio
  pe_reply :: rstream
  pe_now :: "nat \<Rightarrow> nat"

definition tl_count :: "(transport_metrics \<Rightarrow> transport_metrics) \<Rightarrow> tcp_pool \<Rightarrow> tcp_pool" where
  "tl_count f pl = pl\<lparr>tl_metrics := f (tl_metrics pl)\<rparr>"

definition tl_put :: "string \<Rightarrow> pooled_conn \<Rightarrow> tcp_pool \<Rightarrow> tcp_pool" where
  "tl_put key c pl = pl\<lparr>tl_conns := hm_insert key c (tl_conns pl)\<rparr>"

definition tl_connect :: "pool_env \<Rightarrow> string \<Rightarrow> u16 \<Rightarrow> tcp_pool \<Rightarrow> rstream zht_result \<times> tcp_pool" where
  "tl_connect env host port pl =
     (case parse_socket_addr (gen_base host port) of
        Inl e \<Rightarrow> (Inl (ConnectionFailed host port (''Invalid addr: '' @ e)), pl)
      | Inr addr \<Rightarrow>
     (case pe_connect env of
        Inl e \<Rightarrow> (Inl (ConnectionFailed host port e), pl)
      | Inr s \<Rightarrow>
     (case pe_nodelay_err env of
        Some e \<Rightarrow> (Inl (ConnectionFailed host port (''TCP_NODELAY: '' @ e)), pl)
      | None \<Rightarrow> (Inr s, tl_count inc_active_connections pl))))"

definition worn :: "nat \<Rightarrow> pooled_conn \<Rightarrow> bool" where
  "worn now c \<longleftrightarrow> MAX_IDLE < now - pc_last_used c \<or> MAX_OPS \<le> pc_ops c"

definition get_or_create :: "pool_env \<Rightarrow> string \<Rightarrow> u16 \<Rightarrow> tcp_pool \<Rightarrow> unit zht_result \<times> tcp_pool" where
  "get_or_create env host port pl =
     (let key = gen_base host port;
          store = (\<lambda>pl1. case tl_connect env host port pl1 of
             (Inl e, pl2) \<Rightarrow> (Inl e, pl2)
           | (Inr s, pl2) \<Rightarrow> (Inr (), tl_put key (PooledConn_new (pe_now env 0) s) pl2))
      in case hm_get (tl_conns pl) key of
           Some c \<Rightarrow>
             if worn (pe_now env 0) c
             then store (tl_count (inc_reconnections \<circ> dec_active_connections) pl)
             else (Inr (), pl)
         | None \<Rightarrow> store pl)"

definition tl_remove_conn :: "string \<Rightarrow> u16 \<Rightarrow> tcp_pool \<Rightarrow> tcp_pool" where
  "tl_remove_conn host port pl =
     (let key = gen_base host port; pl1 = pl\<lparr>tl_conns := hm_remove key (tl_conns pl)\<rparr>
      in if hm_contains (tl_conns pl) key then tl_count dec_active_connections pl1 else pl1)"

text \<open>Sending on a connection of the pool; what was written is recorded.\<close>

definition tl_send_raw ::
  "encoder \<Rightarrow> pool_env \<Rightarrow> string \<Rightarrow> zpack \<Rightarrow> tcp_pool \<Rightarrow> unit zht_result \<times> tcp_pool"
where
  "tl_send_raw enc env key z pl =
     (let sent = send_message enc (pe_send env) z []
      in (fst sent, pl\<lparr>tl_wire := tl_wire pl @ [(key, snd sent)]\<rparr>))"

text \<open>None is the panic of \<open>unwrap\<close> on a connection that is not there.\<close>

definition tl_sendrecv ::
  "encoder \<Rightarrow> decoder \<Rightarrow> pool_env \<Rightarrow> string \<Rightarrow> u16 \<Rightarrow> zpack \<Rightarrow> tcp_pool
    \<Rightarrow> (zpack zht_result \<times> tcp_pool) option"
where
  "tl_sendrecv enc dec env host port request pl =
     (case get_or_create env host port pl of
        (Inl e, pl1) \<Rightarrow> Some (Inl e, pl1)
      | (Inr _, pl1) \<Rightarrow>
     (let key = gen_base host port in
      case hm_get (tl_conns pl1) key of
        None \<Rightarrow> None
      | Some conn \<Rightarrow>
     (case tl_send_raw enc env key request pl1 of
        (Inl e, pl2) \<Rightarrow> Some (Inl e, tl_remove_conn host port (tl_count inc_send_errors pl2))
      | (Inr _, pl2) \<Rightarrow>
          let conn1 = pc_touch (pe_now env 1) conn;
              pl3 = tl_count inc_messages_sent (tl_put key conn1 pl2)
          in (case recv_raw dec (arrives (pe_reply env) (pc_stream conn1)) of
                (Inr r, s) \<Rightarrow>
                  Some (Inr r, tl_count inc_messages_received
                    (tl_put key (pc_touch (pe_now env 2) (conn1\<lparr>pc_stream := s\<rparr>)) pl3))
              | (Inl e, s) \<Rightarrow> Some (Inl e, tl_remove_conn host port (tl_count inc_recv_errors pl3))))))"

definition tl_send_only ::
  "encoder \<Rightarrow> pool_env \<Rightarrow> string \<Rightarrow> u16 \<Rightarrow> zpack \<Rightarrow> tcp_pool \<Rightarrow> (unit zht_result \<times> tcp_pool) option"
where
  "tl_send_only enc env host port request pl =
     (case get_or_create env host port pl of
        (Inl e, pl1) \<Rightarrow> Some (Inl e, pl1)
      | (Inr _, pl1) \<Rightarrow>
     (let key = gen_base host port in
      case hm_get (tl_conns pl1) key of
        None \<Rightarrow> None
      | Some conn \<Rightarrow>
     (case tl_send_raw enc env key request pl1 of
        (Inl e, pl2) \<Rightarrow> Some (Inl e, pl2)
      | (Inr _, pl2) \<Rightarrow>
          Some (Inr (), tl_count inc_messages_sent (tl_put key (pc_touch (pe_now env 1) conn) pl2)))))"

definition tl_close_connection :: "string \<Rightarrow> u16 \<Rightarrow> tcp_pool \<Rightarrow> tcp_pool" where
  "tl_close_connection host port pl = tl_remove_conn host port pl"

definition tl_close_all :: "tcp_pool \<Rightarrow> tcp_pool" where
  "tl_close_all pl =
     tl_count (dec_active_connections ^^ length (tl_conns pl)) (pl\<lparr>tl_conns := []\<rparr>)"

definition tl_connection_count :: "tcp_pool \<Rightarrow> nat" where
  "tl_connection_count pl = length (tl_conns pl)"

section \<open>The server\<close>

text \<open>
  A connection's handler: each round finds the shutdown, or waits thirty seconds for a message
  in vain, having read \<open>n\<close> bytes of one, which the dropped read takes with it, or reads one; its
  answer is then written as \<open>wio\<close> says.
\<close>

datatype conn_event = Ce_Shutdown | Ce_Timeout nat | Ce_Recv wio

record 'h served =
  sd_handler :: 'h
  sd_metrics :: transport_metrics
  sd_out :: "u8 list"

definition sd_count :: "(transport_metrics \<Rightarrow> transport_metrics) \<Rightarrow> 'h served \<Rightarrow> 'h served" where
  "sd_count f sd = sd\<lparr>sd_metrics := f (sd_metrics sd)\<rparr>"

fun conn_rounds ::
  "encoder \<Rightarrow> decoder \<Rightarrow> 'h handler \<Rightarrow> conn_event list \<Rightarrow> rstream \<Rightarrow> 'h served \<Rightarrow> (bool \<times> 'h served) option"
where
  "conn_rounds enc dec handle [] s sd = Some (False, sd)"
| "conn_rounds enc dec handle (Ce_Shutdown # evs) s sd = Some (True, sd)"
| "conn_rounds enc dec handle (Ce_Timeout n # evs) s sd =
     conn_rounds enc dec handle evs (s\<lparr>rs_bytes := drop n (rs_bytes s)\<rparr>) sd"
| "conn_rounds enc dec handle (Ce_Recv wr # evs) s sd =
     (case recv_raw dec s of
        (Inl e, _) \<Rightarrow> Some (True, sd)
      | (Inr request, s1) \<Rightarrow>
          (case handle request (sd_handler sd) of
             None \<Rightarrow> None
           | Some (response, h) \<Rightarrow>
               let sent = send_message enc wr response (sd_out sd);
                   sd1 = sd_count inc_requests_processed (sd\<lparr>sd_handler := h, sd_out := snd sent\<rparr>)
               in (case fst sent of
                     Inl _ \<Rightarrow> Some (True, sd_count inc_send_errors sd1)
                   | Inr _ \<Rightarrow> conn_rounds enc dec handle evs s1 sd1)))"

definition handle_conn ::
  "encoder \<Rightarrow> decoder \<Rightarrow> 'h handler \<Rightarrow> socket_addr \<Rightarrow> string option \<Rightarrow> conn_event list \<Rightarrow> rstream
    \<Rightarrow> 'h served \<Rightarrow> (unit zht_result option \<times> 'h served) option"
where
  "handle_conn enc dec handle peer nodelay_err evs s sd =
     (case nodelay_err of
        Some e \<Rightarrow> Some (Some (Inl (ConnectionFailed (show_ip peer) (addr_port peer) (''TCP_NODELAY: '' @ e))), sd)
      | None \<Rightarrow>
          map_option (\<lambda>(ended, sd1). (if ended then Some (Inr ()) else None, sd1))
            (conn_rounds enc dec handle evs s sd))"

text \<open>
  The accept loop: a round finds the shutdown, a connection, an error, which it only logs, or
  nothing for a tenth of a second. It hands the connections it accepts to handlers.
\<close>

datatype 'c accept_event = Ae_Shutdown | Ae_Accept 'c | Ae_Error string | Ae_Idle

fun accept_rounds ::
  "'c accept_event list \<Rightarrow> transport_metrics \<Rightarrow> bool \<times> 'c list \<times> transport_metrics"
where
  "accept_rounds [] m = (False, [], m)"
| "accept_rounds (Ae_Shutdown # evs) m = (True, [], m)"
| "accept_rounds (Ae_Accept c # evs) m =
     (let (stopped, cs, m1) = accept_rounds evs (inc_connections_accepted m) in (stopped, c # cs, m1))"
| "accept_rounds (Ae_Error e # evs) m = accept_rounds evs m"
| "accept_rounds (Ae_Idle # evs) m = accept_rounds evs m"

definition tcp_bind :: "socket_addr \<Rightarrow> string option \<Rightarrow> unit zht_result" where
  "tcp_bind addr bind_err =
     (case bind_err of Some e \<Rightarrow> Inl (ConnectionFailed (show_ip addr) (addr_port addr) e) | None \<Rightarrow> Inr ())"

definition tcp_run ::
  "socket_addr \<Rightarrow> string option \<Rightarrow> string + socket_addr \<Rightarrow> 'c accept_event list \<Rightarrow> transport_metrics
    \<Rightarrow> socket_addr zht_result option \<times> 'c list \<times> transport_metrics"
where
  "tcp_run addr bind_err local_addr evs m =
     (case tcp_bind addr bind_err of
        Inl e \<Rightarrow> (Some (Inl e), [], m)
      | Inr _ \<Rightarrow>
     (case local_addr of
        Inl e \<Rightarrow> (Some (Inl (ConnectionFailed (show_ip addr) (addr_port addr) e)), [], m)
      | Inr bound \<Rightarrow>
          let (stopped, cs, m1) = accept_rounds evs m
          in (if stopped then Some (Inr bound) else None, cs, m1)))"

text \<open>
  \<open>run_server\<close>: the server with a shutdown that nobody triggers, so it ends with the error of its
  set-up or not at all. Its adapter hands requests to the worker as \<open>WorkerHandler\<close> does.
\<close>

definition tcp_run_server ::
  "socket_addr \<Rightarrow> string option \<Rightarrow> string + socket_addr \<Rightarrow> 'c accept_event list
    \<Rightarrow> unit zht_result option \<times> 'c list"
where
  "tcp_run_server addr bind_err local_addr evs =
     (let untriggered = filter (\<lambda>ev. case ev of Ae_Shutdown \<Rightarrow> False | _ \<Rightarrow> True) evs;
          (r, cs, m) = tcp_run addr bind_err local_addr untriggered TransportMetrics_new
      in (map_option (map_sum id (\<lambda>_. ())) r, cs))"

lemma run_server_serves_on:
  "tcp_run_server addr None (Inr bound) evs = (None, snd (tcp_run_server addr None (Inr bound) evs))"
proof -
  have "fst (accept_rounds (filter (\<lambda>ev. case ev of Ae_Shutdown \<Rightarrow> False | _ \<Rightarrow> True) evs) m) = False" for m
    by (induction evs arbitrary: m) (auto simp: Let_def case_prod_unfold split: accept_event.split)
  then show ?thesis by (simp add: tcp_run_server_def tcp_run_def tcp_bind_def case_prod_unfold Let_def)
qed

section \<open>What the gauge counts\<close>

text \<open>How far the gauge of active connections is below the number of pooled ones.\<close>

definition gauge_gap :: "tcp_pool \<Rightarrow> u64" where
  "gauge_gap pl = of_nat (length (tl_conns pl)) - tm_active_connections (tl_metrics pl)"

text \<open>A worn connection that cannot be replaced: it was counted as closed, but stays in the pool.\<close>

definition recycle_fails :: "pool_env \<Rightarrow> string \<Rightarrow> u16 \<Rightarrow> tcp_pool \<Rightarrow> bool" where
  "recycle_fails env host port pl \<longleftrightarrow>
     (case hm_get (tl_conns pl) (gen_base host port) of
        None \<Rightarrow> False
      | Some c \<Rightarrow> worn (pe_now env 0) c \<and> isl (fst (tl_connect env host port pl)))"

lemma active_kept [simp]:
  "tm_active_connections (inc_messages_sent m) = tm_active_connections m"
  "tm_active_connections (inc_messages_received m) = tm_active_connections m"
  "tm_active_connections (inc_send_errors m) = tm_active_connections m"
  "tm_active_connections (inc_recv_errors m) = tm_active_connections m"
  "tm_active_connections (inc_reconnections m) = tm_active_connections m"
  "tm_active_connections (inc_active_connections m) = tm_active_connections m + 1"
  "tm_active_connections (dec_active_connections m) = tm_active_connections m - 1"
  by (simp_all add: inc_messages_sent_def inc_messages_received_def inc_send_errors_def inc_recv_errors_def
      inc_reconnections_def inc_active_connections_def dec_active_connections_def)

lemma tl_fields [simp]:
  "tl_conns (tl_count f pl) = tl_conns pl" "tl_metrics (tl_count f pl) = f (tl_metrics pl)"
  "tl_conns (tl_put key c pl) = hm_insert key c (tl_conns pl)" "tl_metrics (tl_put key c pl) = tl_metrics pl"
  "tl_conns (snd (tl_send_raw enc env key z pl)) = tl_conns pl"
  "tl_metrics (snd (tl_send_raw enc env key z pl)) = tl_metrics pl"
  by (simp_all add: tl_count_def tl_put_def tl_send_raw_def Let_def)

lemma gap_put_old [simp]:
  "hm_wf (tl_conns pl) \<Longrightarrow> hm_get (tl_conns pl) key = Some c' \<Longrightarrow> gauge_gap (tl_put key c pl) = gauge_gap pl"
  by (simp add: gauge_gap_def hm.len_insert)

lemma gap_put_new:
  "hm_wf (tl_conns pl) \<Longrightarrow> hm_get (tl_conns pl) key = None \<Longrightarrow> gauge_gap (tl_put key c pl) = gauge_gap pl + 1"
  by (simp add: gauge_gap_def hm.len_insert)

lemma gap_count:
  "gauge_gap (tl_count f pl) =
     gauge_gap pl + tm_active_connections (tl_metrics pl) - tm_active_connections (f (tl_metrics pl))"
  by (simp add: gauge_gap_def)

lemma gap_remove [simp]:
  assumes "hm_wf (tl_conns pl)"
  shows "gauge_gap (tl_remove_conn host port pl) = gauge_gap pl"
    and "hm_wf (tl_conns (tl_remove_conn host port pl))"
proof -
  let ?key = "gen_base host port"
  have pos: "0 < length (tl_conns pl)" if "hm_get (tl_conns pl) ?key \<noteq> None"
    using that by (cases "tl_conns pl") simp_all
  show "gauge_gap (tl_remove_conn host port pl) = gauge_gap pl"
    using pos by (simp add: gauge_gap_def tl_remove_conn_def Let_def hm_contains_def
        hm.len_remove [OF assms] of_nat_diff Suc_leI)
  show "hm_wf (tl_conns (tl_remove_conn host port pl))"
    using assms by (simp add: tl_remove_conn_def Let_def)
qed

lemma tl_connect_cases:
  obtains e where "tl_connect env host port pl = (Inl e, pl)" "isl (fst (tl_connect env host port pl'))"
  | s where "tl_connect env host port pl = (Inr s, tl_count inc_active_connections pl)"
    "\<not> isl (fst (tl_connect env host port pl'))"
  by (cases "parse_socket_addr (gen_base host port)"; cases "pe_connect env"; cases "pe_nodelay_err env")
    (auto simp: tl_connect_def)

text \<open>After \<open>get_or_create\<close> the connection is there, or the call failed.\<close>

lemma get_or_create_gap:
  assumes "hm_wf (tl_conns pl)" "get_or_create env host port pl = (r, pl1)"
  shows "hm_wf (tl_conns pl1) \<and> gauge_gap pl1 = gauge_gap pl + of_bool (recycle_fails env host port pl) \<and>
     (r = Inr () \<longrightarrow> hm_get (tl_conns pl1) (gen_base host port) \<noteq> None)"
proof -
  let ?key = "gen_base host port" and ?f = "inc_reconnections \<circ> dec_active_connections"
  show ?thesis
  proof (cases "hm_get (tl_conns pl) ?key")
    case None
    show ?thesis
      using assms None by (cases rule: tl_connect_cases [of env host port pl pl])
        (auto simp: get_or_create_def Let_def recycle_fails_def gap_put_new gap_count)
  next
    case (Some c)
    show ?thesis
      using assms Some by (cases rule: tl_connect_cases [of env host port "tl_count ?f pl" pl])
        (auto simp: get_or_create_def Let_def recycle_fails_def gap_count split: if_splits)
  qed
qed

section \<open>Runs of the pool\<close>

datatype pool_op =
    Po_Sendrecv pool_env string u16 zpack
  | Po_Send_Only pool_env string u16 zpack
  | Po_Close string u16
  | Po_Close_All

definition pool_step :: "encoder \<Rightarrow> decoder \<Rightarrow> pool_op \<Rightarrow> tcp_pool \<Rightarrow> tcp_pool option" where
  "pool_step enc dec x pl =
     (case x of
        Po_Sendrecv env host port z \<Rightarrow> map_option snd (tl_sendrecv enc dec env host port z pl)
      | Po_Send_Only env host port z \<Rightarrow> map_option snd (tl_send_only enc env host port z pl)
      | Po_Close host port \<Rightarrow> Some (tl_close_connection host port pl)
      | Po_Close_All \<Rightarrow> Some (tl_close_all pl))"

text \<open>The connections a run fails to recycle, and where it ends; None if a call panics.\<close>

definition step_fails :: "pool_op \<Rightarrow> tcp_pool \<Rightarrow> bool" where
  "step_fails x pl =
     (case x of
        Po_Sendrecv env host port z \<Rightarrow> recycle_fails env host port pl
      | Po_Send_Only env host port z \<Rightarrow> recycle_fails env host port pl
      | _ \<Rightarrow> False)"

fun pool_run :: "encoder \<Rightarrow> decoder \<Rightarrow> pool_op list \<Rightarrow> tcp_pool \<Rightarrow> (nat \<times> tcp_pool) option" where
  "pool_run enc dec [] pl = Some (0, pl)"
| "pool_run enc dec (x # xs) pl =
     (case pool_step enc dec x pl of
        None \<Rightarrow> None
      | Some pl1 \<Rightarrow>
          map_option (\<lambda>(n, pl2). (of_bool (step_fails x pl) + n, pl2)) (pool_run enc dec xs pl1))"

lemma close_all_gap: "gauge_gap (tl_close_all pl) = gauge_gap pl"
proof -
  have "tm_active_connections ((dec_active_connections ^^ n) m) = tm_active_connections m - of_nat n" for n m
    by (induction n) simp_all
  then show ?thesis by (simp add: gauge_gap_def tl_close_all_def)
qed

text \<open>What follows \<open>get_or_create\<close> keeps the gap.\<close>

lemma send_raw_gap:
  "tl_send_raw enc env key z pl = (r, pl') \<Longrightarrow>
     tl_conns pl' = tl_conns pl \<and> gauge_gap pl' = gauge_gap pl"
  by (auto simp: tl_send_raw_def Let_def gauge_gap_def)

lemma sendrecv_gap:
  assumes "hm_wf (tl_conns pl)"
  shows "\<exists>r pl'. tl_sendrecv enc dec env host port z pl = Some (r, pl') \<and> hm_wf (tl_conns pl') \<and>
     gauge_gap pl' = gauge_gap pl + of_bool (recycle_fails env host port pl)"
proof -
  obtain r pl1 where g: "get_or_create env host port pl = (r, pl1)" by (cases "get_or_create env host port pl")
  note gap = get_or_create_gap [OF assms g]
  show ?thesis
  proof (cases r)
    case (Inr u)
    with gap obtain c where c: "hm_get (tl_conns pl1) (gen_base host port) = Some c" by auto
    obtain r2 pl2 where s: "tl_send_raw enc env (gen_base host port) z pl1 = (r2, pl2)"
      by (cases "tl_send_raw enc env (gen_base host port) z pl1")
    with Inr g gap c send_raw_gap [OF s] show ?thesis
      by (auto simp: tl_sendrecv_def Let_def gap_count split: sum.split prod.split)
  qed (use g gap in \<open>simp add: tl_sendrecv_def\<close>)
qed

lemma send_only_gap:
  assumes "hm_wf (tl_conns pl)"
  shows "\<exists>r pl'. tl_send_only enc env host port z pl = Some (r, pl') \<and> hm_wf (tl_conns pl') \<and>
     gauge_gap pl' = gauge_gap pl + of_bool (recycle_fails env host port pl)"
proof -
  obtain r pl1 where g: "get_or_create env host port pl = (r, pl1)" by (cases "get_or_create env host port pl")
  note gap = get_or_create_gap [OF assms g]
  show ?thesis
  proof (cases r)
    case (Inr u)
    with gap obtain c where c: "hm_get (tl_conns pl1) (gen_base host port) = Some c" by auto
    obtain r2 pl2 where s: "tl_send_raw enc env (gen_base host port) z pl1 = (r2, pl2)"
      by (cases "tl_send_raw enc env (gen_base host port) z pl1")
    with Inr g gap c send_raw_gap [OF s] show ?thesis
      by (auto simp: tl_send_only_def Let_def gap_count split: sum.split prod.split)
  qed (use g gap in \<open>simp add: tl_send_only_def\<close>)
qed

lemma pool_step_gap:
  assumes "hm_wf (tl_conns pl)"
  shows "\<exists>pl'. pool_step enc dec x pl = Some pl' \<and> hm_wf (tl_conns pl') \<and>
     gauge_gap pl' = gauge_gap pl + of_bool (step_fails x pl)"
proof (cases x)
  case (Po_Sendrecv env host port z)
  with sendrecv_gap [OF assms, of enc dec env host port z] show ?thesis
    by (auto simp: pool_step_def step_fails_def)
next
  case (Po_Send_Only env host port z)
  with send_only_gap [OF assms, of enc env host port z] show ?thesis
    by (auto simp: pool_step_def step_fails_def)
next
  case (Po_Close host port)
  with assms show ?thesis by (simp add: pool_step_def step_fails_def tl_close_connection_def)
next
  case Po_Close_All
  have "hm_wf (tl_conns (tl_close_all pl))" by (simp add: tl_close_all_def)
  with Po_Close_All show ?thesis by (simp add: pool_step_def step_fails_def close_all_gap)
qed

lemma pool_run_gap:
  "hm_wf (tl_conns pl) \<Longrightarrow>
     \<exists>n pl'. pool_run enc dec xs pl = Some (n, pl') \<and> gauge_gap pl' = gauge_gap pl + of_nat n"
proof (induction xs arbitrary: pl)
  case (Cons x xs)
  from pool_step_gap [OF Cons.prems] obtain pl1 where 1: "pool_step enc dec x pl = Some pl1"
    "hm_wf (tl_conns pl1)" "gauge_gap pl1 = gauge_gap pl + of_bool (step_fails x pl)" by blast
  from Cons.IH [OF 1(2)] obtain n pl2 where "pool_run enc dec xs pl1 = Some (n, pl2)"
    "gauge_gap pl2 = gauge_gap pl1 + of_nat n" by blast
  with 1 show ?case by simp
qed simp

section \<open>Properties\<close>

text \<open>
  C28. The gauge of active connections drifts. When the calls on a pool are made one after
  another, from its creation on, none of them panics, whatever the network does, and after any
  number of them the gauge is the number of pooled connections less the number of worn
  connections that could not be replaced, modulo \<open>2 ^ 64\<close>: each of these was
  counted as closed, and stays in the pool.
\<close>

theorem pool_gauge_drifts:
  "\<exists>failed pl. pool_run enc dec xs tl_new = Some (failed, pl) \<and>
     tm_active_connections (tl_metrics pl) = of_nat (tl_connection_count pl) - of_nat failed"
proof -
  have "hm_wf (tl_conns tl_new)" by (simp add: tl_new_def tl_with_metrics_def)
  moreover have "gauge_gap tl_new = 0"
    by (simp add: gauge_gap_def tl_new_def tl_with_metrics_def TransportMetrics_new_def)
  ultimately show ?thesis
    using pool_run_gap [of tl_new enc dec xs] by (auto simp: gauge_gap_def tl_connection_count_def algebra_simps)
qed

text \<open>
  A slow request is lost, and the connection with it: when the handler's timeout of thirty
  seconds falls between the length of a frame and its payload, the length is gone, the payload is
  read as a frame, and its first bytes, a protobuf tag first, as a length that never
  arrives. The request is not handled, and the connection ends.
\<close>

lemma slow_request_dropped:
  assumes "8 \<le> unat (hd (enc req))" "4 \<le> length (enc req)" "length (enc req) < 2 ^ 27"
    and "rs_bytes s = encode_message enc req"
  shows "conn_rounds enc dec handle (Ce_Timeout 4 # Ce_Recv wr # evs) s sd = Some (True, sd)"
proof -
  have "drop 4 (encode_message enc req) = enc req" by (simp add: encode_message_def Let_def)
  moreover have "isl (decode_message dec (enc req))" by (rule tag_not_frame [OF assms(1-3)])
  ultimately have "isl (fst (recv_message dec (s\<lparr>rs_bytes := drop 4 (rs_bytes s)\<rparr>)))"
    using assms(4) by (auto simp: recv_decode isl_def split: zht_error.split)
  then show ?thesis by (auto simp: isl_def split: prod.splits)
qed

end
