(* ===== verification/Chunking.thy ===== *)
theory Chunking
  imports Wire Transport_Metrics
begin

text \<open>
  \<open>zht-transport/src/chunking.rs\<close>: a long message is cut into chunks with a 38-byte text header
  and put together again by its receiver. Sequence numbers, totals and sizes are the numbers the
  header carries; a message id is the number of a 64-bit word. \<open>HashMap::with_capacity\<close> only
  reserves memory and is not modelled. None as the value of a function stands for a panic.
\<close>

definition CHUNK_PAYLOAD_SIZE :: nat where "CHUNK_PAYLOAD_SIZE = 512"
definition CHUNK_HEADER_SIZE :: nat where "CHUNK_HEADER_SIZE = 38"
definition DEFAULT_CHUNK_THRESHOLD :: nat where "DEFAULT_CHUNK_THRESHOLD = 1048576"

record chunk =
  ch_data :: "u8 list"
  ch_seq_num :: nat
  ch_total :: nat

section \<open>Cutting\<close>

definition chunk_header :: "nat \<Rightarrow> nat \<Rightarrow> nat \<Rightarrow> nat \<Rightarrow> u8 list" where
  "chunk_header msg_id seq tot psz =
     as_bytes (pad_left 20 (show_nat msg_id)) @ as_bytes (pad_right 7 (show_nat seq))
     @ as_bytes (pad_right 7 (show_nat tot)) @ as_bytes (pad_right 4 (show_nat psz))"

definition chunk_total :: "u8 list \<Rightarrow> nat \<Rightarrow> nat" where
  "chunk_total data psize = (if data = [] then 1 else (length data + psize - 1) div psize)"

definition chunk_payload :: "u8 list \<Rightarrow> nat \<Rightarrow> nat \<Rightarrow> u8 list" where
  "chunk_payload data psize seq =
     (let start = seq * psize; stop = min (start + psize) (length data)
      in take (stop - start) (drop start data))"

definition make_chunk :: "nat \<Rightarrow> u8 list \<Rightarrow> nat \<Rightarrow> nat \<Rightarrow> nat \<Rightarrow> chunk" where
  "make_chunk msg_id data psize tot seq =
     (let payload = chunk_payload data psize seq
      in \<lparr>ch_data = chunk_header msg_id seq tot (length payload) @ payload,
          ch_seq_num = seq, ch_total = tot\<rparr>)"

text \<open>\<open>seed\<close> is what \<open>IdHelper::gen_id\<close> reads off the clock. A payload size of 0 divides by zero.\<close>

definition chunk_message :: "u64 \<Rightarrow> u8 list \<Rightarrow> nat \<Rightarrow> (nat \<times> chunk list) option" where
  "chunk_message seed data psize =
     (if data \<noteq> [] \<and> psize = 0 then None
      else
        let msg_id = unat (gen_id seed); tot = chunk_total data psize
        in Some (msg_id, map (make_chunk msg_id data psize tot) [0..<tot]))"

section \<open>Parsing\<close>

text \<open>The text of \<open>std::str::Utf8Error\<close>: the valid prefix, and the length of what follows it.\<close>

function valid_up_to :: "u8 list \<Rightarrow> nat" where
  "valid_up_to bs =
     (if bs = [] \<or> \<not> fst (utf8_step bs) then 0
      else snd (utf8_step bs) + valid_up_to (drop (snd (utf8_step bs)) bs))"
  by pat_completeness auto
termination
  by (relation "measure length") (auto simp del: length_drop simp: utf8_step_shorter)

declare valid_up_to.simps [simp del]

definition show_utf8_error :: "u8 list \<Rightarrow> string" where
  "show_utf8_error bs =
     (let n = valid_up_to bs; rest = drop n bs; k = snd (utf8_step rest)
      in if k = length rest \<and> utf8_width (hd rest) \<noteq> 0
         then ''incomplete utf-8 byte sequence from index '' @ show_nat n
         else ''invalid utf-8 sequence of '' @ show_nat k @ '' bytes from index '' @ show_nat n)"

text \<open>The number in \<open>raw[a..b]\<close>; the messages name the field.\<close>

definition parse_field :: "string \<Rightarrow> u8 list \<Rightarrow> nat \<Rightarrow> nat \<Rightarrow> nat zht_result" where
  "parse_field name raw a b =
     (let bytes = take (b - a) (drop a raw); text = trim (of_bytes bytes) in
      if \<not> valid_utf8 bytes then
        Inl (RecvFailed (''Invalid '' @ name @ '' encoding: '' @ show_utf8_error bytes))
      else case parse_uint u64_max text of
             Inr n \<Rightarrow> Inr n
           | Inl e \<Rightarrow>
               Inl (RecvFailed (''Invalid '' @ name @ '' '' @ [CHR 0x27] @ text @ [CHR 0x27] @ '': ''
                 @ show_parse_error e)))"

definition parse_chunk :: "u8 list \<Rightarrow> (nat \<times> nat \<times> nat \<times> u8 list) zht_result" where
  "parse_chunk raw =
     (if length raw < CHUNK_HEADER_SIZE then
        Inl (RecvFailed (''Chunk too short: expected >= '' @ show_nat CHUNK_HEADER_SIZE
          @ '' bytes, got '' @ show_nat (length raw)))
      else case parse_field ''UUID'' raw 0 20 of
        Inl e \<Rightarrow> Inl e
      | Inr msg_id \<Rightarrow>
      (case parse_field ''seq_num'' raw 20 27 of
        Inl e \<Rightarrow> Inl e
      | Inr seq_num \<Rightarrow>
      (case parse_field ''total'' raw 27 34 of
        Inl e \<Rightarrow> Inl e
      | Inr tot \<Rightarrow>
      (case parse_field ''payload_size'' raw 34 38 of
        Inl e \<Rightarrow> Inl e
      | Inr payload_size \<Rightarrow>
          if length raw < CHUNK_HEADER_SIZE + payload_size then
            Inl (RecvFailed (''Chunk payload truncated: expected '' @ show_nat payload_size
              @ '' bytes, got '' @ show_nat (length raw - CHUNK_HEADER_SIZE)))
          else
            Inr (msg_id, seq_num, tot, take payload_size (drop CHUNK_HEADER_SIZE raw))))))"

section \<open>Reassembly\<close>

record reassembler =
  ra_chunks :: "(nat, u8 list) hashmap"
  ra_total :: nat
  ra_msg_id :: nat
  ra_full_size :: nat

definition ChunkReassembler_new :: "nat \<Rightarrow> nat \<Rightarrow> nat \<Rightarrow> reassembler" where
  "ChunkReassembler_new msg_id tot full_size =
     \<lparr>ra_chunks = [], ra_total = tot, ra_msg_id = msg_id, ra_full_size = full_size\<rparr>"

definition ra_is_complete :: "reassembler \<Rightarrow> bool" where
  "ra_is_complete ra \<longleftrightarrow> length (ra_chunks ra) = ra_total ra"

definition ra_insert :: "nat \<Rightarrow> u8 list \<Rightarrow> reassembler \<Rightarrow> bool \<times> reassembler" where
  "ra_insert seq_num payload ra =
     (let ra' = ra\<lparr>ra_chunks := hm_insert seq_num payload (ra_chunks ra)\<rparr>
      in (length (ra_chunks ra') = ra_total ra', ra'))"

fun gather :: "(nat \<Rightarrow> u8 list option) \<Rightarrow> nat list \<Rightarrow> u8 list option" where
  "gather get [] = Some []"
| "gather get (seq # seqs) =
     (case get seq of
        None \<Rightarrow> None
      | Some payload \<Rightarrow> map_option (\<lambda>rest. payload @ rest) (gather get seqs))"

definition reassemble :: "reassembler \<Rightarrow> u8 list option" where
  "reassemble ra =
     (if \<not> ra_is_complete ra then None else gather (hm_get (ra_chunks ra)) [0..<ra_total ra])"

definition received_count :: "reassembler \<Rightarrow> nat" where
  "received_count ra = length (ra_chunks ra)"

section \<open>The receiver\<close>

record chunk_receiver =
  cr_inflight :: "(nat, reassembler) hashmap"
  cr_metrics :: "transport_metrics option"

definition ChunkReceiver_new :: chunk_receiver where
  "ChunkReceiver_new = \<lparr>cr_inflight = [], cr_metrics = None\<rparr>"

definition cr_with_metrics :: "transport_metrics \<Rightarrow> chunk_receiver \<Rightarrow> chunk_receiver" where
  "cr_with_metrics m cr = cr\<lparr>cr_metrics := Some m\<rparr>"

definition receive ::
  "u8 list \<Rightarrow> chunk_receiver \<Rightarrow> (u8 list option zht_result \<times> chunk_receiver) option"
where
  "receive raw cr =
     (case parse_chunk raw of
        Inl e \<Rightarrow> Some (Inl e, cr)
      | Inr (msg_id, seq_num, tot, payload) \<Rightarrow>
          let cr1 = cr\<lparr>cr_metrics := map_option inc_chunks_received (cr_metrics cr)\<rparr>;
              inflight =
                (if hm_contains (cr_inflight cr1) msg_id then cr_inflight cr1
                 else hm_insert msg_id
                        (ChunkReassembler_new msg_id tot (tot * CHUNK_PAYLOAD_SIZE))
                        (cr_inflight cr1))
          in case hm_get inflight msg_id of
               None \<Rightarrow> None
             | Some ra0 \<Rightarrow>
                 let r = ra_insert seq_num payload ra0 in
                 if fst r then
                   (case reassemble (snd r) of
                      None \<Rightarrow> None
                    | Some bytes \<Rightarrow>
                        Some (Inr (Some bytes), cr1\<lparr>cr_inflight := hm_remove msg_id inflight\<rparr>))
                 else Some (Inr None, cr1\<lparr>cr_inflight := hm_insert msg_id (snd r) inflight\<rparr>))"

definition inflight_count :: "chunk_receiver \<Rightarrow> nat" where
  "inflight_count cr = length (cr_inflight cr)"

definition cr_clear :: "chunk_receiver \<Rightarrow> chunk_receiver" where
  "cr_clear cr = cr\<lparr>cr_inflight := []\<rparr>"

section \<open>A header reads back\<close>

lemma ascii_valid_utf8: "is_ascii s \<Longrightarrow> valid_utf8 (as_bytes s)"
  using ascii_valid_str [of s] by (simp add: valid_str_def)

lemma length_pads: "length s \<le> w \<Longrightarrow> length (pad_left w s) = w"
  "length s \<le> w \<Longrightarrow> length (pad_right w s) = w"
  by (simp_all add: pad_left_def pad_right_def)

lemma parse_field_padded:
  assumes "n \<le> u64_max" "s = pad_left w (show_nat n) \<or> s = pad_right w (show_nat n)"
    and "raw = p @ as_bytes s @ q" "length p = a" "length s = b - a"
  shows "parse_field name raw a b = Inr n"
proof -
  have "take (b - a) (drop a raw) = as_bytes s"
    using assms(3-5) by simp
  moreover have "trim s = show_nat n" "is_ascii s"
    using assms(2) trim_pad_left trim_pad_right pad_ascii [OF show_nat_ascii] by auto
  ultimately show ?thesis
    using assms(1) by (simp add: parse_field_def Let_def ascii_valid_utf8 parse_show_nat)
qed

lemma chunk_header_length:
  assumes "msg_id \<le> u64_max" "seq < 10 ^ 7" "tot < 10 ^ 7" "psz < 10 ^ 4"
  shows "length (chunk_header msg_id seq tot psz) = CHUNK_HEADER_SIZE"
  using length_show_u64 [OF assms(1)] length_show_nat [OF assms(2)] length_show_nat [OF assms(3)]
    length_show_nat [OF assms(4)]
  by (simp add: chunk_header_def CHUNK_HEADER_SIZE_def length_pads)

lemma parse_chunk_header:
  assumes "msg_id \<le> u64_max" "seq < 10 ^ 7" "tot < 10 ^ 7" "length payload < 10 ^ 4"
  shows "parse_chunk (chunk_header msg_id seq tot (length payload) @ payload @ trailing)
     = Inr (msg_id, seq, tot, payload)"
proof -
  let ?u = "pad_left 20 (show_nat msg_id)" and ?s = "pad_right 7 (show_nat seq)"
    and ?t = "pad_right 7 (show_nat tot)" and ?z = "pad_right 4 (show_nat (length payload))"
  have len: "length ?u = 20" "length ?s = 7" "length ?t = 7" "length ?z = 4"
    using length_show_u64 [OF assms(1)] length_show_nat [OF assms(2)]
      length_show_nat [OF assms(3)] length_show_nat [OF assms(4)]
    by (simp_all add: length_pads)
  let ?raw = "as_bytes ?u @ as_bytes ?s @ as_bytes ?t @ as_bytes ?z @ payload @ trailing"
  have max: "seq \<le> u64_max" "tot \<le> u64_max" "length payload \<le> u64_max"
    using assms(2-4) by (simp_all add: u64_max_def)
  have "parse_field ''UUID'' ?raw 0 20 = Inr msg_id"
    by (rule parse_field_padded [where p = "[]" and w = 20 and s = ?u])
      (use assms(1) len in simp_all)
  moreover have "parse_field ''seq_num'' ?raw 20 27 = Inr seq"
    by (rule parse_field_padded [where p = "as_bytes ?u" and w = 7 and s = ?s])
      (use max len in simp_all)
  moreover have "parse_field ''total'' ?raw 27 34 = Inr tot"
    by (rule parse_field_padded [where p = "as_bytes ?u @ as_bytes ?s" and w = 7 and s = ?t])
      (use max len in simp_all)
  moreover have "parse_field ''payload_size'' ?raw 34 38 = Inr (length payload)"
    by (rule parse_field_padded
        [where p = "as_bytes ?u @ as_bytes ?s @ as_bytes ?t" and w = 4 and s = ?z])
      (use max len in simp_all)
  ultimately show ?thesis
    using len by (simp add: parse_chunk_def chunk_header_def CHUNK_HEADER_SIZE_def)
qed

end
