(* ===== verification/Chunk_Transfer.thy ===== *)
theory Chunk_Transfer
  imports Chunking "HOL-Library.Multiset"
begin

text \<open>
  What the chunk protocol promises: the payloads make up the message, and a receiver that gets
  the chunks of any messages, interleaved and in any order, answers the last chunk of each with
  the message and forgets it. And where it breaks: a chunk numbered past its total.
\<close>

section \<open>The payloads make up the message\<close>

lemma chunk_payload_take: "chunk_payload data psize seq = take psize (drop (seq * psize) data)"
proof -
  have "min (seq * psize + psize) (length data) - seq * psize = min psize (length data - seq * psize)"
    by linarith
  then have "chunk_payload data psize seq
      = take (min psize (length (drop (seq * psize) data))) (drop (seq * psize) data)"
    by (simp add: chunk_payload_def Let_def)
  then show ?thesis by (simp add: min_def)
qed

lemma concat_payloads: "concat (map (chunk_payload data psize) [0..<n]) = take (n * psize) data"
  by (induction n) (simp_all add: chunk_payload_take take_add [symmetric] add.commute)

lemma chunk_total_enough: "0 < psize \<Longrightarrow> length data \<le> chunk_total data psize * psize"
proof (cases "data = []")
  case False
  assume p: "0 < psize"
  have "length data + psize - 1 = (length data + psize - 1) div psize * psize
      + (length data + psize - 1) mod psize" by simp
  moreover have "(length data + psize - 1) mod psize < psize" using p by simp
  ultimately have "length data \<le> (length data + psize - 1) div psize * psize" by linarith
  with False show ?thesis by (simp add: chunk_total_def)
qed simp

lemma chunk_total_pos: "0 < psize \<Longrightarrow> 0 < chunk_total data psize"
  by (cases data) (auto simp: chunk_total_def div_greater_zero_iff)

lemma payloads_whole:
  "0 < psize \<Longrightarrow> concat (map (chunk_payload data psize) [0..<chunk_total data psize]) = data"
  by (simp add: concat_payloads chunk_total_enough)

lemma length_chunk_payload: "length (chunk_payload data psize seq) \<le> psize"
  by (simp add: chunk_payload_take)

lemma gather_concat:
  "(\<And>i. i \<in> set is \<Longrightarrow> get i = Some (f i)) \<Longrightarrow> gather get is = Some (concat (map f is))"
  by (induction "is") auto

section \<open>The state of a transfer\<close>

text \<open>The receiver holds the payloads numbered in \<open>S\<close> of a message, and nothing else of it.\<close>

definition holds :: "chunk_receiver \<Rightarrow> nat \<Rightarrow> u8 list \<Rightarrow> nat \<Rightarrow> nat set \<Rightarrow> bool" where
  "holds cr msg_id data psize S \<longleftrightarrow>
     (case hm_get (cr_inflight cr) msg_id of
        None \<Rightarrow> S = {}
      | Some ra \<Rightarrow>
          ra_total ra = chunk_total data psize \<and> hm_wf (ra_chunks ra) \<and>
          hm_get (ra_chunks ra) = (\<lambda>i. if i \<in> S then Some (chunk_payload data psize i) else None))"

definition sendable :: "nat \<Rightarrow> u8 list \<Rightarrow> nat \<Rightarrow> bool" where
  "sendable msg_id data psize \<longleftrightarrow>
     msg_id \<le> u64_max \<and> 0 < psize \<and> psize < 10 ^ 4 \<and> chunk_total data psize < 10 ^ 7"

lemma parse_made_chunk:
  assumes "sendable msg_id data psize" "seq < chunk_total data psize"
  shows "parse_chunk (ch_data (make_chunk msg_id data psize (chunk_total data psize) seq)) =
     Inr (msg_id, seq, chunk_total data psize, chunk_payload data psize seq)"
  using parse_chunk_header [of msg_id seq "chunk_total data psize" "chunk_payload data psize seq" "[]"]
    assms length_chunk_payload [of data psize seq]
  by (simp add: sendable_def make_chunk_def Let_def)

lemma receive_parsed:
  assumes "parse_chunk raw = Inr (msg_id, seq, tot, payload)"
    and "new = ChunkReassembler_new msg_id tot (tot * CHUNK_PAYLOAD_SIZE)"
    and "ra0 = (case hm_get (cr_inflight cr) msg_id of None \<Rightarrow> new | Some ra \<Rightarrow> ra)"
    and "infl = (if hm_contains (cr_inflight cr) msg_id then cr_inflight cr
       else hm_insert msg_id new (cr_inflight cr))"
    and "ra1 = ra0\<lparr>ra_chunks := hm_insert seq payload (ra_chunks ra0)\<rparr>"
    and "cr1 = cr\<lparr>cr_metrics := map_option inc_chunks_received (cr_metrics cr)\<rparr>"
  shows "receive raw cr =
     (if length (ra_chunks ra1) = ra_total ra1 then
        (case reassemble ra1 of None \<Rightarrow> None
         | Some bytes \<Rightarrow> Some (Inr (Some bytes), cr1\<lparr>cr_inflight := hm_remove msg_id infl\<rparr>))
      else Some (Inr None, cr1\<lparr>cr_inflight := hm_insert msg_id ra1 infl\<rparr>))"
  using assms
  by (cases "hm_get (cr_inflight cr) msg_id")
    (simp_all add: receive_def Let_def hm_contains_def ra_insert_def split: option.split)

text \<open>
  One chunk: it completes the message, which is returned and dropped, or it is kept. Other
  messages stay as they are.
\<close>

lemma receive_chunk:
  assumes ok: "sendable msg_id data psize" and seq: "seq < chunk_total data psize"
    and h: "holds cr msg_id data psize S" and wf: "hm_wf (cr_inflight cr)"
    and S: "S \<subseteq> {..<chunk_total data psize}"
  obtains cr' where
    "receive (ch_data (make_chunk msg_id data psize (chunk_total data psize) seq)) cr =
       Some (Inr (if insert seq S = {..<chunk_total data psize} then Some data else None), cr')"
    and "hm_wf (cr_inflight cr')"
    and "\<And>k. k \<noteq> msg_id \<Longrightarrow> hm_get (cr_inflight cr') k = hm_get (cr_inflight cr) k"
    and "if insert seq S = {..<chunk_total data psize} then hm_get (cr_inflight cr') msg_id = None
         else holds cr' msg_id data psize (insert seq S)"
proof -
  let ?tot = "chunk_total data psize" and ?f = "chunk_payload data psize"
  let ?new = "ChunkReassembler_new msg_id ?tot (?tot * CHUNK_PAYLOAD_SIZE)"
  define ra0 where "ra0 = (case hm_get (cr_inflight cr) msg_id of None \<Rightarrow> ?new | Some ra \<Rightarrow> ra)"
  define infl where "infl = (if hm_contains (cr_inflight cr) msg_id then cr_inflight cr
      else hm_insert msg_id ?new (cr_inflight cr))"
  define ra1 where "ra1 = ra0\<lparr>ra_chunks := hm_insert seq (?f seq) (ra_chunks ra0)\<rparr>"
  have ra0: "ra_total ra0 = ?tot" "hm_wf (ra_chunks ra0)"
    "hm_get (ra_chunks ra0) = (\<lambda>i. if i \<in> S then Some (?f i) else None)"
    using h by (auto simp: ra0_def holds_def ChunkReassembler_new_def split: option.splits)
  have infl: "hm_get infl = (hm_get (cr_inflight cr))(msg_id \<mapsto> ra0)" "hm_wf infl"
    using wf by (auto simp: infl_def ra0_def hm_contains_def fun_eq_iff split: option.split)
  have dom1: "hm_get (ra_chunks ra1) = (\<lambda>i. if i \<in> insert seq S then Some (?f i) else None)"
    and wf1: "hm_wf (ra_chunks ra1)" and tot1: "ra_total ra1 = ?tot"
    using ra0 by (auto simp: ra1_def)
  have "dom (hm_get (ra_chunks ra1)) = insert seq S" by (auto simp: dom1 split: if_splits)
  then have len: "length (ra_chunks ra1) = card (insert seq S)"
    using hm.len_keys [OF wf1] by simp
  have sub: "insert seq S \<subseteq> {..<?tot}" using S seq by auto
  then have complete: "length (ra_chunks ra1) = ?tot \<longleftrightarrow> insert seq S = {..<?tot}"
    unfolding len by (metis card_lessThan card_subset_eq finite_lessThan)
  have re: "reassemble ra1 = Some data" if "insert seq S = {..<?tot}"
  proof -
    have "gather (hm_get (ra_chunks ra1)) [0..<?tot] = Some (concat (map ?f [0..<?tot]))"
      by (rule gather_concat) (use that in \<open>auto simp: dom1\<close>)
    moreover have "concat (map ?f [0..<?tot]) = data"
      using ok by (intro payloads_whole) (simp add: sendable_def)
    moreover have "ra_is_complete ra1"
      using complete that tot1 by (simp add: ra_is_complete_def)
    ultimately show ?thesis by (simp add: reassemble_def tot1)
  qed
  let ?cr1 = "cr\<lparr>cr_metrics := map_option inc_chunks_received (cr_metrics cr)\<rparr>"
  let ?cr' = "if insert seq S = {..<?tot} then ?cr1\<lparr>cr_inflight := hm_remove msg_id infl\<rparr>
      else ?cr1\<lparr>cr_inflight := hm_insert msg_id ra1 infl\<rparr>"
  have r: "receive (ch_data (make_chunk msg_id data psize ?tot seq)) cr =
     (if length (ra_chunks ra1) = ra_total ra1 then
        (case reassemble ra1 of None \<Rightarrow> None
         | Some bytes \<Rightarrow> Some (Inr (Some bytes), ?cr1\<lparr>cr_inflight := hm_remove msg_id infl\<rparr>))
      else Some (Inr None, ?cr1\<lparr>cr_inflight := hm_insert msg_id ra1 infl\<rparr>))"
    by (rule receive_parsed [OF parse_made_chunk [OF ok seq] refl])
      (simp_all add: ra0_def infl_def ra1_def)
  show ?thesis
  proof (rule that [of ?cr'])
    show "receive (ch_data (make_chunk msg_id data psize ?tot seq)) cr =
       Some (Inr (if insert seq S = {..<?tot} then Some data else None), ?cr')"
      using complete re by (simp add: r tot1)
    show "hm_wf (cr_inflight ?cr')" using infl(2) by simp
    show "hm_get (cr_inflight ?cr') k = hm_get (cr_inflight cr) k" if "k \<noteq> msg_id" for k
      using that infl(1) by simp
    show "if insert seq S = {..<?tot} then hm_get (cr_inflight ?cr') msg_id = None
        else holds ?cr' msg_id data psize (insert seq S)"
      by (simp add: holds_def dom1 wf1 tot1)
  qed
qed

section \<open>A whole transfer\<close>

fun receive_all ::
  "u8 list list \<Rightarrow> chunk_receiver \<Rightarrow> (u8 list option zht_result list \<times> chunk_receiver) option"
where
  "receive_all [] cr = Some ([], cr)"
| "receive_all (raw # raws) cr =
     (case receive raw cr of
        None \<Rightarrow> None
      | Some (r, cr') \<Rightarrow> map_option (\<lambda>(rs, cr''). (r # rs, cr'')) (receive_all raws cr'))"

text \<open>
  Packets of several messages, each with the number of its message. What the receiver answers:
  nothing, but for the last packet of a message, which brings the message.
\<close>

type_synonym packet = "nat \<times> chunk"

fun deliveries :: "(nat \<Rightarrow> u8 list option) \<Rightarrow> packet list \<Rightarrow> u8 list option list" where
  "deliveries msg [] = []"
| "deliveries msg ((i, c) # rest) =
     (if i \<in> fst ` set rest then None else msg i) # deliveries msg rest"

text \<open>The numbers of the chunks of message \<open>i\<close> that are still to come, of \<open>n i\<close> in all.\<close>

definition to_come :: "nat \<Rightarrow> packet list \<Rightarrow> nat set" where
  "to_come i ps = {ch_seq_num c | c. (i, c) \<in> set ps}"

lemma to_come_simps [simp]:
  "to_come i [] = {}"
  "to_come i ((j, c) # ps) = (if i = j then insert (ch_seq_num c) (to_come i ps) else to_come i ps)"
  by (auto simp: to_come_def)

lemma to_come_empty: "to_come i ps = {} \<longleftrightarrow> i \<notin> fst ` set ps"
  by (force simp: to_come_def)

text \<open>The receiver has what is not still to come; a message with nothing to come is gone.\<close>

definition awaits :: "chunk_receiver \<Rightarrow> nat \<Rightarrow> u8 list \<Rightarrow> nat \<Rightarrow> nat set \<Rightarrow> bool" where
  "awaits cr i data psize T \<longleftrightarrow>
     T \<subseteq> {..<chunk_total data psize} \<and>
     (if T = {} then hm_get (cr_inflight cr) i = None
      else holds cr i data psize ({..<chunk_total data psize} - T))"

lemma awaits_cong:
  "hm_get (cr_inflight cr) i = hm_get (cr_inflight cr') i \<Longrightarrow> awaits cr i data psize T = awaits cr' i data psize T"
  by (simp add: awaits_def holds_def)

lemma receive_awaited:
  assumes "sendable i data psize" "awaits cr i data psize (insert seq T)" "seq \<notin> T" "hm_wf (cr_inflight cr)"
  obtains cr' where
    "receive (ch_data (make_chunk i data psize (chunk_total data psize) seq)) cr =
       Some (Inr (if T = {} then Some data else None), cr')"
    and "hm_wf (cr_inflight cr')" "awaits cr' i data psize T"
    and "\<And>k. k \<noteq> i \<Longrightarrow> hm_get (cr_inflight cr') k = hm_get (cr_inflight cr) k"
proof -
  let ?all = "{..<chunk_total data psize}"
  have T: "insert seq T \<subseteq> ?all" and h: "holds cr i data psize (?all - insert seq T)"
    using assms(2) by (simp_all add: awaits_def)
  then have seq: "seq < chunk_total data psize" by simp
  have ins: "insert seq (?all - insert seq T) = ?all - T" using T assms(3) by auto
  have all: "?all - T = ?all \<longleftrightarrow> T = {}" using T by auto
  obtain cr' where r: "receive (ch_data (make_chunk i data psize (chunk_total data psize) seq)) cr =
       Some (Inr (if ?all - T = ?all then Some data else None), cr')"
    and wf: "hm_wf (cr_inflight cr')"
    and other: "\<And>k. k \<noteq> i \<Longrightarrow> hm_get (cr_inflight cr') k = hm_get (cr_inflight cr) k"
    and mine: "if ?all - T = ?all then hm_get (cr_inflight cr') i = None else holds cr' i data psize (?all - T)"
    using receive_chunk [OF assms(1) seq h assms(4) Diff_subset] unfolding ins by metis
  have a: "awaits cr' i data psize T" using mine T by (auto simp: awaits_def all)
  show ?thesis by (rule that [OF _ wf a other]) (use r all in simp_all)
qed

lemma receive_interleaved:
  assumes "\<forall>i \<in> I. sendable i (data i) (psize i)"
    and "\<forall>(i, c) \<in> set ps. i \<in> I \<and> c = make_chunk i (data i) (psize i) (chunk_total (data i) (psize i)) (ch_seq_num c)"
    and "distinct (map (\<lambda>(i, c). (i, ch_seq_num c)) ps)"
    and "\<forall>i \<in> I. awaits cr i (data i) (psize i) (to_come i ps)" "hm_wf (cr_inflight cr)"
  shows "\<exists>cr'. receive_all (map (\<lambda>(i, c). ch_data c) ps) cr =
         Some (map Inr (deliveries (\<lambda>i. Some (data i)) ps), cr') \<and>
       (\<forall>i. hm_get (cr_inflight cr') i = (if i \<in> I then None else hm_get (cr_inflight cr) i))"
  using assms
proof (induction ps arbitrary: cr)
  case Nil
  then show ?case by (simp add: awaits_def)
next
  case (Cons p ps)
  obtain i c where p: "p = (i, c)" by (cases p)
  have i: "i \<in> I" and c: "c = make_chunk i (data i) (psize i) (chunk_total (data i) (psize i)) (ch_seq_num c)"
    using Cons.prems(2) by (auto simp: p)
  have new: "ch_seq_num c \<notin> to_come i ps"
    using Cons.prems(3) by (force simp: p to_come_def)
  have "sendable i (data i) (psize i)" using Cons.prems(1) i by blast
  moreover have "awaits cr i (data i) (psize i) (insert (ch_seq_num c) (to_come i ps))"
    using Cons.prems(4) i by (auto simp: p)
  ultimately obtain cr1 where
    r: "receive (ch_data c) cr = Some (Inr (if to_come i ps = {} then Some (data i) else None), cr1)"
    and wf: "hm_wf (cr_inflight cr1)" and mine: "awaits cr1 i (data i) (psize i) (to_come i ps)"
    and other: "\<And>k. k \<noteq> i \<Longrightarrow> hm_get (cr_inflight cr1) k = hm_get (cr_inflight cr) k"
    using receive_awaited [OF _ _ new Cons.prems(5)] c by metis
  have aw: "awaits cr1 j (data j) (psize j) (to_come j ps)" if "j \<in> I" for j
  proof (cases "j = i")
    case False
    have "to_come j (p # ps) = to_come j ps" using False by (simp add: p)
    with bspec [OF Cons.prems(4) that] have "awaits cr j (data j) (psize j) (to_come j ps)" by simp
    with awaits_cong [OF other [OF False]] show ?thesis by simp
  qed (use mine in simp)
  have "\<exists>cr2. receive_all (map (\<lambda>(i, c). ch_data c) ps) cr1 =
         Some (map Inr (deliveries (\<lambda>i. Some (data i)) ps), cr2) \<and>
       (\<forall>i. hm_get (cr_inflight cr2) i = (if i \<in> I then None else hm_get (cr_inflight cr1) i))"
    by (rule Cons.IH [OF Cons.prems(1) _ _ _ wf]) (use Cons.prems(2,3) aw in auto)
  then obtain cr2 where
    2: "receive_all (map (\<lambda>(i, c). ch_data c) ps) cr1 = Some (map Inr (deliveries (\<lambda>i. Some (data i)) ps), cr2)"
      "\<forall>k. hm_get (cr_inflight cr2) k = (if k \<in> I then None else hm_get (cr_inflight cr1) k)"
    by blast
  have "\<forall>k. hm_get (cr_inflight cr2) k = (if k \<in> I then None else hm_get (cr_inflight cr) k)"
    using 2(2) other i by (metis (full_types))
  with r 2(1) show ?case by (intro exI [of _ cr2]) (simp add: p to_come_empty)
qed

text \<open>A message with its number, and its chunks: those \<open>chunk_message\<close> makes, whatever the number.\<close>

type_synonym transfer = "nat \<times> u8 list \<times> chunk list"

definition made :: "transfer \<Rightarrow> bool" where
  "made t \<longleftrightarrow> (case t of (i, data, chunks) \<Rightarrow>
     \<exists>psize. sendable i data psize \<and>
       chunks = map (make_chunk i data psize (chunk_total data psize)) [0..<chunk_total data psize])"

lemma chunk_message_made:
  assumes "chunk_message seed data psize = Some (i, chunks)"
    and "0 < psize" "psize < 10 ^ 4" "length chunks < 10 ^ 7"
  shows "made (i, data, chunks)"
proof -
  from assms(1,2) have i: "i = unat (gen_id seed)"
    and c: "chunks = map (make_chunk i data psize (chunk_total data psize)) [0..<chunk_total data psize]"
    by (auto simp: chunk_message_def Let_def)
  have "unat (gen_id seed) < 2 ^ 64" using unsigned_less [of "gen_id seed"] by simp
  then have "sendable i data psize"
    using assms(2-4) c by (simp add: sendable_def i u64_max_def)
  with c show ?thesis by (auto simp: made_def)
qed

definition packets :: "transfer list \<Rightarrow> packet list" where
  "packets ts = concat (map (\<lambda>(i, data, chunks). map (Pair i) chunks) ts)"

definition message_of :: "transfer list \<Rightarrow> nat \<Rightarrow> u8 list option" where
  "message_of ts = map_of (map (\<lambda>(i, data, chunks). (i, data)) ts)"

lemma made_chunks:
  assumes "made (i, data, chunks)"
  obtains psize where "sendable i data psize"
    and "chunks = map (make_chunk i data psize (chunk_total data psize)) [0..<chunk_total data psize]"
  using assms by (auto simp: made_def)

lemma made_seq_num [simp]: "ch_seq_num (make_chunk i d p t n) = n"
  by (simp add: make_chunk_def Let_def)

lemma message_of_mem:
  assumes "distinct (map fst ts)" "(i, data, chunks) \<in> set ts"
  shows "message_of ts i = Some data"
proof -
  have "map fst (map (\<lambda>(i, data, chunks). (i, data)) ts) = map fst ts" by (simp add: split_def)
  with assms(1) have "distinct (map fst (map (\<lambda>(i, data, chunks). (i, data)) ts))" by (simp only:)
  moreover have "(i, data) \<in> set (map (\<lambda>(i, data, chunks). (i, data)) ts)" using assms(2) by force
  ultimately show ?thesis unfolding message_of_def by (rule map_of_is_SomeI)
qed

lemma deliveries_cong:
  "\<forall>i \<in> fst ` set ps. msg i = msg' i \<Longrightarrow> deliveries msg ps = deliveries msg' ps"
  by (induction msg ps rule: deliveries.induct) auto

lemma set_packets: "(i, c) \<in> set (packets ts) \<longleftrightarrow> (\<exists>data chunks. (i, data, chunks) \<in> set ts \<and> c \<in> set chunks)"
  by (force simp: packets_def)

lemma packets_distinct:
  assumes "list_all made ts" "distinct (map fst ts)"
  shows "distinct (map (\<lambda>(i, c). (i, ch_seq_num c)) (packets ts))"
  using assms
proof (induction ts)
  case (Cons t ts)
  obtain i data chunks where t: "t = (i, data, chunks)" by (cases t)
  with Cons.prems(1) obtain psize where
      "chunks = map (make_chunk i data psize (chunk_total data psize)) [0..<chunk_total data psize]"
    by (auto elim: made_chunks)
  then have "map (\<lambda>(i, c). (i, ch_seq_num c)) (map (Pair i) chunks) = map (Pair i) [0..<chunk_total data psize]"
    by simp
  moreover have "distinct (map (Pair i) [0..<n])" for n by (simp add: distinct_map inj_on_def)
  moreover have "(i, c) \<notin> set (packets ts)" for c
    using Cons.prems(2) by (force simp: t set_packets)
  moreover have "packets (t # ts) = map (Pair i) chunks @ packets ts" by (simp add: packets_def t)
  ultimately show ?case using Cons by (auto simp del: map_map)
qed (simp add: packets_def)

lemma interleaved:
  assumes made: "list_all made ts" and ids: "distinct (map fst ts)" and ps: "mset ps = mset (packets ts)"
    and wf: "hm_wf (cr_inflight cr)" and free: "\<forall>i \<in> fst ` set ts. hm_get (cr_inflight cr) i = None"
  shows "\<exists>cr'. receive_all (map (\<lambda>(i, c). ch_data c) ps) cr = Some (map Inr (deliveries (message_of ts) ps), cr') \<and>
     hm_get (cr_inflight cr') = hm_get (cr_inflight cr)"
proof -
  let ?I = "fst ` set ts" and ?data = "\<lambda>i. the (message_of ts i)"
  have "\<forall>i \<in> ?I. \<exists>psize. sendable i (?data i) psize \<and> (\<forall>data chunks. (i, data, chunks) \<in> set ts \<longrightarrow>
      data = ?data i \<and>
      chunks = map (make_chunk i data psize (chunk_total data psize)) [0..<chunk_total data psize])"
  proof
    fix i assume "i \<in> ?I"
    then obtain data chunks where t: "(i, data, chunks) \<in> set ts" by auto
    with made have "made (i, data, chunks)" by (auto simp: list_all_iff)
    then obtain psize where "sendable i data psize"
      "chunks = map (make_chunk i data psize (chunk_total data psize)) [0..<chunk_total data psize]"
      by (rule made_chunks)
    moreover have "x = (data, chunks)" if "(i, x) \<in> set ts" for x
      using ids t that by (meson eq_key_imp_eq_value)
    ultimately show "\<exists>psize. sendable i (?data i) psize \<and> (\<forall>data chunks. (i, data, chunks) \<in> set ts \<longrightarrow>
        data = ?data i \<and>
        chunks = map (make_chunk i data psize (chunk_total data psize)) [0..<chunk_total data psize])"
      using message_of_mem [OF ids t] by (intro exI [of _ psize]) auto
  qed
  then obtain psize where p: "\<forall>i \<in> ?I. sendable i (?data i) (psize i)"
      "\<And>i data chunks. (i, data, chunks) \<in> set ts \<Longrightarrow> data = ?data i \<and> chunks =
         map (make_chunk i data (psize i) (chunk_total data (psize i))) [0..<chunk_total data (psize i)]"
    by (metis (no_types, lifting) bchoice fst_conv image_eqI)
  have set: "set ps = set (packets ts)" using ps by (rule mset_eq_setD)
  have come: "to_come i ps = {..<chunk_total (?data i) (psize i)}" if i: "i \<in> ?I" for i
  proof -
    from i obtain data chunks where t: "(i, data, chunks) \<in> set ts" by auto
    have "(i, c) \<in> set ps \<longleftrightarrow> c \<in> set chunks" for c
      using t p(2) [OF t] p(2) unfolding set set_packets by metis
    then have "to_come i ps = ch_seq_num ` set chunks" by (auto simp: to_come_def)
    with p(2) [OF t] show ?thesis by (simp add: image_image atLeast0LessThan)
  qed
  have "\<exists>cr'. receive_all (map (\<lambda>(i, c). ch_data c) ps) cr =
         Some (map Inr (deliveries (\<lambda>i. Some (?data i)) ps), cr') \<and>
       (\<forall>i. hm_get (cr_inflight cr') i = (if i \<in> ?I then None else hm_get (cr_inflight cr) i))"
  proof (rule receive_interleaved [OF p(1) _ _ _ wf])
    show "\<forall>(i, c) \<in> set ps. i \<in> ?I \<and> c = make_chunk i (?data i) (psize i) (chunk_total (?data i) (psize i)) (ch_seq_num c)"
    proof clarify
      fix i c assume "(i, c) \<in> set ps"
      then obtain data chunks where t: "(i, data, chunks) \<in> set ts" "c \<in> set chunks"
        unfolding set set_packets by blast
      with p(2) [OF t(1)] have "c \<in> make_chunk i (?data i) (psize i) (chunk_total (?data i) (psize i))
          ` {0..<chunk_total (?data i) (psize i)}" by (metis atLeastLessThan_upt set_map)
      with t(1) show "i \<in> ?I \<and> c = make_chunk i (?data i) (psize i) (chunk_total (?data i) (psize i)) (ch_seq_num c)"
        by (auto intro: rev_image_eqI)
    qed
    have "mset (map (\<lambda>(i, c). (i, ch_seq_num c)) ps) = mset (map (\<lambda>(i, c). (i, ch_seq_num c)) (packets ts))"
      using ps by simp
    with packets_distinct [OF made ids] show "distinct (map (\<lambda>(i, c). (i, ch_seq_num c)) ps)"
      by (metis mset_eq_imp_distinct_iff)
    show "\<forall>i \<in> ?I. awaits cr i (?data i) (psize i) (to_come i ps)"
      using free by (auto simp: come awaits_def holds_def)
  qed
  moreover have "deliveries (\<lambda>i. Some (?data i)) ps = deliveries (message_of ts) ps"
  proof (rule deliveries_cong, rule ballI)
    fix i assume "i \<in> fst ` set ps"
    then obtain data chunks where "(i, data, chunks) \<in> set ts" by (auto simp: set set_packets)
    from message_of_mem [OF ids this] show "Some (?data i) = message_of ts i" by simp
  qed
  ultimately obtain cr' where cr': "receive_all (map (\<lambda>(i, c). ch_data c) ps) cr =
        Some (map Inr (deliveries (message_of ts) ps), cr')"
      "\<forall>i. hm_get (cr_inflight cr') i = (if i \<in> ?I then None else hm_get (cr_inflight cr) i)" by auto
  have "hm_get (cr_inflight cr') = hm_get (cr_inflight cr)"
    by (rule ext) (use cr'(2) free in auto)
  with cr'(1) show ?thesis by blast
qed

lemma deliveries_single:
  "order \<noteq> [] \<Longrightarrow> deliveries msg (map (Pair i) order) = replicate (length order - 1) None @ [msg i]"
  by (induction order rule: list_nonempty_induct) (auto simp: neq_Nil_conv image_image)

lemma chunks_in_any_order:
  assumes "chunk_message seed data psize = Some (msg_id, chunks)"
    and "psize < 10 ^ 4" "length chunks < 10 ^ 7" "0 < psize"
    and "mset order = mset chunks"
    and "hm_wf (cr_inflight cr)" "hm_get (cr_inflight cr) msg_id = None"
  shows "\<exists>cr'. receive_all (map ch_data order) cr =
         Some (replicate (length chunks - 1) (Inr None) @ [Inr (Some data)], cr') \<and>
       hm_get (cr_inflight cr') = hm_get (cr_inflight cr)"
proof -
  let ?ts = "[(msg_id, data, chunks)]"
  have "list_all made ?ts" using chunk_message_made [OF assms(1,4,2,3)] by simp
  moreover have "mset (map (Pair msg_id) order) = mset (packets ?ts)"
    using assms(5) by (simp add: packets_def)
  ultimately have "\<exists>cr'. receive_all (map (\<lambda>(i, c). ch_data c) (map (Pair msg_id) order)) cr =
        Some (map Inr (deliveries (message_of ?ts) (map (Pair msg_id) order)), cr') \<and>
      hm_get (cr_inflight cr') = hm_get (cr_inflight cr)"
    using assms(6,7) by (intro interleaved) simp_all
  moreover have "length order = length chunks" using assms(5) by (rule mset_eq_length)
  moreover have "order \<noteq> []"
  proof
    assume "order = []"
    with assms(5) have "chunks = []" by simp
    with assms(1,4) chunk_total_pos [of psize data] show False by (auto simp: chunk_message_def Let_def)
  qed
  ultimately show ?thesis by (simp add: deliveries_single message_of_def o_def)
qed

section \<open>A chunk is not a frame\<close>

text \<open>
  The first four bytes of a chunk are spaces or digits: read as a length they announce more
  than half a gigabyte, so a datagram with a chunk is never taken for a frame.
\<close>

lemma header_start:
  assumes "msg_id \<le> u64_max"
  shows "\<forall>c \<in> set (take 4 (pad_left 20 (show_nat msg_id))). 32 \<le> (of_char c :: nat)"
proof -
  have "\<forall>c \<in> set (pad_left 20 (show_nat msg_id)). 32 \<le> (of_char c :: nat)"
    using show_nat_digits [of msg_id] by (auto simp: pad_left_def list_all_iff is_digit_def)
  then show ?thesis by (meson in_set_takeD)
qed

lemma chunk_not_frame:
  assumes "msg_id \<le> u64_max" "length (chunk_header msg_id seq tot psz @ payload) \<le> 2 ^ 29"
  shows "\<exists>e. decode_message dec (chunk_header msg_id seq tot psz @ payload) = Inl (RecvFailed e)"
proof -
  let ?u = "pad_left 20 (show_nat msg_id)"
  have l: "length ?u = 20" using length_show_u64 [OF assms(1)] by (simp add: length_pads)
  then have "Suc (Suc (Suc (Suc 0))) \<le> length ?u" by simp
  then obtain a b c d r where u: "?u = a # b # c # d # r"
    unfolding Suc_le_length_iff by blast
  have "32 \<le> (of_char a :: nat)" using header_start [OF assms(1)] by (simp add: u)
  then have "32 \<le> unat (byte_of a)" by (simp add: unat_byte_of)
  then have "2 ^ 29 \<le> unat (from_be_bytes (byte_of a) (byte_of b) (byte_of c) (byte_of d))"
    by (simp add: unat_from_be_bytes)
  moreover have "frame_len (chunk_header msg_id seq tot psz @ payload)
      = unat (from_be_bytes (byte_of a) (byte_of b) (byte_of c) (byte_of d))"
    by (simp add: chunk_header_def u frame_len_def)
  ultimately show ?thesis using assms(2) by (auto simp: decode_message_def Let_def)
qed

section \<open>A chunk numbered past its total\<close>

text \<open>The receiver counts the numbers it saw, but asks for the numbers below the total.\<close>

text \<open>
  A chunk that names itself beyond its own total, the first of its message, counts as
  completing the message, and the receiver then takes a chunk it does not have.
\<close>

lemma stray_chunk_panics:
  assumes "msg_id \<le> u64_max" "0 < seq" "seq < 10 ^ 7" "length payload < 10 ^ 4"
    and "hm_get (cr_inflight cr) msg_id = None"
  shows "receive (chunk_header msg_id seq 1 (length payload) @ payload) cr = None"
proof -
  have "parse_chunk (chunk_header msg_id seq 1 (length payload) @ payload)
      = Inr (msg_id, seq, 1, payload)"
    using parse_chunk_header [of msg_id seq 1 payload "[]"] assms(1-4) by simp
  note step = receive_parsed [OF this refl refl refl refl refl, of cr]
  have "hm_get (hm_insert seq payload []) 0 = None" using assms(2) by simp
  then have "reassemble ((ChunkReassembler_new msg_id 1 (1 * CHUNK_PAYLOAD_SIZE))
      \<lparr>ra_chunks := hm_insert seq payload []\<rparr>) = None"
    by (simp add: reassemble_def ChunkReassembler_new_def)
  then show ?thesis
    unfolding step assms(5) by (simp add: ChunkReassembler_new_def hm_insert_def)
qed

section \<open>Properties\<close>

text \<open>
  C17. Messages cut into chunks are put together again, however their chunks are interleaved and
  reordered: a chunk is answered with nothing, unless it is the last of its message to arrive,
  which is answered with that message; and what the receiver holds of other messages is left as
  it was. So each message is delivered once, whole.
\<close>

theorem chunks_interleave:
  assumes "list_all made ts" "distinct (map fst ts)" "mset ps = mset (packets ts)"
    and "hm_wf (cr_inflight cr)" "\<forall>i \<in> fst ` set ts. hm_get (cr_inflight cr) i = None"
  shows "\<exists>cr'. receive_all (map (\<lambda>(i, c). ch_data c) ps) cr = Some (map Inr (deliveries (message_of ts) ps), cr') \<and>
     hm_get (cr_inflight cr') = hm_get (cr_inflight cr)"
  using assms by (rule interleaved)

theorem chunks_interleave_witness:
  fixes c :: "nat \<Rightarrow> nat \<Rightarrow> chunk" and ts :: "transfer list"
  defines "c \<equiv> (\<lambda>i. make_chunk i [1, 2, 3] 2 2)"
    and "ts \<equiv> [(7, [1, 2, 3], [make_chunk 7 [1, 2, 3] 2 2 0, make_chunk 7 [1, 2, 3] 2 2 1]),
       (8, [4], [make_chunk 8 [4] 2 1 0])]"
  shows "\<exists>cr'. receive_all [ch_data (c 7 1), ch_data (make_chunk 8 [4] 2 1 0), ch_data (c 7 0)] ChunkReceiver_new =
       Some ([Inr None, Inr (Some [4]), Inr (Some [1, 2, 3])], cr') \<and>
     hm_get (cr_inflight cr') = Map.empty"
proof -
  let ?ps = "[(7, c 7 1), (8, make_chunk 8 [4] 2 1 0), (7, c 7 0)] :: packet list"
  have "made (7, [1, 2, 3], [make_chunk 7 [1, 2, 3] 2 2 0, make_chunk 7 [1, 2, 3] 2 2 1])"
    "made (8, [4], [make_chunk 8 [4] 2 1 0])"
    by (auto simp: made_def sendable_def u64_max_def chunk_total_def upt_rec intro!: exI [of _ 2])
  then have "list_all made ts" by (simp add: ts_def)
  moreover have "distinct (map fst ts)" by (simp add: ts_def)
  moreover have "mset ?ps = mset (packets ts)"
    by (simp add: packets_def ts_def c_def)
  ultimately have "\<exists>cr'. receive_all (map (\<lambda>(i, c). ch_data c) ?ps) ChunkReceiver_new =
      Some (map Inr (deliveries (message_of ts) ?ps), cr') \<and>
      hm_get (cr_inflight cr') = hm_get (cr_inflight ChunkReceiver_new)"
    by (rule chunks_interleave) (simp_all add: ChunkReceiver_new_def)
  then show ?thesis by (simp add: message_of_def ts_def ChunkReceiver_new_def)
qed

end
