(* ===== verification/Udp.thy ===== *)
theory Udp
  imports Request_Handler Chunk_Transfer Socket_Addr Framing
begin

text \<open>
  \<open>zht-transport/src/udp.rs\<close>: the proxy, which sends a request in one datagram, or in chunks when
  it is long, and takes the next datagram for the answer; and the server, which takes a datagram
  for a frame, or else for a chunk. The network is an argument: what sending answers, and which
  datagrams arrive before the timeout.
\<close>

definition UDP_MAX_DATAGRAM :: nat where "UDP_MAX_DATAGRAM = 65507"

text \<open>A datagram, with the address it comes from or goes to.\<close>

type_synonym datagram = "socket_addr \<times> u8 list"

section \<open>UdpProxy\<close>

text \<open>
  The state of the socket: the datagrams that wait in its queue, and, for the statements, those
  that were sent.
\<close>

record udp_proxy =
  up_metrics :: transport_metrics
  up_queue :: "datagram list"
  up_sent :: "datagram list"

definition bind_failed :: "string \<Rightarrow> zht_error" where
  "bind_failed e = ConnectionFailed ''0.0.0.0'' 0 e"

definition UdpProxy_with_metrics :: "string option \<Rightarrow> transport_metrics \<Rightarrow> udp_proxy zht_result" where
  "UdpProxy_with_metrics bind_err m =
     (case bind_err of
        Some e \<Rightarrow> Inl (bind_failed e)
      | None \<Rightarrow> Inr \<lparr>up_metrics = m, up_queue = [], up_sent = []\<rparr>)"

definition UdpProxy_new :: "string option \<Rightarrow> udp_proxy zht_result" where
  "UdpProxy_new bind_err = UdpProxy_with_metrics bind_err TransportMetrics_new"

text \<open>
  One call: the error of each datagram's send if it fails, and what happens until the timeout of
  five seconds.
\<close>

record udp_env =
  ue_send_err :: "nat \<Rightarrow> string option"
  ue_arrive :: "datagram list"
  ue_recv_err :: "string option"

definition up_count :: "(transport_metrics \<Rightarrow> transport_metrics) \<Rightarrow> udp_proxy \<Rightarrow> udp_proxy" where
  "up_count f px = px\<lparr>up_metrics := f (up_metrics px)\<rparr>"

definition bad_address :: "string \<Rightarrow> u16 \<Rightarrow> string \<Rightarrow> zht_error" where
  "bad_address host port e = ConnectionFailed host port (''Invalid address: '' @ e)"

definition send_datagram :: "socket_addr \<Rightarrow> u8 list \<Rightarrow> udp_proxy \<Rightarrow> udp_proxy" where
  "send_datagram addr bytes px =
     up_count (add_bytes_sent (of_nat (length bytes))) (px\<lparr>up_sent := up_sent px @ [(addr, bytes)]\<rparr>)"

text \<open>\<open>recv_from\<close> into a buffer of the largest size, and the decoding of what it got.\<close>

definition await_answer ::
  "decoder \<Rightarrow> udp_env \<Rightarrow> string \<Rightarrow> udp_proxy \<Rightarrow> zpack zht_result \<times> udp_proxy"
where
  "await_answer dec env timeout_msg px =
     (case up_queue px @ ue_arrive env of
        [] \<Rightarrow>
          (Inl (RecvFailed (case ue_recv_err env of Some e \<Rightarrow> e | None \<Rightarrow> timeout_msg)),
           up_count inc_recv_errors px)
      | (src, bytes) # rest \<Rightarrow>
          let buf = take UDP_MAX_DATAGRAM bytes;
              px1 = up_count (inc_messages_received \<circ> add_bytes_received (of_nat (length buf)))
                      (px\<lparr>up_queue := rest\<rparr>)
          in (case framing_decode_message dec buf of Inl e \<Rightarrow> Inl e | Inr (z, _) \<Rightarrow> Inr z, px1))"

definition sendrecv_framed ::
  "encoder \<Rightarrow> decoder \<Rightarrow> udp_env \<Rightarrow> socket_addr \<Rightarrow> zpack \<Rightarrow> udp_proxy \<Rightarrow> zpack zht_result \<times> udp_proxy"
where
  "sendrecv_framed enc dec env addr request px =
     (case ue_send_err env 0 of
        Some e \<Rightarrow> (Inl (SendFailed e), px)
      | None \<Rightarrow>
          await_answer dec env ''UDP timeout''
            (up_count inc_messages_sent (send_datagram addr (framing_encode_message enc request) px)))"

fun send_chunks ::
  "udp_env \<Rightarrow> socket_addr \<Rightarrow> nat \<Rightarrow> chunk list \<Rightarrow> udp_proxy \<Rightarrow> unit zht_result \<times> udp_proxy"
where
  "send_chunks env addr i [] px = (Inr (), px)"
| "send_chunks env addr i (c # cs) px =
     (case ue_send_err env i of
        Some e \<Rightarrow> (Inl (SendFailed e), px)
      | None \<Rightarrow>
          send_chunks env addr (Suc i) cs (up_count inc_chunks_sent (send_datagram addr (ch_data c) px)))"

definition sendrecv_chunked ::
  "encoder \<Rightarrow> decoder \<Rightarrow> udp_env \<Rightarrow> u64 \<Rightarrow> socket_addr \<Rightarrow> zpack \<Rightarrow> udp_proxy
    \<Rightarrow> (zpack zht_result \<times> udp_proxy) option"
where
  "sendrecv_chunked enc dec env seed addr request px =
     (case chunk_message seed (enc request) CHUNK_PAYLOAD_SIZE of
        None \<Rightarrow> None
      | Some (_, chunks) \<Rightarrow>
          (case send_chunks env addr 0 chunks px of
             (Inl e, px1) \<Rightarrow> Some (Inl e, px1)
           | (Inr _, px1) \<Rightarrow>
               Some (await_answer dec env ''UDP timeout (chunked)'' (up_count inc_messages_sent px1))))"

text \<open>\<open>seed\<close> is what \<open>IdHelper::gen_id\<close> reads off the clock, if it is called. None is a panic.\<close>

definition udp_sendrecv ::
  "encoder \<Rightarrow> decoder \<Rightarrow> udp_env \<Rightarrow> u64 \<Rightarrow> string \<Rightarrow> u16 \<Rightarrow> zpack \<Rightarrow> udp_proxy
    \<Rightarrow> (zpack zht_result \<times> udp_proxy) option"
where
  "udp_sendrecv enc dec env seed host port request px =
     (case parse_socket_addr (gen_base host port) of
        Inl e \<Rightarrow> Some (Inl (bad_address host port e), px)
      | Inr addr \<Rightarrow>
          if DEFAULT_CHUNK_THRESHOLD < length (enc request)
          then sendrecv_chunked enc dec env seed addr request px
          else Some (sendrecv_framed enc dec env addr request px))"

definition udp_send_only ::
  "encoder \<Rightarrow> udp_env \<Rightarrow> string \<Rightarrow> u16 \<Rightarrow> zpack \<Rightarrow> udp_proxy \<Rightarrow> unit zht_result \<times> udp_proxy"
where
  "udp_send_only enc env host port request px =
     (case parse_socket_addr (gen_base host port) of
        Inl e \<Rightarrow> (Inl (bad_address host port e), px)
      | Inr addr \<Rightarrow>
          (case ue_send_err env 0 of
             Some e \<Rightarrow> (Inl (SendFailed e), px)
           | None \<Rightarrow>
               (Inr (), up_count inc_messages_sent
                  (send_datagram addr (framing_encode_message enc request) px))))"

section \<open>UdpServer\<close>

record 'h udp_server =
  us_metrics :: transport_metrics
  us_receiver :: chunk_receiver
  us_handler :: 'h
  us_sent :: "datagram list"

definition UdpServer_with_metrics :: "transport_metrics \<Rightarrow> 'h \<Rightarrow> 'h udp_server" where
  "UdpServer_with_metrics m h =
     \<lparr>us_metrics = m, us_receiver = ChunkReceiver_new, us_handler = h, us_sent = []\<rparr>"

definition UdpServer_new :: "'h \<Rightarrow> 'h udp_server" where
  "UdpServer_new h = UdpServer_with_metrics TransportMetrics_new h"

text \<open>
  What one round of the loop finds: the shutdown, nothing for a tenth of a second, an error of
  the socket, or a datagram with its source; and then the error of sending the answer, if it fails.
\<close>

datatype udp_event =
    Ue_Shutdown
  | Ue_Idle
  | Ue_Error string
  | Ue_Datagram socket_addr "u8 list" "string option"

definition us_count :: "(transport_metrics \<Rightarrow> transport_metrics) \<Rightarrow> 'h udp_server \<Rightarrow> 'h udp_server" where
  "us_count f us = us\<lparr>us_metrics := f (us_metrics us)\<rparr>"

definition udp_respond ::
  "encoder \<Rightarrow> 'h handler \<Rightarrow> socket_addr \<Rightarrow> string option \<Rightarrow> zpack \<Rightarrow> 'h udp_server \<Rightarrow> 'h udp_server option"
where
  "udp_respond enc handle src send_err request us =
     (case handle request (us_handler us) of
        None \<Rightarrow> None
      | Some (response, h) \<Rightarrow>
          let frame = framing_encode_message enc response;
              us1 = us_count inc_requests_processed (us\<lparr>us_handler := h\<rparr>)
          in case send_err of
               Some e \<Rightarrow> Some (us_count inc_send_errors us1)
             | None \<Rightarrow>
                 Some (us_count (add_bytes_sent (of_nat (length frame)))
                        (us1\<lparr>us_sent := us_sent us1 @ [(src, frame)]\<rparr>)))"

definition udp_datagram ::
  "encoder \<Rightarrow> decoder \<Rightarrow> 'h handler \<Rightarrow> socket_addr \<Rightarrow> u8 list \<Rightarrow> string option \<Rightarrow> 'h udp_server
    \<Rightarrow> 'h udp_server option"
where
  "udp_datagram enc dec handle src bytes send_err us =
     (let buf = take UDP_MAX_DATAGRAM bytes;
          us1 = us_count (add_bytes_received (of_nat (length buf))) us
      in case framing_decode_message dec buf of
           Inr (request, _) \<Rightarrow> udp_respond enc handle src send_err request us1
         | Inl _ \<Rightarrow>
             (case receive buf (us_receiver us1) of
                None \<Rightarrow> None
              | Some (Inr (Some assembled), cr) \<Rightarrow>
                  (case framing_decode_message dec assembled of
                     Inr (request, _) \<Rightarrow>
                       udp_respond enc handle src send_err request (us1\<lparr>us_receiver := cr\<rparr>)
                   | Inl _ \<Rightarrow> Some (us1\<lparr>us_receiver := cr\<rparr>))
              | Some (Inr None, cr) \<Rightarrow> Some (us1\<lparr>us_receiver := cr\<rparr>)
              | Some (Inl e, cr) \<Rightarrow> Some (us1\<lparr>us_receiver := cr\<rparr>)))"

text \<open>The loop returns when it sees the shutdown; None is a panic, or a handler that never answers.\<close>

fun udp_loop ::
  "encoder \<Rightarrow> decoder \<Rightarrow> 'h handler \<Rightarrow> udp_event list \<Rightarrow> 'h udp_server \<Rightarrow> (bool \<times> 'h udp_server) option"
where
  "udp_loop enc dec handle [] us = Some (False, us)"
| "udp_loop enc dec handle (Ue_Shutdown # evs) us = Some (True, us)"
| "udp_loop enc dec handle (Ue_Idle # evs) us = udp_loop enc dec handle evs us"
| "udp_loop enc dec handle (Ue_Error e # evs) us =
     udp_loop enc dec handle evs (us_count inc_recv_errors us)"
| "udp_loop enc dec handle (Ue_Datagram src bytes send_err # evs) us =
     (case udp_datagram enc dec handle src bytes send_err us of
        None \<Rightarrow> None
      | Some us1 \<Rightarrow> udp_loop enc dec handle evs us1)"

text \<open>\<open>run\<close>: the errors of the socket's set-up; then the loop, with a receiver of its own.\<close>

definition udp_run ::
  "encoder \<Rightarrow> decoder \<Rightarrow> 'h handler \<Rightarrow> socket_addr \<Rightarrow> string option \<Rightarrow> string + socket_addr
    \<Rightarrow> udp_event list \<Rightarrow> 'h udp_server \<Rightarrow> (socket_addr zht_result option \<times> 'h udp_server) option"
where
  "udp_run enc dec handle addr bind_err local_addr evs us =
     (case bind_err of
        Some e \<Rightarrow> Some (Some (Inl (ConnectionFailed (show_ip addr) (addr_port addr) e)), us)
      | None \<Rightarrow>
     (case local_addr of
        Inl e \<Rightarrow> Some (Some (Inl (ConnectionFailed (show_ip addr) (addr_port addr) e)), us)
      | Inr bound \<Rightarrow>
          map_option (\<lambda>(stopped, us1). (if stopped then Some (Inr bound) else None, us1))
            (udp_loop enc dec handle evs (us\<lparr>us_receiver := ChunkReceiver_new\<rparr>))))"

section \<open>Small requests\<close>

lemma udp_fields [simp]:
  "up_sent (up_count f px) = up_sent px" "up_queue (up_count f px) = up_queue px"
  "up_sent (send_datagram addr bytes px) = up_sent px @ [(addr, bytes)]"
  "up_queue (send_datagram addr bytes px) = up_queue px"
  "us_sent (us_count g us) = us_sent us" "us_handler (us_count g us) = us_handler us"
  "us_receiver (us_count g us) = us_receiver us"
  by (simp_all add: up_count_def send_datagram_def us_count_def)

context request_handler
begin

lemma datagram_answered:
  assumes "sound (us_handler us)" "\<not> is_sccb req" "clean_codec enc dec req"
    and "length (encode_message enc req) \<le> UDP_MAX_DATAGRAM"
  shows "\<exists>us'. udp_datagram enc dec handle src (encode_message enc req) None us = Some us' \<and>
     us_sent us' = us_sent us @
       [(src, encode_message enc (fst (node_answer req (stored (us_handler us)))))] \<and>
     sound (us_handler us') \<and>
     stored (us_handler us') = snd (node_answer req (stored (us_handler us)))"
proof -
  from handles [OF assms(1,2)] obtain h
    where h: "handle req (us_handler us) = Some (fst (node_answer req (stored (us_handler us))), h)"
      "sound h" "stored h = snd (node_answer req (stored (us_handler us)))" by blast
  have "decode_message dec (encode_message enc req @ []) = Inr (req, [])"
    using assms(3) by (intro decode_encode) (simp_all add: clean_codec_def)
  then show ?thesis
    using h assms(4) by (simp add: udp_datagram_def udp_respond_def Let_def)
qed

end

section \<open>Long requests\<close>

lemma send_chunks_all:
  assumes "\<And>j. ue_send_err env j = None"
  shows "fst (send_chunks env addr i cs px) = Inr () \<and>
     up_sent (snd (send_chunks env addr i cs px)) = up_sent px @ map (\<lambda>c. (addr, ch_data c)) cs"
  by (induction cs arbitrary: i px) (simp_all add: assms)

lemma await_answer_sent: "up_sent (snd (await_answer dec env msg px)) = up_sent px"
  by (simp add: await_answer_def Let_def split: list.split)

text \<open>Chunks that assemble to something that is no frame change the receiver only.\<close>

lemma chunks_dropped:
  assumes "receive_all raws (us_receiver us) = Some (rs, cr)"
    and "\<forall>raw \<in> set raws. length raw \<le> UDP_MAX_DATAGRAM \<and> isl (decode_message dec raw)"
    and "\<forall>r \<in> set rs. \<forall>bytes. r = Inr (Some bytes) \<longrightarrow> isl (decode_message dec bytes)"
  shows "\<exists>us'. udp_loop enc dec handle (map (\<lambda>raw. Ue_Datagram src raw None) raws) us = Some (False, us') \<and>
     us_receiver us' = cr \<and> us_handler us' = us_handler us \<and> us_sent us' = us_sent us"
  using assms
proof (induction raws arbitrary: us rs)
  case (Cons raw raws)
  let ?us1 = "us_count (add_bytes_received (of_nat (length raw))) us"
  from Cons.prems(1) obtain r cr1 rs1
    where r: "receive raw (us_receiver us) = Some (r, cr1)" and rest: "receive_all raws cr1 = Some (rs1, cr)"
      and rs: "rs = r # rs1" by (auto split: option.splits)
  obtain e where e: "decode_message dec raw = Inl e" using Cons.prems(2) by (auto simp: isl_def)
  have "length raw \<le> UDP_MAX_DATAGRAM" using Cons.prems(2) by simp
  with r e Cons.prems(3) rs have step: "udp_datagram enc dec handle src raw None us = Some (?us1\<lparr>us_receiver := cr1\<rparr>)"
    by (auto simp: udp_datagram_def Let_def isl_def split: sum.split option.split)
  have "\<exists>us'. udp_loop enc dec handle (map (\<lambda>raw. Ue_Datagram src raw None) raws) (?us1\<lparr>us_receiver := cr1\<rparr>)
        = Some (False, us') \<and> us_receiver us' = cr \<and>
      us_handler us' = us_handler (?us1\<lparr>us_receiver := cr1\<rparr>) \<and> us_sent us' = us_sent (?us1\<lparr>us_receiver := cr1\<rparr>)"
    by (rule Cons.IH) (use rest Cons.prems(2,3) rs in auto)
  with step show ?case by simp
qed simp

lemma made_chunk_length:
  assumes "msg_id \<le> u64_max" "seq < 10 ^ 7" "tot < 10 ^ 7"
  shows "length (ch_data (make_chunk msg_id data CHUNK_PAYLOAD_SIZE tot seq)) \<le> 550"
proof -
  have "length (chunk_payload data CHUNK_PAYLOAD_SIZE seq) \<le> 512"
    using length_chunk_payload [of data CHUNK_PAYLOAD_SIZE seq] by (simp add: CHUNK_PAYLOAD_SIZE_def)
  then show ?thesis
    using chunk_header_length [OF assms, of "length (chunk_payload data CHUNK_PAYLOAD_SIZE seq)"]
    by (simp add: make_chunk_def Let_def CHUNK_HEADER_SIZE_def)
qed

lemma long_message_dropped:
  assumes "chunk_message seed data CHUNK_PAYLOAD_SIZE = Some (msg_id, chunks)" "mset order = mset chunks"
    and "8 \<le> unat (hd data)" "4 \<le> length data" "length data < 2 ^ 27"
    and "hm_wf (cr_inflight (us_receiver us))" "hm_get (cr_inflight (us_receiver us)) msg_id = None"
  shows "\<exists>us'. udp_loop enc dec handle (map (\<lambda>c. Ue_Datagram src (ch_data c) None) order) us = Some (False, us') \<and>
     us_handler us' = us_handler us \<and> us_sent us' = us_sent us \<and>
     receive_all (map ch_data order) (us_receiver us) =
       Some (replicate (length order - 1) (Inr None) @ [Inr (Some data)], us_receiver us')"
proof -
  let ?tot = "chunk_total data CHUNK_PAYLOAD_SIZE"
  have id: "msg_id = unat (gen_id seed)"
    and chunks: "chunks = map (make_chunk msg_id data CHUNK_PAYLOAD_SIZE ?tot) [0..<?tot]"
    using assms(1) by (auto simp: chunk_message_def Let_def CHUNK_PAYLOAD_SIZE_def)
  have "unat (gen_id seed) < 2 ^ 64" using unsigned_less [of "gen_id seed"] by simp
  then have id64: "msg_id \<le> u64_max" by (simp add: id u64_max_def)
  have tot: "?tot < 10 ^ 7"
    using assms(5) by (simp add: chunk_total_def CHUNK_PAYLOAD_SIZE_def) linarith
  have "\<exists>cr'. receive_all (map ch_data order) (us_receiver us) =
         Some (replicate (length chunks - 1) (Inr None) @ [Inr (Some data)], cr') \<and>
       hm_get (cr_inflight cr') = hm_get (cr_inflight (us_receiver us))"
    by (rule chunks_in_any_order [OF assms(1)])
      (use tot assms(2,6,7) in \<open>simp_all add: chunks, simp_all add: CHUNK_PAYLOAD_SIZE_def\<close>)
  then obtain cr' where recv: "receive_all (map ch_data order) (us_receiver us) =
         Some (replicate (length chunks - 1) (Inr None) @ [Inr (Some data)], cr')" by blast
  have small: "length (ch_data c) \<le> UDP_MAX_DATAGRAM \<and> isl (decode_message dec (ch_data c))"
    if "c \<in> set order" for c
  proof -
    from that obtain seq where seq: "seq < ?tot" "c = make_chunk msg_id data CHUNK_PAYLOAD_SIZE ?tot seq"
      using mset_eq_setD [OF assms(2)] by (auto simp: chunks)
    then have len: "length (ch_data c) \<le> 550"
      using made_chunk_length [OF id64 _ tot, of seq data] tot by simp
    obtain e where "decode_message dec (ch_data c) = Inl (RecvFailed e)"
      using chunk_not_frame [OF id64, of seq ?tot "length (chunk_payload data CHUNK_PAYLOAD_SIZE seq)"
          "chunk_payload data CHUNK_PAYLOAD_SIZE seq" dec] len seq(2)
      by (auto simp: make_chunk_def Let_def)
    with len show ?thesis by (simp add: UDP_MAX_DATAGRAM_def)
  qed
  have "\<exists>us'. udp_loop enc dec handle (map (\<lambda>raw. Ue_Datagram src raw None) (map ch_data order)) us
        = Some (False, us') \<and> us_receiver us' = cr' \<and> us_handler us' = us_handler us \<and> us_sent us' = us_sent us"
    by (rule chunks_dropped [OF recv]) (use small tag_not_frame [OF assms(3-5)] in auto)
  moreover have "length order = length chunks" using assms(2) by (rule mset_eq_length)
  ultimately show ?thesis using recv by (auto simp: o_def)
qed

lemma no_answer_comes:
  assumes "up_queue px = []" "ue_arrive env = []" "ue_recv_err env = None"
  shows "fst (await_answer dec env msg px) = Inl (RecvFailed msg)"
  using assms by (simp add: await_answer_def)

lemma send_chunks_queue: "up_queue (snd (send_chunks env addr i cs px)) = up_queue px"
  by (induction cs arbitrary: i px) (simp_all split: option.split)


section \<open>Late answers\<close>

text \<open>A call of \<open>sendrecv\<close>: the network during it, the peer and the request; and calls in a row.\<close>

type_synonym udp_call = "udp_env \<times> string \<times> u16 \<times> zpack"

fun udp_calls ::
  "encoder \<Rightarrow> decoder \<Rightarrow> u64 \<Rightarrow> udp_call list \<Rightarrow> udp_proxy \<Rightarrow> (zpack zht_result list \<times> udp_proxy) option"
where
  "udp_calls enc dec seed [] px = Some ([], px)"
| "udp_calls enc dec seed ((env, host, port, request) # calls) px =
     (case udp_sendrecv enc dec env seed host port request px of
        None \<Rightarrow> None
      | Some (r, px1) \<Rightarrow>
          map_option (\<lambda>(rs, px2). (r # rs, px2)) (udp_calls enc dec seed calls px1))"

definition fits_datagram :: "encoder \<Rightarrow> decoder \<Rightarrow> zpack \<Rightarrow> bool" where
  "fits_datagram enc dec z \<longleftrightarrow> clean_codec enc dec z \<and> length (encode_message enc z) \<le> UDP_MAX_DATAGRAM"

text \<open>A call whose request is sent, and during which one answer arrives, from anywhere.\<close>

definition call_answered :: "encoder \<Rightarrow> decoder \<Rightarrow> udp_call \<Rightarrow> zpack \<Rightarrow> bool" where
  "call_answered enc dec call answer \<longleftrightarrow>
     (case call of (env, host, port, request) \<Rightarrow>
        \<not> isl (parse_socket_addr (gen_base host port)) \<and> ue_send_err env 0 = None \<and>
        length (enc request) \<le> DEFAULT_CHUNK_THRESHOLD \<and> map snd (ue_arrive env) = [encode_message enc answer])"

lemma await_first:
  assumes "fits_datagram enc dec z" "up_queue px @ ue_arrive env = (src, encode_message enc z) # rest"
  shows "\<exists>px'. await_answer dec env msg px = (Inr z, px') \<and> up_queue px' = rest \<and> up_sent px' = up_sent px"
proof -
  have "decode_message dec (encode_message enc z @ []) = Inr (z, [])"
    using assms(1) by (intro decode_encode) (simp_all add: fits_datagram_def clean_codec_def)
  with assms show ?thesis by (simp add: await_answer_def fits_datagram_def Let_def)
qed

text \<open>The call takes what waits in the queue, and leaves its own answer there.\<close>

lemma call_takes_queued:
  assumes "call_answered enc dec (env, host, p, req) answer" "fits_datagram enc dec late"
    and "map snd (up_queue px) = [encode_message enc late]"
  shows "\<exists>px'. udp_sendrecv enc dec env seed host p req px = Some (Inr late, px') \<and>
    map snd (up_queue px') = [encode_message enc answer]"
proof -
  from assms(1) obtain addr where a: "parse_socket_addr (gen_base host p) = Inr addr" "ue_send_err env 0 = None"
      "length (enc req) \<le> DEFAULT_CHUNK_THRESHOLD" "map snd (ue_arrive env) = [encode_message enc answer]"
    by (auto simp: call_answered_def isl_def split: sum.splits) (metis sum.collapse(2) isl_def)
  from assms(3) obtain src where q: "up_queue px = [(src, encode_message enc late)]"
    by (auto simp: map_eq_Cons_conv)
  let ?px = "up_count inc_messages_sent (send_datagram addr (encode_message enc req) px)"
  obtain px' where "await_answer dec env ''UDP timeout'' ?px = (Inr late, px')" "up_queue px' = ue_arrive env"
    using await_first [OF assms(2), of ?px env src "ue_arrive env" "''UDP timeout''"] q by auto
  with a show ?thesis by (simp add: udp_sendrecv_def sendrecv_framed_def)
qed

lemma calls_shift:
  assumes "list_all2 (call_answered enc dec) calls answers"
    and "list_all (fits_datagram enc dec) (late # answers)" "map snd (up_queue px) = [encode_message enc late]"
  shows "\<exists>px'. udp_calls enc dec seed calls px = Some (map Inr (butlast (late # answers)), px') \<and>
    map snd (up_queue px') = [encode_message enc (last (late # answers))]"
  using assms
proof (induction calls answers arbitrary: px late rule: list_all2_induct)
  case (Cons call calls answer answers)
  obtain env host p req where c: "call = (env, host, p, req)" by (cases call)
  from Cons.hyps(1) c obtain px1 where "udp_sendrecv enc dec env seed host p req px = Some (Inr late, px1)"
      "map snd (up_queue px1) = [encode_message enc answer]"
    using call_takes_queued [of enc dec env host p req answer late px seed] Cons.prems by auto
  with Cons.IH [of answer px1] Cons.prems(1) c show ?case by auto
qed simp

lemma call_timed_out:
  assumes "parse_socket_addr (gen_base host p) = Inr addr" "ue_send_err env 0 = None"
    and "length (enc req) \<le> DEFAULT_CHUNK_THRESHOLD" "up_queue px = []" "ue_arrive env = []" "ue_recv_err env = None"
  shows "\<exists>px'. udp_sendrecv enc dec env seed host p req px = Some (Inl (RecvFailed ''UDP timeout''), px') \<and>
    up_queue px' = []"
  using assms by (simp add: udp_sendrecv_def sendrecv_framed_def await_answer_def)

text \<open>The loop on a longer list of events goes on where it stood.\<close>

lemma udp_loop_append:
  "udp_loop enc dec handle (evs1 @ evs2) us =
     (case udp_loop enc dec handle evs1 us of
        None \<Rightarrow> None
      | Some (stopped, us1) \<Rightarrow>
          if stopped then Some (True, us1) else udp_loop enc dec handle evs2 us1)"
  by (induction enc dec handle evs1 us rule: udp_loop.induct) (simp_all split: option.split)

section \<open>Properties\<close>

text \<open>
  C26. A request that fits a datagram, and whose answer fits one, is answered over UDP as over
  TCP, unless it is a state-change callback: the server answers its frame with one datagram,
  the frame of what a node with the worker's map answers, and changes the map accordingly; the
  proxy, whose socket has nothing else waiting, returns that answer when it arrives, having
  sent one datagram. A datagram carries up to 65507 bytes.
\<close>

theorem udp_request_answered:
  fixes us :: "worker_handler udp_server" and req :: zpack
  defines "answer \<equiv> node_answer req (wh_map (us_handler us))"
  assumes "parse_socket_addr (gen_base h p) = Inr addr" "ue_send_err env 0 = None" "up_queue px = []"
    and "\<not> is_sccb req" "clean_codec enc dec req" "length (encode_message enc req) \<le> UDP_MAX_DATAGRAM"
    and "clean_codec enc dec (fst answer)" "length (encode_message enc (fst answer)) \<le> UDP_MAX_DATAGRAM"
    and "ue_arrive env = [(addr, encode_message enc (fst answer))]" "wh_wf (us_handler us)"
  shows "\<exists>us' px'.
    udp_datagram enc dec (WorkerHandler_handle envs) src (encode_message enc req) None us = Some us' \<and>
    us_sent us' = us_sent us @ [(src, encode_message enc (fst answer))] \<and>
    wh_map (us_handler us') = snd answer \<and>
    udp_sendrecv enc dec env seed h p req px = Some (Inr (fst answer), px') \<and>
    up_sent px' = up_sent px @ [(addr, encode_message enc req)]"
proof -
  have "decode_message dec (encode_message enc (fst answer) @ []) = Inr (fst answer, [])"
    using assms(8) by (intro decode_encode) (simp_all add: clean_codec_def)
  moreover have "length (enc req) \<le> DEFAULT_CHUNK_THRESHOLD"
    using assms(7) by (simp add: length_encode_message UDP_MAX_DATAGRAM_def DEFAULT_CHUNK_THRESHOLD_def)
  ultimately have "\<exists>px'. udp_sendrecv enc dec env seed h p req px = Some (Inr (fst answer), px') \<and>
      up_sent px' = up_sent px @ [(addr, encode_message enc req)]"
    using assms(2-4,9,10)
    by (simp add: udp_sendrecv_def sendrecv_framed_def await_answer_def)
  with worker_handler.datagram_answered [OF assms(11,5,6,7), where src = src and envs = envs] show ?thesis
    unfolding answer_def by blast
qed

theorem udp_request_answered_witness:
  fixes us :: "worker_handler udp_server" and req resp :: zpack and px :: udp_proxy and env :: udp_env
    and envs :: "nat \<Rightarrow> serve_env"
  defines "us \<equiv> UdpServer_new (WorkerHandler_new (HTWorker_new NoVoHT_new))"
    and "req \<equiv> ZPack_default"
    and "px \<equiv> \<lparr>up_metrics = TransportMetrics_new, up_queue = [], up_sent = []\<rparr>"
    and "resp \<equiv> answered REC_EMPTYKEY ZPack_default"
    and "env \<equiv> \<lparr>ue_send_err = (\<lambda>_. None),
        ue_arrive = [(SA_V4 (Ipv4 10 0 0 1) 7, encode_message sample_enc resp)], ue_recv_err = None\<rparr>"
    and "envs \<equiv> \<lambda>_. \<lparr>se_io = Io_Ok, se_views = (\<lambda>_. NoVoHT_new), se_clock = (\<lambda>_. 0)\<rparr>"
  shows "\<exists>us' px'.
    udp_datagram sample_enc sample_dec (WorkerHandler_handle envs) (SA_V4 (Ipv4 10 0 0 2) 9)
        (encode_message sample_enc req) None us = Some us' \<and>
    us_sent us' = us_sent us @ [((SA_V4 (Ipv4 10 0 0 2) 9), encode_message sample_enc
        (fst (node_answer req (wh_map (us_handler us)))))] \<and>
    wh_map (us_handler us') = snd (node_answer req (wh_map (us_handler us))) \<and>
    udp_sendrecv sample_enc sample_dec env 0 ''10.0.0.1'' 7 req px
        = Some (Inr (fst (node_answer req (wh_map (us_handler us)))), px') \<and>
    up_sent px' = up_sent px @ [(SA_V4 (Ipv4 10 0 0 1) 7, encode_message sample_enc req)]"
proof -
  have a: "node_answer req m = (resp, m)" for m
    by (simp add: node_answer_def req_def resp_def ZPack_default_def)
  have s: "length (zp_opcode resp) + length (zp_key resp) + length (zp_val resp) + length (zp_newval resp)
      + length (zp_lease resp) \<le> 3"
    by (simp add: resp_def answered_def start_response_def ZPack_default_def status_defs)
  have "length (sample_enc resp) \<le> 17" using s by (simp add: length_sample_enc)
  then have c: "clean_codec sample_enc sample_dec resp"
    "length (encode_message sample_enc resp) \<le> UDP_MAX_DATAGRAM"
    by (simp_all add: length_encode_message UDP_MAX_DATAGRAM_def clean_codec_def sample_dec_enc
        del: sample_clean)
  show ?thesis
    by (rule udp_request_answered)
      (simp_all add: a c del: sample_clean, simp_all add: env_def px_def us_def req_def is_sccb_def wh_wf_def node_wf_def
        HTWorker_new_def NoVoHT_new_def WorkerHandler_new_def UdpServer_new_def UdpServer_with_metrics_def
        hm_wf_def length_encode_message length_sample_enc UDP_MAX_DATAGRAM_def ZPack_default_def)
qed

text \<open>
  C27. A long request over UDP is lost. The proxy cuts the encoded message, of fewer than
  \<open>2 ^ 27\<close> bytes, into chunks, without the length in front. In whatever order
  they arrive the server puts the message together, with the last of them and not before, but
  only to read it as a frame, whose length is then that of the message's first bytes, the
  first of which is at least 8, as a protobuf tag is. No handler is called and no answer sent;
  and the proxy, to which nothing else comes, gives up with its timeout.
\<close>

theorem udp_long_request_lost:
  assumes "DEFAULT_CHUNK_THRESHOLD < length (enc req)" "length (enc req) < 2 ^ 27" "8 \<le> unat (hd (enc req))"
    and "parse_socket_addr (gen_base h p) = Inr addr" "\<And>i. ue_send_err env i = None"
    and "up_queue px = []" "ue_arrive env = []" "ue_recv_err env = None"
    and "hm_wf (cr_inflight (us_receiver us))"
    and "hm_get (cr_inflight (us_receiver us)) (unat (gen_id seed)) = None"
  shows "\<exists>px' (chunks :: chunk list).
    udp_sendrecv enc dec env seed h p req px = Some (Inl (RecvFailed ''UDP timeout (chunked)''), px') \<and>
    up_sent px' = up_sent px @ map (\<lambda>c. (addr, ch_data c)) chunks \<and>
    (\<forall>order. mset order = mset chunks \<longrightarrow>
      (\<exists>us'. udp_loop enc dec handle (map (\<lambda>c. Ue_Datagram src (ch_data c) None) order) us = Some (False, us') \<and>
         us_handler us' = us_handler us \<and> us_sent us' = us_sent us \<and>
         receive_all (map ch_data order) (us_receiver us) =
           Some (replicate (length order - 1) (Inr None) @ [Inr (Some (enc req))], us_receiver us')))"
proof -
  obtain chunks where c: "chunk_message seed (enc req) CHUNK_PAYLOAD_SIZE = Some (unat (gen_id seed), chunks)"
    by (simp add: chunk_message_def Let_def CHUNK_PAYLOAD_SIZE_def)
  let ?sent = "send_chunks env addr 0 chunks px"
  note sent = send_chunks_all [OF assms(5), of addr 0 chunks px]
  obtain px1 where px1: "?sent = (Inr (), px1)" using sent by (metis prod.collapse)
  let ?r = "await_answer dec env ''UDP timeout (chunked)'' (up_count inc_messages_sent px1)"
  have "up_queue px1 = []" using send_chunks_queue [of env addr 0 chunks px] assms(6) px1 by simp
  then have r: "fst ?r = Inl (RecvFailed ''UDP timeout (chunked)'')"
    using assms(7,8) by (intro no_answer_comes) simp_all
  have "udp_sendrecv enc dec env seed h p req px = Some (Inl (RecvFailed ''UDP timeout (chunked)''), snd ?r)"
    using assms(1,4) r by (simp add: udp_sendrecv_def sendrecv_chunked_def c px1 prod_eq_iff)
  moreover have "up_sent (snd ?r) = up_sent px @ map (\<lambda>c. (addr, ch_data c)) chunks"
    using sent by (simp add: await_answer_sent px1)
  moreover have len: "4 \<le> length (enc req)" using assms(1) by (simp add: DEFAULT_CHUNK_THRESHOLD_def)
  ultimately show ?thesis
    using long_message_dropped [OF c _ assms(3) len assms(2,9,10), of _ enc dec handle src] by blast
qed

theorem udp_long_request_lost_witness:
  fixes tagged :: encoder and req :: zpack and env :: udp_env and px :: udp_proxy and us :: "nat udp_server"
  defines "tagged \<equiv> \<lambda>z. 10 # sample_enc z"
    and "req \<equiv> ZPack_default\<lparr>zp_val := replicate 600000 118\<rparr>"
    and "env \<equiv> \<lparr>ue_send_err = (\<lambda>_. None), ue_arrive = [], ue_recv_err = None\<rparr>"
    and "px \<equiv> \<lparr>up_metrics = TransportMetrics_new, up_queue = [], up_sent = []\<rparr>"
    and "us \<equiv> UdpServer_new 0"
  shows "\<exists>px' (chunks :: chunk list).
    udp_sendrecv tagged sample_dec env 7 ''10.0.0.1'' 7 req px
      = Some (Inl (RecvFailed ''UDP timeout (chunked)''), px') \<and>
    up_sent px' = up_sent px @ map (\<lambda>c. (SA_V4 (Ipv4 10 0 0 1) 7, ch_data c)) chunks \<and>
    (\<forall>order. mset order = mset chunks \<longrightarrow>
      (\<exists>us'. udp_loop tagged sample_dec (\<lambda>z n. Some (z, Suc n))
            (map (\<lambda>c. Ue_Datagram (SA_V4 (Ipv4 10 0 0 2) 9) (ch_data c) None) order) us = Some (False, us') \<and>
         us_handler us' = us_handler us \<and> us_sent us' = us_sent us \<and>
         receive_all (map ch_data order) (us_receiver us) =
           Some (replicate (length order - 1) (Inr None) @ [Inr (Some (tagged req))], us_receiver us')))"
  by (rule udp_long_request_lost)
    (simp_all add: tagged_def length_sample_enc, simp_all add: req_def env_def px_def us_def UdpServer_new_def
      UdpServer_with_metrics_def ChunkReceiver_new_def hm_wf_def DEFAULT_CHUNK_THRESHOLD_def ZPack_default_def)

text \<open>
  C34. A late answer over UDP shifts all that follow: a request is given up after its timeout, and
  its answer arrives, from whatever address, before the next request. Each of the following
  requests, to whatever peers, is then answered by the answer that was meant for the one before
  it, and its own answer is left for the next: \<open>sendrecv\<close> takes the first datagram of its socket
  for the answer and never looks at where it comes from.
\<close>

theorem udp_late_answers_shift:
  assumes "parse_socket_addr (gen_base host p) = Inr addr" "ue_send_err env 0 = None"
    and "length (enc req) \<le> DEFAULT_CHUNK_THRESHOLD" "up_queue px = []" "ue_arrive env = []" "ue_recv_err env = None"
    and "list_all2 (call_answered enc dec) calls answers" "list_all (fits_datagram enc dec) (late # answers)"
  shows "\<exists>px0 px'. udp_sendrecv enc dec env seed host p req px = Some (Inl (RecvFailed ''UDP timeout''), px0) \<and>
    udp_calls enc dec seed calls (px0\<lparr>up_queue := [(src, encode_message enc late)]\<rparr>)
      = Some (map Inr (butlast (late # answers)), px') \<and>
    map snd (up_queue px') = [encode_message enc (last (late # answers))]"
proof -
  obtain px0 where "udp_sendrecv enc dec env seed host p req px = Some (Inl (RecvFailed ''UDP timeout''), px0)"
    using call_timed_out [of host p addr env enc req px dec seed, OF assms(1-6)] by blast
  then show ?thesis
    using calls_shift [OF assms(7,8), of "px0\<lparr>up_queue := [(src, encode_message enc late)]\<rparr>" seed] by auto
qed

theorem udp_late_answers_shift_witness:
  fixes px :: udp_proxy and env0 :: udp_env and env :: "zpack \<Rightarrow> udp_env" and a :: "u8 \<Rightarrow> zpack"
    and calls :: "udp_call list"
  defines "px \<equiv> \<lparr>up_metrics = TransportMetrics_new, up_queue = [], up_sent = []\<rparr>"
    and "env0 \<equiv> \<lparr>ue_send_err = (\<lambda>_. None), ue_arrive = [], ue_recv_err = None\<rparr>"
    and "env \<equiv> \<lambda>z. \<lparr>ue_send_err = (\<lambda>_. None),
        ue_arrive = [(SA_V4 (Ipv4 10 0 0 2) 9, encode_message sample_enc z)], ue_recv_err = None\<rparr>"
    and "a \<equiv> \<lambda>b. ZPack_default\<lparr>zp_lease := [b]\<rparr>"
    and "calls \<equiv> [(env (a 2), ''10.0.0.1'', 7, ZPack_default), (env (a 3), ''10.0.0.1'', 8, ZPack_default)]"
  shows "\<exists>px0 px'. udp_sendrecv sample_enc sample_dec env0 0 ''10.0.0.1'' 7 ZPack_default px
      = Some (Inl (RecvFailed ''UDP timeout''), px0) \<and>
    udp_calls sample_enc sample_dec 0 calls
        (px0\<lparr>up_queue := [(SA_V4 (Ipv4 10 0 0 3) 1, encode_message sample_enc (a 1))]\<rparr>)
      = Some (map Inr (butlast [a 1, a 2, a 3]), px') \<and>
    map snd (up_queue px') = [encode_message sample_enc (last [a 1, a 2, a 3])]"
proof -
  have len: "length (sample_enc ZPack_default) = 11" "length (sample_enc (a b)) = 13" for b
    by (simp_all add: length_sample_enc ZPack_default_def a_def)
  have fits: "fits_datagram sample_enc sample_dec (a b)" for b
    by (simp add: fits_datagram_def clean_codec_def sample_dec_enc length_encode_message len UDP_MAX_DATAGRAM_def
        del: sample_clean)
  show ?thesis
    by (rule udp_late_answers_shift [where addr = "SA_V4 (Ipv4 10 0 0 1) 7"])
      (simp_all add: env0_def px_def calls_def call_answered_def env_def fits len DEFAULT_CHUNK_THRESHOLD_def)
qed

text \<open>
  C40. One datagram ends a UDP server: whatever it has served before, a chunk of a message of
  one chunk, of which it has none yet, sent by anyone, that gives itself another number than
  the first, makes \<open>receive\<close> take a chunk it does not have, and the panic is that
  of \<open>run\<close> itself: the server answers nothing any more.
\<close>

theorem stray_datagram_ends_server:
  assumes "msg_id \<le> u64_max" "0 < seq" "seq < 10 ^ 7" "length payload < 10 ^ 4"
    and "udp_loop enc dec handle served (us\<lparr>us_receiver := ChunkReceiver_new\<rparr>) = Some (False, us1)"
    and "hm_get (cr_inflight (us_receiver us1)) msg_id = None"
  shows "udp_run enc dec handle addr None (Inr bound)
      (served @ Ue_Datagram src (chunk_header msg_id seq 1 (length payload) @ payload) send_err # evs) us = None"
proof -
  define raw where "raw = chunk_header msg_id seq 1 (length payload) @ payload"
  have "length raw = CHUNK_HEADER_SIZE + length payload"
    using chunk_header_length [OF assms(1,3), of 1 "length payload"] assms(4) by (simp add: raw_def)
  then have len: "length raw \<le> UDP_MAX_DATAGRAM" "length raw \<le> 2 ^ 29"
    using assms(4) by (simp_all add: CHUNK_HEADER_SIZE_def UDP_MAX_DATAGRAM_def)
  obtain e where "decode_message dec raw = Inl (RecvFailed e)"
    using chunk_not_frame [OF assms(1), of seq 1 "length payload" payload dec] len(2) by (auto simp: raw_def)
  moreover have "receive raw (us_receiver us1) = None"
    unfolding raw_def by (rule stray_chunk_panics [OF assms(1-4,6)])
  ultimately have "udp_datagram enc dec handle src raw send_err us1 = None"
    using len(1) by (simp add: udp_datagram_def Let_def)
  then show ?thesis
    unfolding raw_def [symmetric] using assms(5) by (simp add: udp_run_def udp_loop_append)
qed

theorem stray_datagram_ends_server_witness:
  fixes us :: "nat udp_server"
  defines "us \<equiv> UdpServer_new 0"
  shows "udp_run sample_enc sample_dec (\<lambda>z n. Some (z, Suc n)) (SA_V4 (Ipv4 0 0 0 0) 9) None
      (Inr (SA_V4 (Ipv4 0 0 0 0) 9))
      ([Ue_Idle] @ Ue_Datagram (SA_V4 (Ipv4 10 0 0 3) 1) (chunk_header 42 3 1 (length [1 :: u8, 2]) @ [1, 2]) None # [Ue_Shutdown])
      us = None"
  by (rule stray_datagram_ends_server [where ?us1.0 = "us\<lparr>us_receiver := ChunkReceiver_new\<rparr>"]) (simp_all add: u64_max_def us_def ChunkReceiver_new_def)

end
