(* ===== verification/Transport_Dispatch.thy ===== *)
theory Transport_Dispatch
  imports Tcp_Pool Udp
begin

text \<open>
  \<open>zht-transport/src/traits.rs\<close> and \<open>factory.rs\<close>: clients and servers that are TCP or UDP, and
  their making from the name of a protocol. A UDP client binds its socket when it is first used.
\<close>

section \<open>Clients\<close>

datatype transport_client = Tc_Tcp tcp_pool | Tc_Udp "udp_proxy option"

definition tc_new_tcp :: transport_client where "tc_new_tcp = Tc_Tcp tl_new"

definition tc_new_tcp_with_metrics :: "transport_metrics \<Rightarrow> transport_client" where
  "tc_new_tcp_with_metrics m = Tc_Tcp (tl_with_metrics m)"

definition tc_new_udp :: transport_client where "tc_new_udp = Tc_Udp None"

text \<open>What a call finds: on TCP, on UDP, and when the socket is bound.\<close>

record dispatch_env =
  de_tcp :: pool_env
  de_udp :: udp_env
  de_bind_err :: "string option"
  de_seed :: u64

definition with_udp ::
  "dispatch_env \<Rightarrow> udp_proxy option \<Rightarrow> (udp_proxy \<Rightarrow> ('a zht_result \<times> udp_proxy) option)
    \<Rightarrow> ('a zht_result \<times> transport_client) option"
where
  "with_udp env g call =
     (case (case g of None \<Rightarrow> UdpProxy_new (de_bind_err env) | Some px \<Rightarrow> Inr px) of
        Inl e \<Rightarrow> Some (Inl e, Tc_Udp g)
      | Inr px \<Rightarrow> map_option (\<lambda>(r, px1). (r, Tc_Udp (Some px1))) (call px))"

definition tc_sendrecv ::
  "encoder \<Rightarrow> decoder \<Rightarrow> dispatch_env \<Rightarrow> string \<Rightarrow> u16 \<Rightarrow> zpack \<Rightarrow> transport_client
    \<Rightarrow> (zpack zht_result \<times> transport_client) option"
where
  "tc_sendrecv enc dec env host port request c =
     (case c of
        Tc_Tcp pl \<Rightarrow>
          map_option (\<lambda>(r, pl1). (r, Tc_Tcp pl1)) (tl_sendrecv enc dec (de_tcp env) host port request pl)
      | Tc_Udp g \<Rightarrow>
          with_udp env g (udp_sendrecv enc dec (de_udp env) (de_seed env) host port request))"

definition tc_send_only ::
  "encoder \<Rightarrow> dispatch_env \<Rightarrow> string \<Rightarrow> u16 \<Rightarrow> zpack \<Rightarrow> transport_client
    \<Rightarrow> (unit zht_result \<times> transport_client) option"
where
  "tc_send_only enc env host port request c =
     (case c of
        Tc_Tcp pl \<Rightarrow>
          map_option (\<lambda>(r, pl1). (r, Tc_Tcp pl1)) (tl_send_only enc (de_tcp env) host port request pl)
      | Tc_Udp g \<Rightarrow> with_udp env g (\<lambda>px. Some (udp_send_only enc (de_udp env) host port request px)))"

definition tc_close_connection :: "string \<Rightarrow> u16 \<Rightarrow> transport_client \<Rightarrow> transport_client" where
  "tc_close_connection host port c =
     (case c of Tc_Tcp pl \<Rightarrow> Tc_Tcp (tl_close_connection host port pl) | Tc_Udp g \<Rightarrow> Tc_Udp g)"

definition tc_close_all :: "transport_client \<Rightarrow> transport_client" where
  "tc_close_all c = (case c of Tc_Tcp pl \<Rightarrow> Tc_Tcp (tl_close_all pl) | Tc_Udp g \<Rightarrow> Tc_Udp g)"

definition tc_connection_count :: "transport_client \<Rightarrow> nat" where
  "tc_connection_count c = (case c of Tc_Tcp pl \<Rightarrow> tl_connection_count pl | Tc_Udp _ \<Rightarrow> 0)"

definition tc_protocol_name :: "transport_client \<Rightarrow> string" where
  "tc_protocol_name c = (case c of Tc_Tcp _ \<Rightarrow> ''TCP'' | Tc_Udp _ \<Rightarrow> ''UDP'')"

section \<open>Servers\<close>

text \<open>A server is its counters, until it is run.\<close>

datatype transport_server = Ts_Tcp transport_metrics | Ts_Udp transport_metrics

definition ts_new_tcp :: transport_server where "ts_new_tcp = Ts_Tcp TransportMetrics_new"
definition ts_new_udp :: transport_server where "ts_new_udp = Ts_Udp TransportMetrics_new"

definition ts_protocol_name :: "transport_server \<Rightarrow> string" where
  "ts_protocol_name s = (case s of Ts_Tcp _ \<Rightarrow> ''TCP'' | Ts_Udp _ \<Rightarrow> ''UDP'')"

definition ts_metrics :: "transport_server \<Rightarrow> transport_metrics option" where
  "ts_metrics s = (case s of Ts_Tcp m \<Rightarrow> Some m | Ts_Udp m \<Rightarrow> Some m)"

section \<open>The factory\<close>

text \<open>
  \<open>to_uppercase\<close>, on ASCII letters. Of the other characters none becomes a letter of TCP or UDP
  by itself, so the protocols recognised are these; what is left out is how the text of an
  error spells them.
\<close>

definition upper :: "string \<Rightarrow> string" where
  "upper s = map (\<lambda>c. let n = of_char c :: nat in if 97 \<le> n \<and> n \<le> 122 then char_of (n - 32) else c) s"

definition by_protocol :: "string \<Rightarrow> 'a \<Rightarrow> 'a \<Rightarrow> 'a zht_result" where
  "by_protocol prot tcp udp =
     (let u = upper prot in
      if u = ''TCP'' then Inr tcp else if u = ''UDP'' then Inr udp else Inl (UnsupportedProtocol u))"

definition create_client :: "string \<Rightarrow> transport_client zht_result" where
  "create_client prot = by_protocol prot tc_new_tcp tc_new_udp"

definition create_client_with_metrics :: "string \<Rightarrow> transport_metrics \<Rightarrow> transport_client zht_result" where
  "create_client_with_metrics prot m = by_protocol prot (tc_new_tcp_with_metrics m) tc_new_udp"

definition create_server :: "string \<Rightarrow> transport_server zht_result" where
  "create_server prot = by_protocol prot ts_new_tcp ts_new_udp"

definition create_server_with_metrics :: "string \<Rightarrow> transport_metrics \<Rightarrow> transport_server zht_result" where
  "create_server_with_metrics prot m = by_protocol prot (Ts_Tcp m) (Ts_Udp m)"

definition create_pair :: "string \<Rightarrow> (transport_client \<times> transport_server) zht_result" where
  "create_pair prot =
     (case create_client prot of
        Inl e \<Rightarrow> Inl e
      | Inr client \<Rightarrow>
          (case create_server prot of Inl e \<Rightarrow> Inl e | Inr server \<Rightarrow> Inr (client, server)))"

text \<open>A pair speaks one protocol, and a client keeps its own through every call.\<close>

lemma pair_agrees:
  "create_pair prot = Inr (c, s) \<Longrightarrow> tc_protocol_name c = ts_protocol_name s \<and> tc_protocol_name c = upper prot"
  by (cases "upper prot = ''TCP''"; cases "upper prot = ''UDP''")
    (simp_all add: create_pair_def create_client_def create_server_def by_protocol_def Let_def
      tc_protocol_name_def ts_protocol_name_def tc_new_tcp_def tc_new_udp_def ts_new_tcp_def ts_new_udp_def
      prod_eq_iff, (elim conjE, hypsubst, simp)+)

lemma with_udp_kept: "with_udp env g call = Some (r, c') \<Longrightarrow> \<exists>g'. c' = Tc_Udp g'"
  unfolding with_udp_def
  by (cases "case g of None \<Rightarrow> UdpProxy_new (de_bind_err env) | Some px \<Rightarrow> Inr px") auto

lemma protocol_kept:
  "tc_sendrecv enc dec env host port request c = Some (r, c') \<Longrightarrow> tc_protocol_name c' = tc_protocol_name c"
  "tc_send_only enc env host port request c = Some (r', c') \<Longrightarrow> tc_protocol_name c' = tc_protocol_name c"
  by (cases c; auto simp: tc_sendrecv_def tc_send_only_def tc_protocol_name_def dest!: with_udp_kept)+

text \<open>The counters handed to the factory for a UDP client are dropped.\<close>

lemma udp_metrics_dropped: "upper prot = ''UDP'' \<Longrightarrow> create_client_with_metrics prot m = create_client prot"
  by (simp add: create_client_with_metrics_def create_client_def by_protocol_def)

lemma protocols_known: "isl (create_client prot) \<longleftrightarrow> upper prot \<notin> {''TCP'', ''UDP''}"
  by (auto simp: create_client_def by_protocol_def Let_def)

end
