(* ===== verification/Transport_Names.thy ===== *)
theory Transport_Names
  imports Transport_Dispatch Op_Machine
begin

text \<open>
  Runs of a client of the factory (\<open>zht-transport/src/traits.rs\<close>, over \<open>tcp.rs\<close> and \<open>udp.rs\<close>), and
  which nodes it can reach: both transports parse a node's address, so a node that the neighbour
  file names by a host name is reached by neither.
\<close>

datatype client_op =
    Co_Sendrecv dispatch_env string u16 zpack
  | Co_Send_Only dispatch_env string u16 zpack
  | Co_Close string u16
  | Co_Close_All

text \<open>What a call returns: an answer, or nothing; or its error. A client that panicked stays so.\<close>

definition client_step ::
  "encoder \<Rightarrow> decoder \<Rightarrow> client_op \<Rightarrow> transport_client option \<Rightarrow> zpack option zht_result option \<times> transport_client option"
where
  "client_step enc dec x s =
     (case s of
        None \<Rightarrow> (None, None)
      | Some c \<Rightarrow>
          (case x of
             Co_Sendrecv env host p z \<Rightarrow>
               (case tc_sendrecv enc dec env host p z c of
                  None \<Rightarrow> (None, None)
                | Some (r, c1) \<Rightarrow> (Some (map_sum id Some r), Some c1))
           | Co_Send_Only env host p z \<Rightarrow>
               (case tc_send_only enc env host p z c of
                  None \<Rightarrow> (None, None)
                | Some (r, c1) \<Rightarrow> (Some (map_sum id (\<lambda>_. None) r), Some c1))
           | Co_Close host p \<Rightarrow> (Some (Inr None), Some (tc_close_connection host p c))
           | Co_Close_All \<Rightarrow> (Some (Inr None), Some (tc_close_all c))))"

text \<open>The messages a client has sent, whole or in part.\<close>

definition client_sent :: "transport_client \<Rightarrow> u8 list list" where
  "client_sent c =
     (case c of
        Tc_Tcp pl \<Rightarrow> map snd (tl_wire pl)
      | Tc_Udp None \<Rightarrow> []
      | Tc_Udp (Some px) \<Rightarrow> map snd (up_sent px))"

section \<open>The pool holds addresses\<close>

definition pool_parsed :: "tcp_pool \<Rightarrow> bool" where
  "pool_parsed pl \<longleftrightarrow> (\<forall>k c. hm_get (tl_conns pl) k = Some c \<longrightarrow> \<not> isl (parse_socket_addr k))"

lemma parsed_get: "pool_parsed pl \<Longrightarrow> hm_get (tl_conns pl) k = Some c \<Longrightarrow> \<not> isl (parse_socket_addr k)"
  by (auto simp: pool_parsed_def)

lemma parsed_intros [simp, intro]:
  "pool_parsed pl \<Longrightarrow> pool_parsed (tl_count f pl)"
  "pool_parsed pl \<Longrightarrow> \<not> isl (parse_socket_addr k) \<Longrightarrow> pool_parsed (tl_put k c pl)"
  "pool_parsed pl \<Longrightarrow> pool_parsed (tl_remove_conn host p pl)"
  "pool_parsed pl \<Longrightarrow> pool_parsed (snd (tl_send_raw enc env key z pl))"
  "pool_parsed (tl_close_all pl)"
  by (auto simp: pool_parsed_def tl_remove_conn_def tl_close_all_def Let_def split: if_splits)

lemma connect_parsed:
  "tl_connect env host p pl = (r, pl1) \<Longrightarrow>
     (\<not> isl r \<longrightarrow> \<not> isl (parse_socket_addr (gen_base host p))) \<and> (pool_parsed pl \<longrightarrow> pool_parsed pl1)"
  by (auto simp: tl_connect_def split: sum.splits option.splits)

lemma get_or_create_parsed:
  assumes "pool_parsed pl" "get_or_create env host p pl = (r, pl1)"
  shows "pool_parsed pl1 \<and> (\<not> isl r \<longrightarrow> \<not> isl (parse_socket_addr (gen_base host p)))"
proof -
  have store: "pool_parsed pl2 \<and> (\<not> isl r \<longrightarrow> \<not> isl (parse_socket_addr (gen_base host p)))"
    if "(case tl_connect env host p pl0 of
           (Inl e, q) \<Rightarrow> (Inl e, q)
         | (Inr s, q) \<Rightarrow> (Inr (), tl_put (gen_base host p) (PooledConn_new (pe_now env 0) s) q)) = (r, pl2)"
      and "pool_parsed pl0" for pl0 pl2
    using that connect_parsed [of env host p pl0] by (auto split: prod.splits sum.splits)
  show ?thesis
    using assms store [of pl pl1]
      store [of "tl_count (inc_reconnections \<circ> dec_active_connections) pl" pl1]
    by (cases "hm_get (tl_conns pl) (gen_base host p)")
      (auto simp: get_or_create_def Let_def dest: parsed_get split: if_splits)
qed

lemma sendrecv_parsed:
  assumes "pool_parsed pl" "tl_sendrecv enc dec env host p z pl = Some (r, pl')"
  shows "pool_parsed pl'"
proof -
  obtain r1 pl1 where g: "get_or_create env host p pl = (r1, pl1)" by (cases "get_or_create env host p pl")
  obtain r2 pl2 where s: "tl_send_raw enc env (gen_base host p) z pl1 = (r2, pl2)"
    by (cases "tl_send_raw enc env (gen_base host p) z pl1")
  have "pool_parsed pl1" using get_or_create_parsed [OF assms(1) g] by simp
  then have "pool_parsed pl2" using parsed_intros(4) s by (metis snd_conv)
  with assms(2) get_or_create_parsed [OF assms(1) g] show ?thesis
    by (auto simp: tl_sendrecv_def g s Let_def split: sum.splits option.splits prod.splits)
qed

lemma send_only_parsed:
  assumes "pool_parsed pl" "tl_send_only enc env host p z pl = Some (r, pl')"
  shows "pool_parsed pl'"
proof -
  obtain r1 pl1 where g: "get_or_create env host p pl = (r1, pl1)" by (cases "get_or_create env host p pl")
  obtain r2 pl2 where s: "tl_send_raw enc env (gen_base host p) z pl1 = (r2, pl2)"
    by (cases "tl_send_raw enc env (gen_base host p) z pl1")
  have "pool_parsed pl1" using get_or_create_parsed [OF assms(1) g] by simp
  then have "pool_parsed pl2" using parsed_intros(4) s by (metis snd_conv)
  with assms(2) get_or_create_parsed [OF assms(1) g] show ?thesis
    by (auto simp: tl_send_only_def g s Let_def split: sum.splits option.splits prod.splits)
qed

fun client_parsed :: "transport_client option \<Rightarrow> bool" where
  "client_parsed (Some (Tc_Tcp pl)) = pool_parsed pl"
| "client_parsed s = True"

lemma step_parsed: "client_parsed s \<Longrightarrow> client_parsed (snd (client_step enc dec x s))"
proof (cases s)
  case (Some c)
  assume "client_parsed s"
  with Some show ?thesis
    by (cases c; cases x)
      (auto simp: client_step_def tc_sendrecv_def tc_send_only_def tc_close_connection_def tc_close_all_def
        tl_close_connection_def dest: sendrecv_parsed send_only_parsed dest!: with_udp_kept split: option.split)
qed (simp add: client_step_def)

interpretation client: op_machine "client_step enc dec" client_parsed
  for enc dec
  by unfold_locales (rule step_parsed)

section \<open>Names\<close>

lemma name_refused_tcp:
  assumes "pool_parsed pl" "host_name host"
  shows "\<exists>why. get_or_create env host p pl = (Inl (ConnectionFailed host p why), pl)"
proof -
  note parse = parse_host_name [OF assms(2), of p]
  then have "hm_get (tl_conns pl) (gen_base host p) = None"
    using parsed_get [OF assms(1), of "gen_base host p"] by (metis isl_def not_None_eq)
  with parse show ?thesis by (simp add: get_or_create_def tl_connect_def Let_def)
qed

lemma name_refused_udp:
  assumes "host_name host"
  shows "\<exists>why. udp_sendrecv enc dec env seed host p z px = Some (Inl (ConnectionFailed host p why), px)"
  using parse_host_name [OF assms, of p] by (simp add: udp_sendrecv_def bad_address_def)

section \<open>Properties\<close>

text \<open>
  C36. A node named by a host name is reached over neither transport of the factory: whatever a
  client was used for before, a request to a host that is no dotted quad and no bracketed IPv6
  address fails, whatever the network does, and nothing is sent. The shipped neighbour file names
  its node \<open>localhost\<close>, which the other \<open>TcpProxy\<close> looks up.
\<close>

theorem names_unreachable:
  assumes "create_client prot = Inr c"
    and "snd (run_ops (client_step enc dec) xs (Some c)) = Some c1" "host_name host"
  shows "\<exists>h q why c2. tc_sendrecv enc dec env host p z c1 = Some (Inl (ConnectionFailed h q why), c2) \<and>
    client_sent c2 = client_sent c1"
proof -
  have "client_parsed (Some c)"
    using assms(1) by (auto simp: create_client_def by_protocol_def tc_new_tcp_def tc_new_udp_def Let_def
        tl_new_def tl_with_metrics_def pool_parsed_def split: if_splits)
  from client.run_inv [OF this, of enc dec xs] have inv: "client_parsed (Some c1)" by (simp add: assms(2))
  show ?thesis
  proof (cases c1)
    case (Tc_Tcp pl)
    with inv name_refused_tcp [OF _ assms(3), of pl "de_tcp env" p] show ?thesis
      by (auto simp: tc_sendrecv_def tl_sendrecv_def)
  next
    case (Tc_Udp g)
    show ?thesis
    proof (cases "case g of None \<Rightarrow> UdpProxy_new (de_bind_err env) | Some px \<Rightarrow> Inr px")
      case (Inl e)
      then have "e = bind_failed (case de_bind_err env of Some b \<Rightarrow> b | None \<Rightarrow> [])"
        by (auto simp: UdpProxy_new_def UdpProxy_with_metrics_def split: option.splits)
      with Inl Tc_Udp show ?thesis
        by (auto simp: tc_sendrecv_def with_udp_def bind_failed_def)
    next
      case (Inr px)
      then have "client_sent (Tc_Udp (Some px)) = client_sent (Tc_Udp g)"
        by (auto simp: client_sent_def UdpProxy_new_def UdpProxy_with_metrics_def split: option.splits)
      with Inr Tc_Udp name_refused_udp [OF assms(3), of enc dec "de_udp env" "de_seed env" p z px] show ?thesis
        by (auto simp: tc_sendrecv_def with_udp_def)
    qed
  qed
qed

theorem names_unreachable_witness:
  fixes env :: dispatch_env
  defines "env \<equiv> \<lparr>de_tcp = \<lparr>pe_connect = Inl ''refused'', pe_nodelay_err = None, pe_send = Wio_Ok,
          pe_reply = \<lparr>rs_bytes = [], rs_end = ''early eof''\<rparr>, pe_now = (\<lambda>i. i)\<rparr>,
        de_udp = \<lparr>ue_send_err = (\<lambda>_. None), ue_arrive = [], ue_recv_err = None\<rparr>,
        de_bind_err = None, de_seed = 7\<rparr>"
  shows "\<exists>h q why c2. tc_sendrecv sample_enc sample_dec env ''localhost'' 50000 ZPack_default tc_new_tcp
      = Some (Inl (ConnectionFailed h q why), c2) \<and> client_sent c2 = client_sent tc_new_tcp"
proof (rule names_unreachable)
  have "upper ''tcp'' = ''TCP''" by code_simp
  then show "create_client ''tcp'' = Inr tc_new_tcp"
    by (simp add: create_client_def by_protocol_def)
  show "snd (run_ops (client_step sample_enc sample_dec)
      [Co_Sendrecv env ''10.0.0.1'' 7 ZPack_default] (Some tc_new_tcp)) = Some tc_new_tcp"
    by (simp add: client_step_def tc_sendrecv_def tc_new_tcp_def tl_sendrecv_def get_or_create_def
        tl_connect_def tl_new_def tl_with_metrics_def env_def)
  show "host_name ''localhost''" by (rule host_nameI [where c = "CHR ''l''"], rule refl) (simp_all add: is_digit_def)
qed

end
