(* ===== verification/Pool_Race.thy ===== *)
theory Pool_Race
  imports Tcp_Pool
begin

text \<open>
  Calls on one pool of \<open>zht-transport/src/tcp.rs\<close> at the same time. A call takes the lock of the
  pool several times: to find or make the connection, to send and to receive on it, and to remove
  it after an error. Between these turns other calls have theirs, so a connection that a call has
  found may be gone when it comes back for it, and its \<open>unwrap\<close> panics.
\<close>

section \<open>Turns\<close>

text \<open>
  Where a call stands: before its first turn; with the connection found; with an error for which
  the connection has to go; with the connections counted; returned, without an error, with one,
  or with one for which it has removed the connection; closed; or panicked.
\<close>

datatype call_state =
    Cs_Start
  | Cs_Ready
  | Cs_Remove zht_error
  | Cs_Counted nat
  | Cs_Done "zpack option"
  | Cs_Failed zht_error
  | Cs_Dropped zht_error
  | Cs_Closed
  | Cs_Panic

definition turn_find :: "pool_env \<Rightarrow> string \<Rightarrow> u16 \<Rightarrow> tcp_pool \<Rightarrow> call_state \<times> tcp_pool" where
  "turn_find env host port pl =
     (case get_or_create env host port pl of
        (Inl e, pl1) \<Rightarrow> (Cs_Failed e, pl1)
      | (Inr _, pl1) \<Rightarrow> (Cs_Ready, pl1))"

definition turn_exchange ::
  "encoder \<Rightarrow> decoder \<Rightarrow> pool_env \<Rightarrow> string \<Rightarrow> u16 \<Rightarrow> zpack \<Rightarrow> tcp_pool \<Rightarrow> call_state \<times> tcp_pool"
where
  "turn_exchange enc dec env host port request pl =
     (let key = gen_base host port in
      case hm_get (tl_conns pl) key of
        None \<Rightarrow> (Cs_Panic, pl)
      | Some conn \<Rightarrow>
     (case tl_send_raw enc env key request pl of
        (Inl e, pl1) \<Rightarrow> (Cs_Remove e, tl_count inc_send_errors pl1)
      | (Inr _, pl1) \<Rightarrow>
          let conn1 = pc_touch (pe_now env 1) conn;
              pl2 = tl_count inc_messages_sent (tl_put key conn1 pl1)
          in (case recv_raw dec (arrives (pe_reply env) (pc_stream conn1)) of
                (Inr r, s) \<Rightarrow>
                  (Cs_Done (Some r), tl_count inc_messages_received
                    (tl_put key (pc_touch (pe_now env 2) (conn1\<lparr>pc_stream := s\<rparr>)) pl2))
              | (Inl e, s) \<Rightarrow>
                  (Cs_Remove e, tl_count inc_recv_errors (tl_put key (conn1\<lparr>pc_stream := s\<rparr>) pl2)))))"

definition turn_send ::
  "encoder \<Rightarrow> pool_env \<Rightarrow> string \<Rightarrow> u16 \<Rightarrow> zpack \<Rightarrow> tcp_pool \<Rightarrow> call_state \<times> tcp_pool"
where
  "turn_send enc env host port request pl =
     (let key = gen_base host port in
      case hm_get (tl_conns pl) key of
        None \<Rightarrow> (Cs_Panic, pl)
      | Some conn \<Rightarrow>
     (case tl_send_raw enc env key request pl of
        (Inl e, pl1) \<Rightarrow> (Cs_Failed e, pl1)
      | (Inr _, pl1) \<Rightarrow>
          (Cs_Done None, tl_count inc_messages_sent (tl_put key (pc_touch (pe_now env 1) conn) pl1))))"

text \<open>The next turn of a call; None once it has returned or panicked.\<close>

fun pool_turn ::
  "encoder \<Rightarrow> decoder \<Rightarrow> pool_op \<Rightarrow> call_state \<Rightarrow> tcp_pool \<Rightarrow> (call_state \<times> tcp_pool) option"
where
  "pool_turn enc dec (Po_Sendrecv env host port z) Cs_Start pl = Some (turn_find env host port pl)"
| "pool_turn enc dec (Po_Sendrecv env host port z) Cs_Ready pl = Some (turn_exchange enc dec env host port z pl)"
| "pool_turn enc dec (Po_Sendrecv env host port z) (Cs_Remove e) pl =
     Some (Cs_Dropped e, tl_remove_conn host port pl)"
| "pool_turn enc dec (Po_Send_Only env host port z) Cs_Start pl = Some (turn_find env host port pl)"
| "pool_turn enc dec (Po_Send_Only env host port z) Cs_Ready pl = Some (turn_send enc env host port z pl)"
| "pool_turn enc dec (Po_Close host port) Cs_Start pl = Some (Cs_Closed, tl_remove_conn host port pl)"
| "pool_turn enc dec Po_Close_All Cs_Start pl = Some (Cs_Counted (length (tl_conns pl)), pl)"
| "pool_turn enc dec Po_Close_All (Cs_Counted n) pl =
     Some (Cs_Closed, tl_count (dec_active_connections ^^ n) (pl\<lparr>tl_conns := []\<rparr>))"
| "pool_turn enc dec x st pl = None"

section \<open>A call alone\<close>

fun turns_alone :: "encoder \<Rightarrow> decoder \<Rightarrow> nat \<Rightarrow> pool_op \<Rightarrow> call_state \<Rightarrow> tcp_pool \<Rightarrow> call_state \<times> tcp_pool" where
  "turns_alone enc dec 0 x st pl = (st, pl)"
| "turns_alone enc dec (Suc n) x st pl =
     (case pool_turn enc dec x st pl of
        None \<Rightarrow> (st, pl)
      | Some (st1, pl1) \<Rightarrow> turns_alone enc dec n x st1 pl1)"

lemma remove_after_put:
  "tl_remove_conn host port (tl_count f (tl_put (gen_base host port) c (tl_count g (tl_put (gen_base host port) d pl))))
     = tl_remove_conn host port (tl_count f (tl_count g (tl_put (gen_base host port) d pl)))"
  by (simp add: tl_remove_conn_def tl_count_def tl_put_def hm_remove_def hm_insert_def hm_contains_def
      hm_get_map_of update_conv' AList.delete_update_same Let_def)

text \<open>Left alone, a call is over after three turns, and has done what it does in one piece.\<close>

lemma alone_agrees:
  "pool_step enc dec x pl =
     (case turns_alone enc dec 3 x Cs_Start pl of (st, pl1) \<Rightarrow> if st = Cs_Panic then None else Some pl1)"
proof (cases x)
  case (Po_Sendrecv env host port z)
  obtain r1 pl1 where g: "get_or_create env host port pl = (r1, pl1)" by (cases "get_or_create env host port pl")
  obtain r2 pl2 where s: "tl_send_raw enc env (gen_base host port) z pl1 = (r2, pl2)"
    by (cases "tl_send_raw enc env (gen_base host port) z pl1")
  show ?thesis
    by (cases r1; cases "hm_get (tl_conns pl1) (gen_base host port)"; cases r2)
      (auto simp: Po_Sendrecv eval_nat_numeral pool_step_def tl_sendrecv_def turn_find_def turn_exchange_def g s Let_def
        remove_after_put split: sum.split prod.split)
next
  case (Po_Send_Only env host port z)
  obtain r1 pl1 where g: "get_or_create env host port pl = (r1, pl1)" by (cases "get_or_create env host port pl")
  obtain r2 pl2 where s: "tl_send_raw enc env (gen_base host port) z pl1 = (r2, pl2)"
    by (cases "tl_send_raw enc env (gen_base host port) z pl1")
  show ?thesis
    by (cases r1; cases "hm_get (tl_conns pl1) (gen_base host port)"; cases r2)
      (auto simp: Po_Send_Only eval_nat_numeral pool_step_def tl_send_only_def turn_find_def turn_send_def g s Let_def)
qed (simp_all add: eval_nat_numeral pool_step_def tl_close_connection_def tl_close_all_def)

section \<open>Calls together\<close>

inductive pool_reach ::
  "encoder \<Rightarrow> decoder \<Rightarrow> pool_op list \<Rightarrow> tcp_pool \<Rightarrow> call_state list \<Rightarrow> tcp_pool \<Rightarrow> bool"
  for enc dec ops pl0
where
  reach_start: "pool_reach enc dec ops pl0 (replicate (length ops) Cs_Start) pl0"
| reach_turn: "pool_reach enc dec ops pl0 sts pl \<Longrightarrow> i < length ops \<Longrightarrow>
     pool_turn enc dec (ops ! i) (sts ! i) pl = Some (st, pl') \<Longrightarrow>
     pool_reach enc dec ops pl0 (sts[i := st]) pl'"

text \<open>The connection a call works on, and the calls that have taken a connection away.\<close>

fun call_key :: "pool_op \<Rightarrow> string option" where
  "call_key (Po_Sendrecv env host port z) = Some (gen_base host port)"
| "call_key (Po_Send_Only env host port z) = Some (gen_base host port)"
| "call_key (Po_Close host port) = Some (gen_base host port)"
| "call_key Po_Close_All = None"

definition took_away :: "pool_op \<Rightarrow> call_state \<Rightarrow> string \<Rightarrow> bool" where
  "took_away x st key \<longleftrightarrow>
     (x = Po_Close_All \<and> st = Cs_Closed) \<or>
     (call_key x = Some key \<and> (st = Cs_Closed \<or> (\<exists>e. st = Cs_Dropped e)))"

section \<open>Who took the connection\<close>

lemma connect_conns: "tl_connect env host port pl = (r, pl1) \<Longrightarrow> tl_conns pl1 = tl_conns pl"
  by (auto simp: tl_connect_def split: sum.splits option.splits)

text \<open>\<open>get_or_create\<close> removes nothing, and leaves its own connection in the pool.\<close>

lemma get_or_create_adds:
  assumes "get_or_create env host port pl = (r, pl1)"
  shows "(\<forall>key. hm_get (tl_conns pl) key \<noteq> None \<longrightarrow> hm_get (tl_conns pl1) key \<noteq> None) \<and>
    (r = Inr () \<longrightarrow> hm_get (tl_conns pl1) (gen_base host port) \<noteq> None)"
proof -
  have "(\<forall>key. hm_get (tl_conns pl0) key \<noteq> None \<longrightarrow> hm_get (tl_conns pl2) key \<noteq> None) \<and>
      (r = Inr () \<longrightarrow> hm_get (tl_conns pl2) (gen_base host port) \<noteq> None)"
    if "(case tl_connect env host port pl0 of
           (Inl e, q) \<Rightarrow> (Inl e, q)
         | (Inr s, q) \<Rightarrow> (Inr (), tl_put (gen_base host port) (PooledConn_new (pe_now env 0) s) q)) = (r, pl2)"
    for pl0 pl2
    using that connect_conns [of env host port pl0] by (auto split: prod.splits sum.splits)
  from this [of pl pl1] this [of "tl_count (inc_reconnections \<circ> dec_active_connections) pl" pl1] assms
  show ?thesis
    by (cases "hm_get (tl_conns pl) (gen_base host port)")
      (auto simp: get_or_create_def Let_def split: if_splits)
qed

lemma raw_conns: "tl_send_raw enc env key z pl = (r, pl1) \<Longrightarrow> tl_conns pl1 = tl_conns pl"
  by (auto simp: tl_send_raw_def Let_def)

lemma exchange_turn:
  assumes "turn_exchange enc dec env host port z pl = (st, pl1)"
  shows "st \<noteq> Cs_Ready \<and> (st = Cs_Panic \<longrightarrow> hm_get (tl_conns pl) (gen_base host port) = None) \<and>
    (\<forall>key. hm_get (tl_conns pl) key \<noteq> None \<longrightarrow> hm_get (tl_conns pl1) key \<noteq> None)"
  using assms by (auto simp: turn_exchange_def Let_def dest!: raw_conns split: option.splits sum.splits prod.splits)

lemma send_turn:
  assumes "turn_send enc env host port z pl = (st, pl1)"
  shows "st \<noteq> Cs_Ready \<and> (st = Cs_Panic \<longrightarrow> hm_get (tl_conns pl) (gen_base host port) = None) \<and>
    (\<forall>key. hm_get (tl_conns pl) key \<noteq> None \<longrightarrow> hm_get (tl_conns pl1) key \<noteq> None)"
  using assms by (auto simp: turn_send_def Let_def dest!: raw_conns split: option.splits sum.splits prod.splits)

lemma find_turn:
  assumes "turn_find env host port pl = (st, pl1)"
  shows "st \<noteq> Cs_Panic \<and> (st = Cs_Ready \<longrightarrow> hm_get (tl_conns pl1) (gen_base host port) \<noteq> None) \<and>
    (\<forall>key. hm_get (tl_conns pl) key \<noteq> None \<longrightarrow> hm_get (tl_conns pl1) key \<noteq> None)"
proof -
  obtain r q where g: "get_or_create env host port pl = (r, q)" by (cases "get_or_create env host port pl")
  from assms get_or_create_adds [OF g] show ?thesis
    by (auto simp: turn_find_def g split: sum.splits)
qed

lemma remove_conns: "hm_get (tl_conns (tl_remove_conn host port pl)) = (hm_get (tl_conns pl))(gen_base host port := None)"
  by (simp add: tl_remove_conn_def Let_def)

text \<open>One turn: what is lost was taken away by it; who has taken a connection has no turn left.\<close>

lemma turn_facts:
  assumes "pool_turn enc dec x st pl = Some (st', pl')"
  shows "hm_get (tl_conns pl) key \<noteq> None \<Longrightarrow> hm_get (tl_conns pl') key \<noteq> None \<or> took_away x st' key"
    and "call_key x = Some key \<Longrightarrow> st' = Cs_Ready \<Longrightarrow> hm_get (tl_conns pl') key \<noteq> None"
    and "call_key x = Some key \<Longrightarrow> st' = Cs_Panic \<Longrightarrow> st = Cs_Ready \<and> hm_get (tl_conns pl) key = None"
    and "\<not> took_away x st key"
proof -
  show "hm_get (tl_conns pl) key \<noteq> None \<Longrightarrow> hm_get (tl_conns pl') key \<noteq> None \<or> took_away x st' key"
    using assms by (cases x; cases st) (auto simp: took_away_def remove_conns dest!: find_turn exchange_turn send_turn)
  show "call_key x = Some key \<Longrightarrow> st' = Cs_Ready \<Longrightarrow> hm_get (tl_conns pl') key \<noteq> None"
    using assms by (cases x; cases st) (auto dest!: find_turn exchange_turn send_turn)
  show "call_key x = Some key \<Longrightarrow> st' = Cs_Panic \<Longrightarrow> st = Cs_Ready \<and> hm_get (tl_conns pl) key = None"
    using assms by (cases x; cases st) (auto dest!: find_turn exchange_turn send_turn)
  show "\<not> took_away x st key"
    using assms by (cases x; cases st) (auto simp: took_away_def)
qed

definition blamed :: "pool_op list \<Rightarrow> call_state list \<Rightarrow> nat \<Rightarrow> string \<Rightarrow> bool" where
  "blamed ops sts i key \<longleftrightarrow> (\<exists>j < length ops. j \<noteq> i \<and> took_away (ops ! j) (sts ! j) key)"

lemma blamed_turn:
  assumes "blamed ops sts i key" "pool_turn enc dec (ops ! k) (sts ! k) pl = Some (st, pl')"
  shows "blamed ops (sts[k := st]) i key"
proof -
  from assms(1) obtain j where j: "j < length ops" "j \<noteq> i" "took_away (ops ! j) (sts ! j) key"
    by (auto simp: blamed_def)
  with turn_facts(4) [OF assms(2)] have "j \<noteq> k" by metis
  with j show ?thesis by (auto simp: blamed_def)
qed

definition found :: "pool_op list \<Rightarrow> call_state list \<Rightarrow> tcp_pool \<Rightarrow> nat \<Rightarrow> string \<Rightarrow> bool" where
  "found ops sts pl i key \<longleftrightarrow>
     (sts ! i = Cs_Ready \<longrightarrow> hm_get (tl_conns pl) key \<noteq> None \<or> blamed ops sts i key) \<and>
     (sts ! i = Cs_Panic \<longrightarrow> blamed ops sts i key)"

lemma found_turn:
  assumes "found ops sts pl i key" "call_key (ops ! i) = Some key" "length sts = length ops"
    and "k < length ops" "pool_turn enc dec (ops ! k) (sts ! k) pl = Some (st, pl')"
  shows "found ops (sts[k := st]) pl' i key"
proof (cases "i = k")
  case True
  with assms turn_facts(2,3) [OF assms(5)] blamed_turn [OF _ assms(5)] show ?thesis
    by (auto simp: found_def)
next
  case False
  then have "blamed ops (sts[k := st]) i key" if "took_away (ops ! k) st key"
    using that assms(3,4) by (auto simp: blamed_def)
  with False assms turn_facts(1) [OF assms(5)] blamed_turn [OF _ assms(5)] show ?thesis
    by (auto simp: found_def)
qed

lemma reach_length: "pool_reach enc dec ops pl0 sts pl \<Longrightarrow> length sts = length ops"
  by (induction rule: pool_reach.induct) simp_all

lemma reach_found:
  "pool_reach enc dec ops pl0 sts pl \<Longrightarrow> i < length ops \<Longrightarrow> call_key (ops ! i) = Some key \<Longrightarrow> found ops sts pl i key"
proof (induction rule: pool_reach.induct)
  case reach_start
  then show ?case by (simp add: found_def)
next
  case (reach_turn sts pl k st pl')
  then show ?case using found_turn reach_length by blast
qed
lemma panic_has_key:
  "pool_reach enc dec ops pl0 sts pl \<Longrightarrow> i < length ops \<Longrightarrow> sts ! i = Cs_Panic \<Longrightarrow> call_key (ops ! i) \<noteq> None"
proof (induction rule: pool_reach.induct)
  case (reach_turn sts pl k st pl')
  show ?case
  proof (cases "i = k")
    case True
    with reach_turn.prems reach_turn.hyps reach_length [OF reach_turn.hyps(1)] show ?thesis
      by (cases "ops ! k"; cases "sts ! k") auto
  qed (use reach_turn in simp)
qed simp

section \<open>Properties\<close>

text \<open>
  C30. A call on the shared pool panics only when another call took its connection: however the
  turns of any calls interleave, on any pool and whatever the network does, if a call has panicked
  then another request to the same peer has failed and removed the connection, or the connection
  was closed, or all were. Requests to different peers therefore never panic; two to one peer can.
\<close>

theorem panic_is_blamed:
  assumes "pool_reach enc dec ops pl0 sts pl" "i < length ops" "sts ! i = Cs_Panic"
  shows "\<exists>key j. call_key (ops ! i) = Some key \<and> j < length ops \<and> j \<noteq> i \<and> took_away (ops ! j) (sts ! j) key"
proof -
  obtain key where key: "call_key (ops ! i) = Some key" using panic_has_key [OF assms] by blast
  from reach_found [OF assms(1,2) key] assms(3) have "blamed ops sts i key" by (simp add: found_def)
  with key show ?thesis by (auto simp: blamed_def)
qed

theorem panic_is_blamed_witness:
  fixes env :: pool_env and call :: pool_op and ops :: "pool_op list"
  defines "env \<equiv> \<lparr>pe_connect = Inr \<lparr>rs_bytes = [], rs_end = ''early eof''\<rparr>, pe_nodelay_err = None,
        pe_send = Wio_Write_Err 0 ''broken pipe'', pe_reply = \<lparr>rs_bytes = [], rs_end = ''early eof''\<rparr>,
        pe_now = (\<lambda>i. i)\<rparr>"
    and "call \<equiv> Po_Sendrecv env ''10.0.0.1'' 7 ZPack_default"
    and "ops \<equiv> [call, call]"
  shows "\<exists>e pl. pool_reach sample_enc sample_dec ops tl_new [Cs_Dropped e, Cs_Panic] pl \<and>
    (\<exists>key j. call_key (ops ! 1) = Some key \<and> j < length ops \<and> j \<noteq> 1 \<and>
       took_away (ops ! j) ([Cs_Dropped e, Cs_Panic] ! j) key)"
proof -
  let ?key = "gen_base ''10.0.0.1'' 7" and ?c = "PooledConn_new 0 \<lparr>rs_bytes = [], rs_end = ''early eof''\<rparr>"
  let ?turn = "pool_turn sample_enc sample_dec call" and ?e = "SendFailed ''broken pipe''"
  let ?reach = "pool_reach sample_enc sample_dec ops tl_new"
  let ?p1 = "tl_put ?key ?c (tl_count inc_active_connections tl_new)"
  let ?p2 = "tl_count inc_send_errors (?p1\<lparr>tl_wire := [(?key, [])]\<rparr>)"
  have fresh: "hm_get (tl_conns tl_new) k = None" "tl_wire tl_new = []" for k
    by (simp_all add: tl_new_def tl_with_metrics_def)
  have t1: "?turn Cs_Start tl_new = Some (Cs_Ready, ?p1)"
    by (simp add: call_def turn_find_def get_or_create_def tl_connect_def fresh env_def Let_def)
  have t2: "?turn Cs_Start ?p1 = Some (Cs_Ready, ?p1)"
    by (simp add: call_def turn_find_def get_or_create_def worn_def env_def Let_def PooledConn_new_def MAX_OPS_def)
  have t3: "?turn Cs_Ready ?p1 = Some (Cs_Remove ?e, ?p2)"
    by (simp add: call_def turn_exchange_def tl_send_raw_def send_message_def env_def Let_def fresh tl_put_def tl_count_def)
  have t4: "?turn (Cs_Remove ?e) ?p2 = Some (Cs_Dropped ?e, tl_remove_conn ''10.0.0.1'' 7 ?p2)"
    by (simp add: call_def)
  have t5: "?turn Cs_Ready (tl_remove_conn ''10.0.0.1'' 7 pl) = Some (Cs_Panic, tl_remove_conn ''10.0.0.1'' 7 pl)" for pl
    by (simp add: call_def turn_exchange_def remove_conns Let_def)
  have ops: "length ops = 2" "ops ! 0 = call" "ops ! Suc 0 = call" by (simp_all add: ops_def)
  have r: "?reach [Cs_Start, Cs_Start] tl_new"
    using reach_start [of sample_enc sample_dec ops tl_new] by (simp add: ops(1) numeral_2_eq_2)
  have r: "?reach [Cs_Ready, Cs_Start] ?p1" using reach_turn [OF r, of 0] by (simp add: ops t1)
  have r: "?reach [Cs_Ready, Cs_Ready] ?p1" using reach_turn [OF r, of 1] by (simp add: ops t2)
  have r: "?reach [Cs_Remove ?e, Cs_Ready] ?p2" using reach_turn [OF r, of 0] by (simp add: ops t3)
  have r: "?reach [Cs_Dropped ?e, Cs_Ready] (tl_remove_conn ''10.0.0.1'' 7 ?p2)"
    using reach_turn [OF r, of 0] by (simp add: ops t4)
  have r: "?reach [Cs_Dropped ?e, Cs_Panic] (tl_remove_conn ''10.0.0.1'' 7 ?p2)"
    using reach_turn [OF r, of 1] by (simp add: ops t5)
  from panic_is_blamed [OF r, of 1] r show ?thesis by (auto simp: ops(1))
qed

end
