(* ===== verification/Shutdown.thy ===== *)
theory Shutdown
  imports Zht_Prelude
begin

text \<open>
  \<open>zht-transport/src/shutdown.rs\<close>: a flag and a broadcast channel. The flag is checked first and the
  channel subscribed to after it, so this is about interleaving: a step relation, one rule per
  atomic action of a controller or of a task in \<open>ShutdownSignal::recv\<close>.
\<close>

section \<open>States and steps\<close>

text \<open>A task in \<open>recv\<close>: at its start, past a check that found no flag, subscribed, or returned.\<close>

datatype waiter = W_Start | W_Checked | W_Waiting | W_Done

text \<open>
  \<open>sh_calls\<close> counts the calls of \<open>shutdown\<close>, \<open>sh_unsent\<close> those that have stored the flag and not
  yet sent. The channel closes when the last controller is dropped.
\<close>

record shutdown_state =
  sh_triggered :: bool
  sh_calls :: nat
  sh_unsent :: nat
  sh_closed :: bool
  sh_waiters :: "waiter list"

definition ShutdownController_new :: shutdown_state where
  "ShutdownController_new =
     \<lparr>sh_triggered = False, sh_calls = 0, sh_unsent = 0, sh_closed = False, sh_waiters = []\<rparr>"

definition sh_is_triggered :: "shutdown_state \<Rightarrow> bool" where
  "sh_is_triggered s \<longleftrightarrow> sh_triggered s"

definition moves :: "nat \<Rightarrow> waiter \<Rightarrow> shutdown_state \<Rightarrow> shutdown_state" where
  "moves i w s = s\<lparr>sh_waiters := (sh_waiters s)[i := w]\<rparr>"

definition stores_flag :: "shutdown_state \<Rightarrow> shutdown_state" where
  "stores_flag s = s\<lparr>sh_triggered := True, sh_calls := Suc (sh_calls s), sh_unsent := Suc (sh_unsent s)\<rparr>"

text \<open>A message reaches those subscribed, and no one who subscribes later.\<close>

definition sends_message :: "shutdown_state \<Rightarrow> shutdown_state" where
  "sends_message s =
     s\<lparr>sh_unsent := sh_unsent s - 1,
       sh_waiters := map (\<lambda>w. if w = W_Waiting then W_Done else w) (sh_waiters s)\<rparr>"

definition at_stage :: "shutdown_state \<Rightarrow> nat \<Rightarrow> waiter \<Rightarrow> bool" where
  "at_stage s i w \<longleftrightarrow> i < length (sh_waiters s) \<and> sh_waiters s ! i = w"

inductive sh_step :: "shutdown_state \<Rightarrow> shutdown_state \<Rightarrow> bool" where
  calls_recv: "sh_step s (s\<lparr>sh_waiters := sh_waiters s @ [W_Start]\<rparr>)"
| sees_flag: "at_stage s i W_Start \<Longrightarrow> sh_triggered s \<Longrightarrow> sh_step s (moves i W_Done s)"
| sees_none: "at_stage s i W_Start \<Longrightarrow> \<not> sh_triggered s \<Longrightarrow> sh_step s (moves i W_Checked s)"
| subscribes: "at_stage s i W_Checked \<Longrightarrow> sh_step s (moves i W_Waiting s)"
| sees_closed: "at_stage s i W_Waiting \<Longrightarrow> sh_closed s \<Longrightarrow> sh_step s (moves i W_Done s)"
| stores: "\<not> sh_closed s \<Longrightarrow> sh_step s (stores_flag s)"
| sends: "0 < sh_unsent s \<Longrightarrow> sh_step s (sends_message s)"
| closes: "sh_unsent s = 0 \<Longrightarrow> sh_step s (s\<lparr>sh_closed := True\<rparr>)"

lemmas sh_defs = moves_def stores_flag_def sends_message_def at_stage_def

abbreviation sh_reaches :: "shutdown_state \<Rightarrow> shutdown_state \<Rightarrow> bool" where
  "sh_reaches \<equiv> sh_step\<^sup>*\<^sup>*"

section \<open>What a waiter may rely on\<close>

text \<open>Nothing is undone: calls are counted up, and a closed channel stays closed.\<close>

lemma sh_step_mono:
  "sh_step s s' \<Longrightarrow> sh_calls s \<le> sh_calls s' \<and> (sh_closed s \<longrightarrow> sh_closed s') \<and> (sh_triggered s \<longrightarrow> sh_triggered s')"
  by (cases rule: sh_step.cases) (auto simp: sh_defs)

lemma sh_reaches_mono:
  "sh_reaches s s' \<Longrightarrow> sh_calls s \<le> sh_calls s' \<and> (sh_closed s \<longrightarrow> sh_closed s') \<and> (sh_triggered s \<longrightarrow> sh_triggered s')"
proof (induction rule: rtranclp_induct)
  case (step s1 s2)
  then show ?case using sh_step_mono [OF step.hyps(2)] by auto
qed simp

text \<open>The flag tells whether there was a call; no one returns before one, or the end of the channel.\<close>

definition woken_inv :: "shutdown_state \<Rightarrow> bool" where
  "woken_inv s \<longleftrightarrow>
     (sh_triggered s \<longleftrightarrow> 0 < sh_calls s) \<and> sh_unsent s \<le> sh_calls s \<and>
     (W_Done \<in> set (sh_waiters s) \<longrightarrow> sh_triggered s \<or> sh_closed s)"

lemma woken_step: "sh_step s s' \<Longrightarrow> woken_inv s \<Longrightarrow> woken_inv s'"
  by (cases rule: sh_step.cases)
    (auto simp: woken_inv_def sh_defs dest!: set_update_subset_insert [THEN subsetD] split: if_splits)

lemma woken_reaches: "sh_reaches ShutdownController_new s \<Longrightarrow> woken_inv s"
  by (induction rule: rtranclp_induct) (auto simp: ShutdownController_new_def woken_inv_def dest: woken_step)

text \<open>While no call is in progress or made and the channel is open, a subscribed waiter waits on.\<close>

lemma waits_step:
  assumes "sh_step s s'" "at_stage s i W_Waiting" "sh_unsent s = 0" "sh_calls s' = sh_calls s" "\<not> sh_closed s'"
  shows "at_stage s' i W_Waiting \<and> sh_unsent s' = 0"
  using assms by (cases rule: sh_step.cases) (auto simp: sh_defs nth_append nth_list_update)

lemma waits_on:
  "sh_reaches s s' \<Longrightarrow> at_stage s i W_Waiting \<Longrightarrow> sh_unsent s = 0 \<Longrightarrow> sh_calls s' = sh_calls s \<Longrightarrow>
     \<not> sh_closed s' \<Longrightarrow> at_stage s' i W_Waiting \<and> sh_unsent s' = 0"
proof (induction rule: rtranclp_induct)
  case (step s1 s2)
  have "sh_calls s \<le> sh_calls s1" using sh_reaches_mono [OF step.hyps(1)] by simp
  then have same: "sh_calls s1 = sh_calls s" and "\<not> sh_closed s1"
    using sh_step_mono [OF step.hyps(2)] step.prems(3,4) by auto
  with step.IH step.prems have "at_stage s1 i W_Waiting" "sh_unsent s1 = 0" by auto
  with waits_step [OF step.hyps(2)] same step.prems(3,4) show ?case by simp
qed simp

text \<open>All that is to be sent is sent; a task between its check and its subscription is not reached.\<close>

lemma sends_all:
  assumes "at_stage s i W_Checked"
  shows "\<exists>s'. sh_reaches s s' \<and> at_stage s' i W_Checked \<and> sh_unsent s' = 0 \<and> sh_calls s' = sh_calls s \<and>
    sh_triggered s' = sh_triggered s"
  using assms
proof (induction "sh_unsent s" arbitrary: s)
  case (Suc n)
  let ?s = "sends_message s"
  have "sh_step s ?s" using Suc.hyps(2) by (intro sends) simp
  moreover have "at_stage ?s i W_Checked" "sh_unsent ?s = n" "sh_calls ?s = sh_calls s"
    "sh_triggered ?s = sh_triggered s"
    using Suc.prems Suc.hyps(2) by (auto simp: sh_defs)
  ultimately show ?case using Suc.hyps(1) [of ?s] by (metis converse_rtranclp_into_rtranclp)
qed auto

section \<open>Properties\<close>

text \<open>
  C29. A shutdown can be missed. Whenever a task in \<open>recv\<close> has checked the flag
  and not yet subscribed, and the channel is open, the run can go on with one more call of
  \<open>shutdown\<close>, made and sent in full, that leaves the task subscribed and waiting;
  and from there, although the flag is set, it waits on whatever the tasks do, until there is
  yet another call or the channel closes.
\<close>

theorem shutdown_can_be_missed:
  assumes "sh_reaches ShutdownController_new s" "at_stage s i W_Checked" "\<not> sh_closed s"
  shows "\<exists>s1. sh_reaches s s1 \<and> sh_calls s1 = Suc (sh_calls s) \<and> sh_unsent s1 = 0 \<and> at_stage s1 i W_Waiting \<and>
    (\<forall>s2. sh_reaches s1 s2 \<and> sh_calls s2 = sh_calls s1 \<and> \<not> sh_closed s2 \<longrightarrow>
       at_stage s2 i W_Waiting \<and> sh_is_triggered s2)"
proof -
  have "at_stage (stores_flag s) i W_Checked" using assms(2) by (simp add: sh_defs)
  from sends_all [OF this] obtain s' where s': "sh_reaches (stores_flag s) s'" "at_stage s' i W_Checked"
      "sh_unsent s' = 0" "sh_calls s' = Suc (sh_calls s)" "sh_triggered s'"
    by (auto simp: stores_flag_def)
  let ?s1 = "moves i W_Waiting s'"
  have "sh_step s (stores_flag s)" "sh_step s' ?s1"
    using assms(3) s'(2) by (auto intro: stores subscribes)
  with s'(1) have reach: "sh_reaches s ?s1"
    by (meson converse_rtranclp_into_rtranclp rtranclp.rtrancl_into_rtrancl)
  have 1: "at_stage ?s1 i W_Waiting" "sh_unsent ?s1 = 0" "sh_calls ?s1 = Suc (sh_calls s)" "sh_triggered ?s1"
    using s' by (simp_all add: sh_defs)
  have "at_stage s2 i W_Waiting \<and> sh_is_triggered s2"
    if "sh_reaches ?s1 s2" "sh_calls s2 = sh_calls ?s1" "\<not> sh_closed s2" for s2
    using waits_on [OF that(1) 1(1,2) that(2,3)] sh_reaches_mono [OF that(1)] 1(4)
    by (simp add: sh_is_triggered_def)
  with reach 1 show ?thesis by blast
qed

definition checked_state :: shutdown_state where
  "checked_state =
     \<lparr>sh_triggered = False, sh_calls = 0, sh_unsent = 0, sh_closed = False, sh_waiters = [W_Checked]\<rparr>"

lemma checked_state_reached: "sh_reaches ShutdownController_new checked_state"
proof -
  let ?s = "ShutdownController_new\<lparr>sh_waiters := [W_Start]\<rparr>"
  have "sh_step ShutdownController_new ?s"
    using calls_recv [of ShutdownController_new] by (simp add: ShutdownController_new_def)
  moreover have "sh_step ?s checked_state"
    using sees_none [of ?s 0] by (simp add: sh_defs checked_state_def ShutdownController_new_def)
  ultimately show ?thesis by (meson converse_rtranclp_into_rtranclp r_into_rtranclp)
qed

theorem shutdown_can_be_missed_witness:
  "\<exists>s1. sh_reaches checked_state s1 \<and> sh_calls s1 = 1 \<and> sh_unsent s1 = 0 \<and> at_stage s1 0 W_Waiting \<and> sh_is_triggered s1"
proof -
  have "at_stage checked_state 0 W_Checked" "\<not> sh_closed checked_state" "sh_calls checked_state = 0"
    by (simp_all add: checked_state_def at_stage_def)
  from shutdown_can_be_missed [OF checked_state_reached this(1,2)] this(3) obtain s1
    where s1: "sh_reaches checked_state s1" "sh_calls s1 = 1" "sh_unsent s1 = 0" "at_stage s1 0 W_Waiting" by auto
  have "sh_triggered s1" using woken_reaches [of s1] checked_state_reached s1(1,2)
    by (auto simp: woken_inv_def dest: rtranclp_trans)
  with s1 show ?thesis by (auto simp: sh_is_triggered_def)
qed

end
