(* ===== verification/Lru_Cache.thy ===== *)
theory Lru_Cache
  imports Op_Machine Zht_Config
begin

text \<open>
  Crate \<open>zht-cache\<close> (\<open>zht-cache/src/lib.rs\<close>): the fixed-capacity LRU cache. The state is the
  hash map of values and the deque of keys, most recently used first; the lock makes each
  operation one step. The specification is a single list of entries in order of recency.
\<close>

section \<open>State and operations\<close>

record ('k, 'v) lru =
  max_size :: nat
  lmap :: "('k, 'v \<times> nat) hashmap"
  order :: "'k list"

text \<open>\<open>new\<close> panics on a zero capacity; a panic is \<open>Inl\<close> of its message.\<close>

definition LruCache_new :: "nat \<Rightarrow> string + ('k, 'v) lru" where
  "LruCache_new n =
     (if n = 0 then Inl ''LruCache capacity must be > 0''
      else Inr \<lparr>max_size = n, lmap = [], order = []\<rparr>)"

definition remove_order :: "'k \<Rightarrow> ('k, 'v) lru \<Rightarrow> ('k, 'v) lru" where
  "remove_order key c =
     (case position (\<lambda>k. k = key) (order c) of
        None \<Rightarrow> c
      | Some pos \<Rightarrow> c\<lparr>order := take pos (order c) @ drop (Suc pos) (order c)\<rparr>)"

definition touch_inner :: "'k \<Rightarrow> ('k, 'v) lru \<Rightarrow> ('k, 'v) lru" where
  "touch_inner key c =
     (if \<not> hm_contains (lmap c) key then c
      else (remove_order key c)\<lparr>order := key # order (remove_order key c)\<rparr>)"

definition pop_back :: "'k list \<Rightarrow> ('k \<times> 'k list) option" where
  "pop_back ks = (if ks = [] then None else Some (last ks, butlast ks))"

text \<open>The eviction loop. It spins for ever when the deque is empty while the map is too big.\<close>

partial_function (option) evict :: "('k, 'v) lru \<Rightarrow> ('k, 'v) lru option" where
  "evict c =
     (if max_size c < length (lmap c) then
        case pop_back (order c) of
          None \<Rightarrow> evict c
        | Some (k, ks) \<Rightarrow> evict (c\<lparr>order := ks, lmap := hm_remove k (lmap c)\<rparr>)
      else Some c)"

definition push_entry :: "'k \<Rightarrow> 'v \<Rightarrow> ('k, 'v) lru \<Rightarrow> ('k, 'v) lru" where
  "push_entry key v c =
     (let c1 = (if hm_contains (lmap c) key then remove_order key c else c)
      in c1\<lparr>order := key # order c1, lmap := hm_insert key (v, 0) (lmap c1)\<rparr>)"

definition lru_insert :: "'k \<Rightarrow> 'v \<Rightarrow> ('k, 'v) lru \<Rightarrow> ('k, 'v) lru option" where
  "lru_insert key v c = evict (push_entry key v c)"

definition insert_with_eviction :: "'k \<Rightarrow> 'v \<Rightarrow> ('k, 'v) lru \<Rightarrow> 'v option \<times> ('k, 'v) lru" where
  "insert_with_eviction key v c =
     (let c1 = push_entry key v c in
      if max_size c1 < length (lmap c1) then
        case pop_back (order c1) of
          None \<Rightarrow> (None, c1)
        | Some (k, ks) \<Rightarrow>
            (map_option fst (hm_get (lmap c1) k),
             c1\<lparr>order := ks, lmap := hm_remove k (lmap c1)\<rparr>)
      else (None, c1))"

definition fetch :: "'k \<Rightarrow> ('k, 'v) lru \<Rightarrow> 'v option \<times> ('k, 'v) lru" where
  "fetch key c =
     (case hm_get (lmap c) key of
        None \<Rightarrow> (None, c)
      | Some (v, _) \<Rightarrow> (Some v, touch_inner key c))"

definition lru_contains :: "'k \<Rightarrow> ('k, 'v) lru \<Rightarrow> bool" where
  "lru_contains key c \<longleftrightarrow> hm_contains (lmap c) key"

definition lru_remove :: "'k \<Rightarrow> ('k, 'v) lru \<Rightarrow> 'v option \<times> ('k, 'v) lru" where
  "lru_remove key c =
     (let c1 = remove_order key c
      in (map_option fst (hm_get (lmap c1) key), c1\<lparr>lmap := hm_remove key (lmap c1)\<rparr>))"

definition lru_touch :: "'k \<Rightarrow> ('k, 'v) lru \<Rightarrow> ('k, 'v) lru" where
  "lru_touch key c = touch_inner key c"

definition lru_len :: "('k, 'v) lru \<Rightarrow> nat" where
  "lru_len c = length (lmap c)"

definition lru_is_empty :: "('k, 'v) lru \<Rightarrow> bool" where
  "lru_is_empty c \<longleftrightarrow> lmap c = []"

definition lru_capacity :: "('k, 'v) lru \<Rightarrow> nat" where
  "lru_capacity c = max_size c"

definition lru_clear :: "('k, 'v) lru \<Rightarrow> ('k, 'v) lru" where
  "lru_clear c = c\<lparr>lmap := [], order := []\<rparr>"

definition keys_lru :: "('k, 'v) lru \<Rightarrow> 'k list" where
  "keys_lru c = order c"

section \<open>The invariant\<close>

text \<open>The deque lists each key of the map once, and the map is within capacity.\<close>

definition lru_core :: "('k, 'v) lru \<Rightarrow> bool" where
  "lru_core c \<longleftrightarrow> hm_wf (lmap c) \<and> distinct (order c) \<and> set (order c) = dom (hm_get (lmap c))"

definition lru_inv :: "('k, 'v) lru \<Rightarrow> bool" where
  "lru_inv c \<longleftrightarrow> lru_core c \<and> 0 < max_size c \<and> length (lmap c) \<le> max_size c"

lemma take_drop_position:
  "position (\<lambda>k. k = key) ks = Some i \<Longrightarrow> take i ks @ drop (Suc i) ks = remove1 key ks"
  by (induction ks arbitrary: i) (auto split: if_splits)

lemma order_remove_order: "order (remove_order key c) = remove1 key (order c)"
proof (cases "position (\<lambda>k. k = key) (order c)")
  case None
  then have "key \<notin> set (order c)" by (auto simp: position_None)
  with None show ?thesis by (simp add: remove_order_def remove1_idem)
qed (simp add: remove_order_def take_drop_position)

lemma remove_order_frame [simp]:
  "lmap (remove_order key c) = lmap c" "max_size (remove_order key c) = max_size c"
  by (simp_all add: remove_order_def split: option.split)

lemma length_order: "lru_core c \<Longrightarrow> length (order c) = length (lmap c)"
  by (simp add: lru_core_def hm.len_keys distinct_card flip: set_hm_keys)
    (metis distinct_card set_hm_keys)

lemma filter_absent: "k \<notin> set ks \<Longrightarrow> filter (\<lambda>x. x \<noteq> k) ks = ks"
  by (rule filter_True) auto

lemma remove1_filter: "distinct ks \<Longrightarrow> remove1 k ks = filter (\<lambda>x. x \<noteq> k) ks"
  by (induction ks) (auto simp: filter_absent)

lemma order_push_entry:
  assumes "lru_core c"
  shows "order (push_entry key v c) = key # filter (\<lambda>k. k \<noteq> key) (order c)"
proof (cases "hm_contains (lmap c) key")
  case True
  then show ?thesis
    using assms by (simp add: push_entry_def order_remove_order remove1_filter lru_core_def)
next
  case False
  then have "key \<notin> set (order c)"
    using assms by (auto simp: lru_core_def hm_contains_def)
  with False show ?thesis by (simp add: push_entry_def filter_absent)
qed

lemma push_entry_frame [simp]:
  "lmap (push_entry key v c) = hm_insert key (v, 0) (lmap c)"
  "max_size (push_entry key v c) = max_size c"
  by (simp_all add: push_entry_def Let_def)

lemma push_entry_core: "lru_core c \<Longrightarrow> lru_core (push_entry key v c)"
  by (auto simp: lru_core_def order_push_entry [unfolded lru_core_def])

lemma pop_back_core:
  assumes "lru_core c" "pop_back (order c) = Some (k, ks)"
  shows "lru_core (c\<lparr>order := ks, lmap := hm_remove k (lmap c)\<rparr>)"
    and "length (hm_remove k (lmap c)) = length (lmap c) - 1"
    and "order c = ks @ [k]"
proof -
  from assms(2) show o: "order c = ks @ [k]"
    by (auto simp: pop_back_def split: if_splits)
  with assms(1) show "lru_core (c\<lparr>order := ks, lmap := hm_remove k (lmap c)\<rparr>)"
    by (auto simp: lru_core_def)
  have "k \<in> set (order c)" using o by simp
  then have "hm_get (lmap c) k \<noteq> None" using assms(1) by (simp add: lru_core_def domIff)
  then show "length (hm_remove k (lmap c)) = length (lmap c) - 1"
    using assms(1) unfolding lru_core_def by (subst hm.len_remove) auto
qed

text \<open>One insertion exceeds the capacity by at most one entry, so the loop runs once at most.\<close>

lemma evict_once:
  assumes "lru_core c" "length (lmap c) \<le> Suc (max_size c)"
  shows "evict c = Some (if max_size c < length (lmap c)
     then c\<lparr>order := butlast (order c), lmap := hm_remove (last (order c)) (lmap c)\<rparr> else c)"
proof (cases "max_size c < length (lmap c)")
  case True
  then have "order c \<noteq> []" using length_order [OF assms(1)] by auto
  then have pop: "pop_back (order c) = Some (last (order c), butlast (order c))"
    by (simp add: pop_back_def)
  let ?c = "c\<lparr>order := butlast (order c), lmap := hm_remove (last (order c)) (lmap c)\<rparr>"
  have "\<not> max_size ?c < length (lmap ?c)"
    using pop_back_core(2) [OF assms(1) pop] assms(2) by simp
  then have "evict ?c = Some ?c" by (subst evict.simps) simp
  with True pop show ?thesis by (subst evict.simps) simp
qed (subst evict.simps, simp)

lemma push_entry_len:
  assumes "lru_inv c"
  shows "length (lmap (push_entry key v c)) \<le> Suc (max_size (push_entry key v c))"
  using assms by (simp add: lru_inv_def lru_core_def hm.len_insert)

section \<open>Refinement of the recency list\<close>

text \<open>
  The specification keeps one list of entries, most recent first, never longer than the
  capacity; an insertion puts its entry in front and drops what exceeds the capacity.
\<close>

type_synonym ('k, 'v) recency = "nat \<times> ('k \<times> 'v) list"

definition rec_drop :: "'k \<Rightarrow> ('k \<times> 'v) list \<Rightarrow> ('k \<times> 'v) list" where
  "rec_drop k xs = filter (\<lambda>e. fst e \<noteq> k) xs"

definition rec_touch :: "'k \<Rightarrow> ('k \<times> 'v) list \<Rightarrow> ('k \<times> 'v) list" where
  "rec_touch k xs = (case map_of xs k of None \<Rightarrow> xs | Some v \<Rightarrow> (k, v) # rec_drop k xs)"

datatype ('k, 'v) lru_op =
    LInsert 'k 'v | LInsertEv 'k 'v | LFetch 'k | LContains 'k | LRemove 'k | LTouch 'k
  | LLen | LIsEmpty | LCapacity | LClear | LKeys

datatype ('k, 'v) lru_out =
    RUnit | RVal "'v option" | RBool bool | RNat nat | RKeys "'k list" | RHang

fun lru_step :: "('k, 'v) lru_op \<Rightarrow> ('k, 'v) lru \<Rightarrow> ('k, 'v) lru_out \<times> ('k, 'v) lru" where
  "lru_step (LInsert k v) c = (case lru_insert k v c of None \<Rightarrow> (RHang, c) | Some c' \<Rightarrow> (RUnit, c'))"
| "lru_step (LInsertEv k v) c = map_prod RVal id (insert_with_eviction k v c)"
| "lru_step (LFetch k) c = map_prod RVal id (fetch k c)"
| "lru_step (LContains k) c = (RBool (lru_contains k c), c)"
| "lru_step (LRemove k) c = map_prod RVal id (lru_remove k c)"
| "lru_step (LTouch k) c = (RUnit, lru_touch k c)"
| "lru_step LLen c = (RNat (lru_len c), c)"
| "lru_step LIsEmpty c = (RBool (lru_is_empty c), c)"
| "lru_step LCapacity c = (RNat (lru_capacity c), c)"
| "lru_step LClear c = (RUnit, lru_clear c)"
| "lru_step LKeys c = (RKeys (keys_lru c), c)"

fun rec_step :: "('k, 'v) lru_op \<Rightarrow> ('k, 'v) recency \<Rightarrow> ('k, 'v) lru_out \<times> ('k, 'v) recency" where
  "rec_step (LInsert k v) (n, xs) = (RUnit, (n, take n ((k, v) # rec_drop k xs)))"
| "rec_step (LInsertEv k v) (n, xs) =
     (let ys = (k, v) # rec_drop k xs
      in (RVal (if n < length ys then Some (snd (last ys)) else None), (n, take n ys)))"
| "rec_step (LFetch k) (n, xs) = (RVal (map_of xs k), (n, rec_touch k xs))"
| "rec_step (LContains k) (n, xs) = (RBool (map_of xs k \<noteq> None), (n, xs))"
| "rec_step (LRemove k) (n, xs) = (RVal (map_of xs k), (n, rec_drop k xs))"
| "rec_step (LTouch k) (n, xs) = (RUnit, (n, rec_touch k xs))"
| "rec_step LLen (n, xs) = (RNat (length xs), (n, xs))"
| "rec_step LIsEmpty (n, xs) = (RBool (xs = []), (n, xs))"
| "rec_step LCapacity (n, xs) = (RNat n, (n, xs))"
| "rec_step LClear (n, xs) = (RUnit, (n, []))"
| "rec_step LKeys (n, xs) = (RKeys (map fst xs), (n, xs))"

definition lru_value :: "('k, 'v) lru \<Rightarrow> 'k \<Rightarrow> 'v" where
  "lru_value c k = fst (the (hm_get (lmap c) k))"

definition lru_abs :: "('k, 'v) lru \<Rightarrow> ('k, 'v) recency" where
  "lru_abs c = (max_size c, map (\<lambda>k. (k, lru_value c k)) (order c))"

lemma map_of_entries: "map_of (map (\<lambda>k. (k, f k)) ks) k = (if k \<in> set ks then Some (f k) else None)"
  by (induction ks) auto

lemma map_of_abs:
  assumes "lru_core c"
  shows "map_of (snd (lru_abs c)) k = map_option fst (hm_get (lmap c) k)"
  using assms by (auto simp: lru_abs_def map_of_entries lru_core_def lru_value_def)

lemma rec_drop_abs:
  "rec_drop k (map (\<lambda>x. (x, f x)) ks) = map (\<lambda>x. (x, f x)) (filter (\<lambda>x. x \<noteq> k) ks)"
  by (simp add: rec_drop_def filter_map o_def)

lemma abs_push_entry:
  assumes "lru_core c"
  shows "snd (lru_abs (push_entry k v c)) = (k, v) # rec_drop k (snd (lru_abs c))"
  by (auto simp: lru_abs_def order_push_entry [OF assms] rec_drop_abs lru_value_def)

lemma abs_pop:
  assumes "lru_core c" "order c \<noteq> []"
  shows "snd (lru_abs (c\<lparr>order := butlast (order c), lmap := hm_remove (last (order c)) (lmap c)\<rparr>))
    = butlast (snd (lru_abs c))"
proof -
  have "last (order c) \<notin> set (butlast (order c))"
    using assms by (metis append_butlast_last_id distinct_append disjoint_iff list.set_intros(1) lru_core_def)
  then show ?thesis
    by (auto simp: lru_abs_def lru_value_def map_butlast [symmetric])
qed

text \<open>What the two insertions do to a well-formed cache.\<close>

lemma lru_insert_eq:
  assumes "lru_inv c"
  shows "lru_insert k v c = Some (snd (insert_with_eviction k v c))"
proof -
  let ?c = "push_entry k v c"
  have core: "lru_core ?c" using assms by (simp add: lru_inv_def push_entry_core)
  have "max_size ?c < length (lmap ?c) \<Longrightarrow> order ?c \<noteq> []"
    using length_order [OF core] by auto
  with evict_once [OF core push_entry_len [OF assms]] show ?thesis
    by (auto simp: lru_insert_def insert_with_eviction_def Let_def pop_back_def)
qed

lemma insert_with_eviction_core:
  assumes "lru_inv c"
  shows "lru_inv (snd (insert_with_eviction k v c))"
proof -
  let ?c = "push_entry k v c"
  have core: "lru_core ?c" using assms by (simp add: lru_inv_def push_entry_core)
  show ?thesis
  proof (cases "max_size ?c < length (lmap ?c)")
    case True
    then have "order ?c \<noteq> []" using length_order [OF core] by auto
    then have pop: "pop_back (order ?c) = Some (last (order ?c), butlast (order ?c))"
      by (simp add: pop_back_def)
    have "length (lmap ?c) - 1 \<le> max_size ?c" using push_entry_len [OF assms, of k v] by simp
    with True pop pop_back_core [OF core pop] assms show ?thesis
      by (simp add: insert_with_eviction_def Let_def lru_inv_def)
  next
    case False
    with core assms show ?thesis
      by (simp add: insert_with_eviction_def Let_def lru_inv_def)
  qed
qed

lemma length_abs: "lru_core c \<Longrightarrow> length (snd (lru_abs c)) = length (lmap c)"
  by (simp add: lru_abs_def length_order)

lemma abs_insert_with_eviction:
  assumes "lru_inv c"
  shows "map_prod RVal lru_abs (insert_with_eviction k v c) = rec_step (LInsertEv k v) (lru_abs c)"
proof -
  let ?c = "push_entry k v c" and ?ys = "(k, v) # rec_drop k (snd (lru_abs c))"
  have core: "lru_core ?c" using assms by (simp add: lru_inv_def push_entry_core)
  have ys: "snd (lru_abs ?c) = ?ys" using assms by (simp add: lru_inv_def abs_push_entry)
  have len: "length ?ys = length (lmap ?c)" using length_abs [OF core] ys by simp
  have max: "fst (lru_abs c) = max_size c" "max_size ?c = max_size c" by (simp_all add: lru_abs_def)
  show ?thesis
  proof (cases "max_size ?c < length (lmap ?c)")
    case True
    then have ne: "order ?c \<noteq> []" using length_order [OF core] by auto
    then have pop: "pop_back (order ?c) = Some (last (order ?c), butlast (order ?c))"
      by (simp add: pop_back_def)
    have "last (order ?c) \<in> dom (hm_get (lmap ?c))"
      using core ne by (metis last_in_set lru_core_def)
    then have val: "map_option fst (hm_get (lmap ?c) (last (order ?c))) = Some (lru_value ?c (last (order ?c)))"
      by (auto simp: lru_value_def)
    have "last (snd (lru_abs ?c)) = (last (order ?c), lru_value ?c (last (order ?c)))"
      unfolding lru_abs_def snd_conv by (rule last_map [OF ne])
    then have lst: "last ?ys = (last (order ?c), lru_value ?c (last (order ?c)))"
      by (simp only: ys)
    have "length ?ys = Suc (max_size c)" using len True push_entry_len [OF assms, of k v] max by simp
    then have tk: "take (max_size c) ?ys = butlast ?ys" by (simp add: butlast_conv_take)
    show ?thesis
      using True pop val lst tk len max abs_pop [OF core ne] ys
      by (cases "lru_abs c") (simp add: insert_with_eviction_def Let_def lru_abs_def)
  next
    case False
    with len max ys show ?thesis
      by (cases "lru_abs c") (simp add: insert_with_eviction_def Let_def lru_abs_def)
  qed
qed

lemma touch_inner_frame [simp]:
  "lmap (touch_inner k c) = lmap c" "max_size (touch_inner k c) = max_size c"
  by (simp_all add: touch_inner_def)

lemma order_touch_inner:
  assumes "lru_core c"
  shows "order (touch_inner k c) =
    (if k \<in> dom (hm_get (lmap c)) then k # filter (\<lambda>x. x \<noteq> k) (order c) else order c)"
  using assms
  by (auto simp: touch_inner_def hm_contains_def order_remove_order remove1_filter lru_core_def)

lemma touch_inner_inv: "lru_inv c \<Longrightarrow> lru_inv (touch_inner k c)"
  by (auto simp: lru_inv_def lru_core_def order_touch_inner [unfolded lru_core_def])

lemma abs_touch_inner:
  assumes "lru_core c"
  shows "lru_abs (touch_inner k c) = (fst (lru_abs c), rec_touch k (snd (lru_abs c)))"
proof -
  have val: "lru_value (touch_inner k c) = lru_value c" by (rule ext) (simp add: lru_value_def)
  show ?thesis
  proof (cases "hm_get (lmap c) k")
    case None
    then have "map_of (snd (lru_abs c)) k = None" using assms by (simp add: map_of_abs)
    with None show ?thesis
      by (simp add: lru_abs_def order_touch_inner [OF assms] val rec_touch_def domIff)
  next
    case (Some p)
    then have "map_of (snd (lru_abs c)) k = Some (lru_value c k)"
      using assms by (simp add: map_of_abs lru_value_def)
    with Some show ?thesis
      by (simp add: lru_abs_def order_touch_inner [OF assms] val rec_touch_def rec_drop_abs domIff)
  qed
qed

lemma lru_remove_inv: "lru_inv c \<Longrightarrow> lru_inv (snd (lru_remove k c))"
  by (auto simp: lru_inv_def lru_core_def lru_remove_def Let_def order_remove_order hm.len_remove)

lemma lru_clear_inv: "lru_inv c \<Longrightarrow> lru_inv (lru_clear c)"
  by (simp add: lru_inv_def lru_core_def lru_clear_def)

lemma abs_lru_remove:
  assumes "lru_core c"
  shows "map_prod RVal lru_abs (lru_remove k c) = rec_step (LRemove k) (lru_abs c)"
proof -
  have "distinct (order c)" using assms by (simp add: lru_core_def)
  then show ?thesis
    using map_of_abs [OF assms, of k]
    by (cases "lru_abs c")
      (auto simp: lru_remove_def Let_def lru_abs_def order_remove_order remove1_filter
        rec_drop_abs lru_value_def)
qed

interpretation lru: refinement lru_step lru_inv rec_step lru_abs
proof unfold_locales
  fix c :: "('a, 'b) lru" and x
  assume inv: "lru_inv c"
  then have core: "lru_core c" by (simp add: lru_inv_def)
  show "lru_inv (snd (lru_step x c))"
    using inv
    by (cases x)
      (simp_all add: lru_insert_eq insert_with_eviction_core fetch_def touch_inner_inv lru_remove_inv
        lru_touch_def lru_clear_inv split: option.split)
  show "rec_step x (lru_abs c) = map_prod id lru_abs (lru_step x c)"
  proof (cases x)
    case (LInsert k v)
    have "lru_abs (snd (insert_with_eviction k v c)) = snd (rec_step (LInsertEv k v) (lru_abs c))"
      unfolding abs_insert_with_eviction [OF inv, symmetric] by simp
    then show ?thesis
      using LInsert by (cases "lru_abs c") (simp add: lru_insert_eq [OF inv] Let_def)
  next
    case (LInsertEv k v)
    then show ?thesis
      using abs_insert_with_eviction [OF inv, of k v] by (cases "insert_with_eviction k v c") simp
  next
    case (LFetch k)
    then show ?thesis
      using map_of_abs [OF core, of k] abs_touch_inner [OF core, of k]
      by (cases "lru_abs c") (auto simp: fetch_def rec_touch_def split: option.split)
  next
    case (LContains k)
    then show ?thesis
      using map_of_abs [OF core, of k]
      by (cases "lru_abs c") (auto simp: lru_contains_def hm_contains_def)
  next
    case (LRemove k)
    then show ?thesis
      using abs_lru_remove [OF core, of k] by (cases "lru_remove k c") simp
  next
    case (LTouch k)
    then show ?thesis
      using abs_touch_inner [OF core, of k] by (cases "lru_abs c") (simp add: lru_touch_def)
  next
    case LIsEmpty
    then show ?thesis
      using length_order [OF core] by (auto simp: lru_abs_def lru_is_empty_def)
  qed (simp_all add: lru_abs_def lru_len_def lru_capacity_def lru_clear_def keys_lru_def
      length_order [OF core] o_def)
qed

section \<open>Properties\<close>

text \<open>
  C13. A cache made with capacity \<open>n\<close> answers every sequence of operations as the recency list
  of at most \<open>n\<close> entries does; no insertion loops for ever, and the cache never holds more
  than \<open>n\<close> entries.
\<close>

theorem cache_is_recency_list:
  assumes "LruCache_new n = Inr c"
  shows "fst (run_ops lru_step xs c) = fst (run_ops rec_step xs (n, []))
    \<and> RHang \<notin> set (fst (run_ops lru_step xs c))
    \<and> lru_len (snd (run_ops lru_step xs c)) \<le> n"
proof -
  from assms have inv: "lru_inv c" and abs: "lru_abs c = (n, [])" and cap: "max_size c = n"
    by (auto simp: LruCache_new_def lru_inv_def lru_core_def lru_abs_def split: if_splits)
  have no_hang: "RHang \<notin> set (fst (run_ops rec_step ys s))" for ys and s :: "('a, 'b) recency"
  proof (induction ys arbitrary: s)
    case (Cons y ys)
    moreover have "fst (rec_step y s) \<noteq> RHang" by (cases y; cases s) (simp_all add: Let_def)
    ultimately show ?case by auto
  qed simp
  have same: "fst (snd (run_ops rec_step ys s)) = fst s" for ys and s :: "('a, 'b) recency"
  proof (induction ys arbitrary: s)
    case (Cons y ys)
    moreover have "fst (snd (rec_step y s)) = fst s" by (cases y; cases s) (simp_all add: Let_def)
    ultimately show ?case by simp
  qed simp
  let ?s = "snd (run_ops lru_step xs c)"
  have run: "fst (run_ops lru_step xs c) = fst (run_ops rec_step xs (n, []))"
    using lru.run_results [OF inv] abs by simp
  have "lru_abs ?s = snd (run_ops rec_step xs (lru_abs c))"
    using lru.run_commutes [OF inv, of xs] by simp
  then have "max_size ?s = n"
    using same [of xs "lru_abs c"] cap by (metis fst_conv lru_abs_def)
  moreover have "lru_len ?s \<le> max_size ?s"
    using lru.run_inv [OF inv, of xs] by (simp add: lru_inv_def lru_len_def)
  ultimately show ?thesis using run no_hang by simp
qed

theorem cache_is_recency_list_witness:
  fixes c :: "(nat, nat) lru"
  defines "c \<equiv> \<lparr>max_size = 2, lmap = [], order = []\<rparr>"
    and "xs \<equiv> [LInsert 1 10, LInsert 2 20, LFetch 1, LInsert 3 30, LContains 2, LKeys]"
  shows "fst (run_ops lru_step xs c) = [RUnit, RUnit, RVal (Some 10), RUnit, RBool False, RKeys [3, 1]]
    \<and> RHang \<notin> set (fst (run_ops lru_step xs c)) \<and> lru_len (snd (run_ops lru_step xs c)) \<le> 2"
proof -
  have "LruCache_new 2 = Inr c" by (simp add: c_def LruCache_new_def)
  from cache_is_recency_list [OF this, of xs] show ?thesis
    by (simp add: xs_def rec_drop_def rec_touch_def)
qed

text \<open>
  An insertion returns, puts its key in front, and drops the least recently used keys that
  exceed the capacity, which is one at most; the value is there afterwards.
\<close>

lemma insert_evicts_oldest:
  assumes "lru_inv c"
  shows "\<exists>c'. lru_insert k v c = Some c' \<and>
    keys_lru c' = take (lru_capacity c) (k # filter (\<lambda>x. x \<noteq> k) (keys_lru c)) \<and>
    fst (fetch k c') = Some v \<and> lru_inv c'"
proof -
  let ?c = "snd (insert_with_eviction k v c)"
  have ins: "lru_insert k v c = Some ?c" using assms by (rule lru_insert_eq)
  have inv: "lru_inv ?c" using assms by (rule insert_with_eviction_core)
  have keys: "map fst (snd (lru_abs s)) = keys_lru s" for s :: "('a, 'b) lru"
    by (simp add: lru_abs_def keys_lru_def o_def)
  have abs: "snd (lru_abs ?c) = take (lru_capacity c) ((k, v) # rec_drop k (snd (lru_abs c)))"
    using lru.commutes [OF assms, of "LInsert k v"]
    by (cases "lru_abs c") (auto simp: ins lru_abs_def lru_capacity_def)
  have "keys_lru ?c = map fst (snd (lru_abs ?c))" by (simp add: keys)
  also have "\<dots> = take (lru_capacity c) (k # filter (\<lambda>x. x \<noteq> k) (map fst (snd (lru_abs c))))"
    by (simp add: abs rec_drop_def filter_map o_def take_map [symmetric])
  finally have k: "keys_lru ?c = take (lru_capacity c) (k # filter (\<lambda>x. x \<noteq> k) (keys_lru c))"
    by (simp add: keys)
  obtain n where "lru_capacity c = Suc n"
    using assms by (cases "lru_capacity c") (auto simp: lru_inv_def lru_capacity_def)
  then have "map_of (snd (lru_abs ?c)) k = Some v" by (simp add: abs)
  then have "fst (fetch k ?c) = Some v"
    using map_of_abs [of ?c k] inv by (auto simp: lru_inv_def fetch_def split: option.splits)
  with ins inv k show ?thesis by blast
qed

end
