(* ===== verification/Time_Util.thy ===== *)
theory Time_Util
  imports Complex_Main
begin

text \<open>
  \<open>zht-common/src/time_util.rs\<close>. The time since the epoch and the time since an instant are
  arguments, as the standard library's \<open>Duration\<close>: whole seconds and the nanoseconds below one
  second; before the epoch there is none. An \<open>f64\<close> is given as the exact real number, without
  its rounding.
\<close>

section \<open>Durations\<close>

record duration =
  du_secs :: nat
  du_nanos :: nat

definition as_secs_f64 :: "duration \<Rightarrow> real" where
  "as_secs_f64 d = real (du_secs d) + real (du_nanos d) / 1000000000"

section \<open>The clock\<close>

definition time_usec :: "duration option \<Rightarrow> real" where
  "time_usec epoch = (case epoch of None \<Rightarrow> 0
     | Some d \<Rightarrow> as_secs_f64 d * 1000000 + real (du_nanos d) / 1000)"

definition time_msec :: "duration option \<Rightarrow> real" where
  "time_msec epoch = (case epoch of None \<Rightarrow> 0
     | Some d \<Rightarrow> as_secs_f64 d * 1000 + real (du_nanos d) / 1000000)"

definition time_sec :: "duration option \<Rightarrow> real" where
  "time_sec epoch = (case epoch of None \<Rightarrow> 0
     | Some d \<Rightarrow> as_secs_f64 d + real (du_nanos d) / 1000000000)"

definition elapsed_usec :: "duration \<Rightarrow> real" where
  "elapsed_usec elapsed = as_secs_f64 elapsed * 1000000"

definition elapsed_msec :: "duration \<Rightarrow> real" where
  "elapsed_msec elapsed = as_secs_f64 elapsed * 1000"

definition elapsed_sec :: "duration \<Rightarrow> real" where
  "elapsed_sec elapsed = as_secs_f64 elapsed"

lemmas clock_defs = time_usec_def time_msec_def time_sec_def as_secs_f64_def
lemmas elapsed_defs = elapsed_usec_def elapsed_msec_def elapsed_sec_def as_secs_f64_def

section \<open>What the clock shows\<close>

text \<open>\<open>as_secs_f64\<close> has the fraction of the second already, so the clock counts it twice.\<close>

lemma fraction_twice:
  "time_sec (Some d) = as_secs_f64 d + real (du_nanos d) / 1000000000"
  "time_msec (Some d) = 1000 * time_sec (Some d)"
  "time_usec (Some d) = 1000000 * time_sec (Some d)"
  by (simp_all add: clock_defs field_simps)

text \<open>So it runs at twice the speed within a second, and goes back at the end of every second.\<close>

lemma clock_goes_back:
  assumes "du_nanos d = 999999999"
  shows "time_sec (Some \<lparr>du_secs = Suc (du_secs d), du_nanos = 0\<rparr>) < time_sec (Some d)"
  using assms by (simp add: clock_defs)

text \<open>The elapsed time is right: it orders durations as they are.\<close>

lemma elapsed_mono:
  "elapsed_sec d < elapsed_sec d' \<longleftrightarrow>
     du_secs d * 1000000000 + du_nanos d < du_secs d' * 1000000000 + du_nanos d'"
proof -
  have eq: "elapsed_sec x * 1000000000 = real (du_secs x * 1000000000 + du_nanos x)" for x
    by (simp add: elapsed_defs field_simps)
  have "elapsed_sec d < elapsed_sec d' \<longleftrightarrow> elapsed_sec d * 1000000000 < elapsed_sec d' * 1000000000"
    by simp
  then show ?thesis unfolding eq of_nat_less_iff .
qed

end
