(* ===== verification/Spec2Isabelle.thy ===== *)
theory Spec2Isabelle
  imports Many_Clients Concurrent_Server Novoht_Torn Zht_Main Transport_Names Pool_Race Shutdown Lru_Cache Time_Util
begin

text \<open>
  A verification library for ZHT, the zero-hop distributed hash table (the Rust workspace under
  \<open>src/crates\<close>). Every node knows every other node; a client hashes the key, picks the node, and
  sends it one request over TCP.

  \<^bold>\<open>The parts and how they interact.\<close>
  A client (\<open>zht-client\<close>) reads a settings file and a file of neighbours (\<open>zht-config\<close>, built on
  \<open>zht-common\<close>), routes a key with \<open>resolve_node\<close> and calls \<open>sendrecv\<close> of the transport's
  \<open>TcpProxy\<close>, which keeps one connection per peer. A message is a protobuf \<open>ZPack\<close> in a frame with a
  four-byte length. A server (\<open>zht-server\<close>) accepts connections, and its handler reads frames,
  passes each request to \<open>HTWorker::process\<close> and writes the answer. The worker dispatches on the
  opcode and works on a \<open>NoVoHT\<close> (\<open>zht-storage\<close>), a map with an append-only file. The server also
  has a member list, replication to the nodes after the primary, and migration of the keys it does
  not own. \<open>zht-cache\<close> is an LRU cache, and the chunking of the transport cuts a large message
  into datagrams.

  \<^bold>\<open>Theories and sources.\<close>
  \<^item> \<open>Zht_Prelude\<close>: named collections, bytes, characters, hash maps as association lists (a
    \<open>HashMap\<close> is given by its entries in iteration order, so that what depends on that order shows).
    \<open>Rust_Text\<close>, \<open>Rust_Scan\<close>, \<open>Rust_Num\<close>: the parts of Rust's standard library the sources use on
    strings: UTF-8 validity and \<open>from_utf8_lossy\<close>, \<open>trim\<close>, \<open>split_whitespace\<close>, \<open>lines\<close>, decimal
    printing and parsing. A \<open>String\<close> is the list of its bytes.
  \<^item> \<open>Op_Machine\<close>: the locales \<open>op_machine\<close> (every operation keeps an invariant) and \<open>refinement\<close>
    (every operation refines an abstract one with equal results), and their lemmas on runs. They
    are interpreted for the cache, the member list, the store, its file and the worker.
  \<^item> \<open>Zht_Common\<close>: \<open>zht-common\<close> (errors, hosts and their addresses, hashing, identifiers, settings
    entries), \<open>Socket_Addr\<close>: the standard library's reading and printing of socket addresses, and
    which hosts have one. \<open>Time_Util\<close>: its clock, as exact reals. \<open>Zht_Config\<close>: \<open>zht-config\<close>. \<open>Lru_Cache\<close>: \<open>zht-cache\<close>.
  \<^item> \<open>Novoht\<close>: \<open>zht-storage\<close>, the map and its file; \<open>Novoht_Log\<close>: the file as a log of the map;
    \<open>Novoht_Crash\<close>: what a restart makes of writes cut short and of entries no line can carry;
    \<open>Novoht_Torn\<close>: what it makes of all that follows a write cut inside a character.
  \<^item> \<open>Wire\<close>: the framing of \<open>zht-transport/src/lib.rs\<close>. The protobuf codec is a pair of parameters
    \<open>enc\<close> and \<open>dec\<close>; \<open>clean_codec enc dec z\<close> says that \<open>z\<close> is decoded to itself and fits a frame.
    \<open>sample_enc\<close> and \<open>sample_dec\<close> are a codec of our own that has this property, for the witnesses.
  \<^item> \<open>Tcp_Proxy\<close>: \<open>TcpProxy\<close>. \<open>Worker\<close>: \<open>HTWorker\<close> of \<open>lib.rs\<close> and of \<open>worker.rs\<close>; \<open>Worker_Spec\<close>: what a
    node promises, \<open>node_answer\<close> on a map, and the worker's refinement of it; \<open>Worker_Utf8\<close>: the type of what a node holds and
    sends. \<open>Tcp_Server\<close>: the accept
    loops and the connection handler, \<open>Concurrent_Server\<close>: the tasks of many connections interleaved
    on one worker, as a step relation. \<open>Transport_Metrics\<close>, \<open>Chunking\<close>, \<open>Chunk_Transfer\<close>:
    \<open>metrics.rs\<close> and \<open>chunking.rs\<close>.
  \<^item> \<open>Zht_Client\<close>: \<open>zht-client\<close>. What the client needs of a transport is the locale \<open>zht_net\<close>;
    \<open>Cluster\<close> puts proxy, frames, handler and workers together and interprets it; \<open>Dht\<close> states what
    the whole promises a client, \<open>Many_Clients\<close> what it promises several clients.
  \<^item> \<open>Request_Handler\<close>: the trait between the servers of \<open>tcp.rs\<close> and \<open>udp.rs\<close> and what answers, as the
    locale \<open>request_handler\<close>, interpreted on \<open>WorkerHandler\<close>. \<open>Tcp_Pool\<close>: \<open>tcp.rs\<close>. \<open>Udp\<close>: \<open>udp.rs\<close>.
    \<open>Pool_Race\<close>: calls on one pool of \<open>tcp.rs\<close> at the same time, lock by lock, as a step relation.
    \<open>Transport_Dispatch\<close>: \<open>traits.rs\<close> and \<open>factory.rs\<close>, \<open>Transport_Names\<close>: runs of their clients.
    \<open>Shutdown\<close>: \<open>shutdown.rs\<close>, as a step relation. \<open>Framing\<close>: \<open>framing.rs\<close>, which repeats the framing
    of \<open>lib.rs\<close>, and is shown to be the same.
  \<^item> \<open>Membership\<close>, \<open>Replication\<close>, \<open>Migration\<close>, \<open>Migration_Effect\<close>, \<open>Zht_Server\<close>: \<open>zht-server/src/lib.rs\<close>;
    \<open>Zht_Main\<close>: its \<open>main.rs\<close>.

  \<^bold>\<open>How the code is rendered.\<close>
  A struct is a record, an enum a datatype, a fallible function returns \<open>error + 'a\<close> with Rust's
  error type, and a function that may panic or never answer an option. State behind a lock is
  passed and returned. \<open>u16\<close>, \<open>u32\<close>, \<open>u64\<close> are words; \<open>usize\<close> and clock readings are natural numbers.
  The surroundings are arguments: \<open>io\<close> is what the file system answers to a write, \<open>tcp_env\<close> what
  the network does at each attempt (connections, writes, arriving bytes, the clock, the point at
  which a timeout cuts the exchange), \<open>serve_env\<close> what a request finds (the store as other
  connections leave it while a callback polls, the clock), \<open>server_event\<close> what a listener reports.
  Theorems hold for all of them, unless a hypothesis says what the network carries.

  \<^bold>\<open>What the lemmas show.\<close>
  The properties go from the whole to the parts. A client over a cluster refines a single map with
  the operations as they are documented, but for the ways in which compare-and-swap departs, which
  are named (\<open>Dht\<close>), and so do several clients whose calls follow one another
  (\<open>Many_Clients\<close>), because the worker refines \<open>node_answer\<close>
  (\<open>Worker_Spec\<close>), the handler serves frames in order (\<open>Tcp_Server\<close>),
  also when connections interleave (\<open>Concurrent_Server\<close>), and the proxy returns the
  frame its peer sends (\<open>Tcp_Proxy\<close>). The store refines a map and survives a restart,
  and a write that is cut short harms its own key only when a restart follows at once
  (\<open>Novoht_Crash\<close>), while one cut inside a character hides what is written after it
  (\<open>Novoht_Torn\<close>); its keys and values stay UTF-8 (\<open>Worker_Utf8\<close>); the
  cache refines a bounded recency list; the member list keeps its invariant; replicas are alive
  members, other than the primary while the setting is below their number, and are sent the
  primary's change; a migration drops no key unsent. Round trips: frames, chunks of several
  messages in any order, addresses, settings and neighbour files. Error behaviour is stated as it
  is, also where it is not what the code means to do: torn and unreadable file entries, repeated
  requests, misdelivered answers, stray chunks, the length prefix that wraps, the server that
  forgets its writes, the migration that empties a node, long UDP requests that are dropped, UDP
  answers that shift by one, a datagram that ends the server, nodes named by host names that two
  transports cannot reach, calls on a pool that panic because of one another, a shutdown that a
  task misses between its check and its subscription, a clock that goes back every second.

  \<^bold>\<open>Termination, fuel and bounds.\<close>
  No definition runs on fuel. Loops over the input recurse on it; \<open>connection_loop\<close> and
  \<open>metrics_loop\<close> decrease the bytes to read; the retry loops decrease the attempts left, from
  \<open>MAX_RECONNECT_ATTEMPTS\<close>; eviction and the callback's poll may run for ever in a hostile
  surrounding and are \<open>partial_function\<close>s, with theorems that they return.

  \<^bold>\<open>Not modelled.\<close>
  Interleaving inside a request at the worker: a request works on the store once, under its lock, and is one
  step; its counters, which have a lock of their own, move with it. A store does not change while
  \<open>check_and_migrate\<close> runs. Memory exhaustion, logging,
  the command line's parsing and the signal handler. The operating system's resolution of host
  names, which is a part of what connecting answers. The generated protobuf code (\<open>zht-proto\<close>).
  The rounding of floating-point numbers, in the clock and in the uptime that a report of the
  metrics prints.
\<close>

end
